(* ===== verification/Go_Prelude.thy ===== *)
theory Go_Prelude
  imports Complex_Main "HOL-Library.Monad_Syntax" "HOL-Library.List_Lexorder" "HOL-Library.Char_ord"
    "HOL-Library.Sublist" "HOL-Library.AList" "HOL-Library.Multiset" "HOL-Library.Word"
begin

text \<open>
  What the checker's components share: the value of a Go call that may panic, the two shapes of
  a \<open>range\<close> loop, the decimal printer behind \<open>strconv.Itoa\<close> and \<open>%d\<close>, and the string sets of
  \<open>k8s.io/apimachinery/pkg/util/sets\<close>. The lemmas here are the generic ones: how loops split
  over appended and flattened lists, and what the printers invert.
\<close>

named_theorems go_loop \<open>unfolding rules of the loop combinators\<close>
named_theorems path_string \<open>what the string of a path is made of\<close>
named_theorems walk \<open>results of a schema walk for a given predicate\<close>
named_theorems check_defs \<open>definitions of the checks, unfolded when a result is computed\<close>

section \<open>Panics and loops\<close>

text \<open>
  A Go call whose body may dereference a nil pointer has the type \<open>'a go\<close>: \<open>None\<close> is the
  run-time panic, \<open>Some x\<close> is an ordinary return. An \<open>error\<close> result is a value, the left
  side of a sum inside the \<open>Some\<close>, because Go code goes on after it.
\<close>

type_synonym 'a go = "'a option"
type_synonym gerror = string
type_synonym int64 = "64 word"
type_synonym uint64 = "64 word"

text \<open>A loop that stops at the first iteration whose body returns \<open>true\<close>.\<close>

fun range_until :: "('a \<Rightarrow> 'st \<Rightarrow> (bool \<times> 'st) go) \<Rightarrow> 'a list \<Rightarrow> 'st \<Rightarrow> (bool \<times> 'st) go" where
  "range_until f [] st = Some (False, st)"
| "range_until f (x # xs) st =
     (case f x st of
        None \<Rightarrow> None
      | Some (b, st') \<Rightarrow> if b then Some (True, st') else range_until f xs st')"

text \<open>A loop over all elements that updates the variables of the enclosing function.\<close>

fun range_do :: "('a \<Rightarrow> 'st \<Rightarrow> 'st go) \<Rightarrow> 'a list \<Rightarrow> 'st \<Rightarrow> 'st go" where
  "range_do f [] st = Some st"
| "range_do f (x # xs) st = (case f x st of None \<Rightarrow> None | Some st' \<Rightarrow> range_do f xs st')"

lemma range_until_cong [fundef_cong]:
  assumes "xs = ys" and "st = st'" and "\<And>x s. x \<in> set ys \<Longrightarrow> f x s = g x s"
  shows "range_until f xs st = range_until g ys st'"
proof -
  have "(\<And>x s. x \<in> set ys \<Longrightarrow> f x s = g x s) \<Longrightarrow> range_until f ys t = range_until g ys t" for t
    by (induction ys arbitrary: t) (auto split: option.splits)
  with assms show ?thesis by simp
qed

lemma range_do_cong [fundef_cong]:
  assumes "xs = ys" and "st = st'" and "\<And>x s. x \<in> set ys \<Longrightarrow> f x s = g x s"
  shows "range_do f xs st = range_do g ys st'"
proof -
  have "(\<And>x s. x \<in> set ys \<Longrightarrow> f x s = g x s) \<Longrightarrow> range_do f ys t = range_do g ys t" for t
    by (induction ys arbitrary: t) (auto split: option.splits)
  with assms show ?thesis by simp
qed

lemma range_until_append [go_loop]:
  "range_until f (xs @ ys) st =
     (case range_until f xs st of
        None \<Rightarrow> None
      | Some (b, st') \<Rightarrow> if b then Some (True, st') else range_until f ys st')"
  by (induction xs arbitrary: st) (auto split: option.splits)

lemma range_until_concat [go_loop]:
  "range_until f (concat xss) st = range_until (range_until f) xss st"
  by (induction xss arbitrary: st) (auto simp: range_until_append split: option.splits)

lemma range_until_map [go_loop]:
  "range_until f (map g xs) st = range_until (\<lambda>x. f (g x)) xs st"
  by (induction xs arbitrary: st) (auto split: option.splits)

lemma range_until_fold:
  assumes "\<And>x s. x \<in> set xs \<Longrightarrow> f x s = Some (False, g x s)"
  shows "range_until f xs st = Some (False, fold g xs st)"
  using assms by (induction xs arbitrary: st) auto

lemma range_until_pure:
  "range_until (\<lambda>x s. Some (p x, s)) xs st = Some (\<exists>x\<in>set xs. p x, st)"
  by (induction xs) auto

lemma range_do_append [go_loop]:
  "range_do f (xs @ ys) st = (case range_do f xs st of None \<Rightarrow> None | Some st' \<Rightarrow> range_do f ys st')"
  by (induction xs arbitrary: st) (auto split: option.splits)

lemma range_do_fold:
  assumes "\<And>x s. x \<in> set xs \<Longrightarrow> f x s = Some (g x s)"
  shows "range_do f xs st = Some (fold g xs st)"
  using assms by (induction xs arbitrary: st) auto

lemma fold_append_concat: "fold (\<lambda>x acc. acc @ g x) xs acc = acc @ concat (map g xs)"
  by (induction xs arbitrary: acc) auto

lemma range_do_collect:
  assumes "\<And>x acc. x \<in> set xs \<Longrightarrow> f x acc = Some (acc @ g x)"
  shows "range_do f xs acc = Some (acc @ concat (map g xs))"
  using range_do_fold [of xs f "\<lambda>x acc. acc @ g x" acc] assms
  by (simp add: fold_append_concat)

lemma range_do_panics:
  assumes "x \<in> set xs" and "\<And>s. f x s = None"
  shows "range_do f xs st = None"
  using assms by (induction xs arbitrary: st) (auto split: option.splits)

lemma concat_map_filter: "concat (map (\<lambda>x. if p x then [g x] else []) xs) = map g (filter p xs)"
  by (induction xs) auto

section \<open>Decimal printing\<close>

definition digit_char :: "nat \<Rightarrow> char" where
  "digit_char d = ''0123456789'' ! d"

fun nat_digits :: "nat \<Rightarrow> string" where
  "nat_digits n = (if n < 10 then [digit_char n] else nat_digits (n div 10) @ [digit_char (n mod 10)])"

declare nat_digits.simps [simp del]

text \<open>\<open>strconv.Itoa\<close>, and the verb \<open>%d\<close> for signed integers.\<close>

definition itoa :: "int \<Rightarrow> string" where
  "itoa i = (if i < 0 then ''-'' @ nat_digits (nat (- i)) else nat_digits (nat i))"

text \<open>The inverse that shows the printer loses nothing.\<close>

definition digit_value :: "char \<Rightarrow> nat" where
  "digit_value c = length (takeWhile (\<lambda>x. x \<noteq> c) ''0123456789'')"

definition digits_value :: "string \<Rightarrow> nat" where
  "digits_value s = foldl (\<lambda>n c. 10 * n + digit_value c) 0 s"

lemma nat_less_10_cases:
  "(n :: nat) < 10 \<Longrightarrow> n = 0 \<or> n = 1 \<or> n = 2 \<or> n = 3 \<or> n = 4 \<or> n = 5 \<or> n = 6 \<or> n = 7 \<or> n = 8 \<or> n = 9"
  by arith

lemma digit_value_char: "d < 10 \<Longrightarrow> digit_value (digit_char d) = d"
  by (drule nat_less_10_cases) (auto simp: digit_value_def digit_char_def)

lemma digits_value_nat_digits: "digits_value (nat_digits n) = n"
proof (induction n rule: nat_digits.induct)
  case (1 n)
  show ?case
  proof (cases "n < 10")
    case True
    then show ?thesis
      by (subst nat_digits.simps) (simp add: digits_value_def digit_value_char)
  next
    case False
    have last: "digits_value (xs @ [c]) = 10 * digits_value xs + digit_value c" for xs c
      by (simp add: digits_value_def)
    from False 1 show ?thesis
      by (subst nat_digits.simps) (simp add: last digit_value_char)
  qed
qed

lemma nat_digits_inject [simp]: "nat_digits m = nat_digits n \<longleftrightarrow> m = n"
  by (metis digits_value_nat_digits)

lemma digit_char_range: "d < 10 \<Longrightarrow> digit_char d \<in> set ''0123456789''"
  unfolding digit_char_def by (rule nth_mem) simp

lemma set_nat_digits: "set (nat_digits n) \<subseteq> set ''0123456789''"
proof (induction n rule: nat_digits.induct)
  case (1 n)
  have "digit_char (n mod 10) \<in> set ''0123456789''" by (rule digit_char_range) simp
  with 1 show ?case
    using digit_char_range [of n] by (subst nat_digits.simps) auto
qed

lemma nat_digits_nonempty [simp]: "nat_digits n \<noteq> []"
  by (subst nat_digits.simps) simp

lemma itoa_inject [simp]: "itoa i = itoa j \<longleftrightarrow> i = j"
proof -
  have minus: "CHR ''-'' \<notin> set (nat_digits n)" for n
    using set_nat_digits [of n] by auto
  have "nat_digits m \<noteq> CHR ''-'' # xs" for m xs
    using minus [of m] by auto
  then show ?thesis
    by (auto simp: itoa_def dest!: sym [of "CHR ''-'' # _"])
qed

section \<open>String sets\<close>

text \<open>
  \<open>sets.String\<close> and \<open>sets.Set[string]\<close> are maps with empty values, that is, finite sets.
  \<open>List\<close> returns the elements in the byte order of Go strings, which is the lexicographic order
  of character lists.
\<close>

type_synonym strset = "string set"

definition sets_NewString :: "string list \<Rightarrow> strset" where
  "sets_NewString items = set items"

definition sets_Insert :: "strset \<Rightarrow> string list \<Rightarrow> strset" where
  "sets_Insert s items = s \<union> set items"

definition sets_Delete :: "strset \<Rightarrow> string list \<Rightarrow> strset" where
  "sets_Delete s items = s - set items"

definition sets_Has :: "strset \<Rightarrow> string \<Rightarrow> bool" where
  "sets_Has s item \<longleftrightarrow> item \<in> s"

definition sets_Difference :: "strset \<Rightarrow> strset \<Rightarrow> strset" where
  "sets_Difference s1 s2 = s1 - s2"

definition sets_List :: "strset \<Rightarrow> string list" where
  "sets_List s = sorted_list_of_set s"

definition sets_StringKeySet :: "(string \<times> 'v) list \<Rightarrow> strset" where
  "sets_StringKeySet m = set (map fst m)"

lemmas sets_defs = sets_NewString_def sets_Insert_def sets_Delete_def sets_Has_def
  sets_Difference_def sets_StringKeySet_def

lemma finite_sets [simp]:
  "finite (sets_NewString xs)"
  "finite s \<Longrightarrow> finite (sets_Insert s xs)"
  "finite s \<Longrightarrow> finite (sets_Delete s xs)"
  "finite s \<Longrightarrow> finite (sets_Difference s t)"
  "finite (sets_StringKeySet m)"
  by (simp_all add: sets_defs)

lemma sets_List_set [simp]: "finite s \<Longrightarrow> set (sets_List s) = s"
  by (simp add: sets_List_def)

lemma sets_List_sorted [simp]: "sorted (sets_List s)"
  by (simp add: sets_List_def)

lemma sets_List_distinct [simp]: "distinct (sets_List s)"
  by (simp add: sets_List_def)

lemma sets_List_empty [simp]: "sets_List {} = []"
  by (simp add: sets_List_def)

lemma sets_List_empty_iff [simp]: "finite s \<Longrightarrow> sets_List s = [] \<longleftrightarrow> s = {}"
  by (simp add: sets_List_def)

end
