(* ===== verification/Field_Path.thy ===== *)
theory Field_Path
  imports Go_Prelude
begin

text \<open>
  The paths of \<open>k8s.io/apimachinery/pkg/util/validation/field\<close>: a linked list of elements from
  the leaf to the root. The checker identifies a schema node by two strings printed from such
  paths, so the lemmas here say which string each constructor of a path adds.
\<close>

section \<open>Paths\<close>

text \<open>An element has a name, or, when its name is empty, a subscript. The root has no parent.\<close>

datatype Path = Path (path_name: string) (path_index: string) (path_parent: "Path option")

definition NewPath :: "string \<Rightarrow> string list \<Rightarrow> Path" where
  "NewPath name moreNames = foldl (\<lambda>r anotherName. Path anotherName [] (Some r)) (Path name [] None) moreNames"

text \<open>The assignment \<open>r.Root().parent = p\<close>.\<close>

fun set_root_parent :: "Path \<Rightarrow> Path \<Rightarrow> Path" where
  "set_root_parent (Path n i None) p = Path n i (Some p)"
| "set_root_parent (Path n i (Some q)) p = Path n i (Some (set_root_parent q p))"

definition Child :: "Path \<Rightarrow> string \<Rightarrow> string list \<Rightarrow> Path" where
  "Child p name moreNames = set_root_parent (NewPath name moreNames) p"

definition Key :: "Path \<Rightarrow> string \<Rightarrow> Path" where
  "Key p key = Path [] key (Some p)"

definition Index :: "Path \<Rightarrow> int \<Rightarrow> Path" where
  "Index p index = Path [] (itoa index) (Some p)"

section \<open>Printing\<close>

text \<open>
  \<open>String\<close> collects the elements from the leaf to the root and writes them in the opposite order.
\<close>

fun path_elems :: "Path \<Rightarrow> Path list" where
  "path_elems (Path n i None) = [Path n i None]"
| "path_elems (Path n i (Some q)) = Path n i (Some q) # path_elems q"

definition elem_string :: "Path \<Rightarrow> string" where
  "elem_string p =
     (if path_parent p \<noteq> None \<and> path_name p \<noteq> [] then ''.'' else []) @
     (if path_name p \<noteq> [] then path_name p else ''['' @ path_index p @ '']'')"

definition path_String :: "Path \<Rightarrow> string" where
  "path_String p = concat (map elem_string (rev (path_elems p)))"

text \<open>\<open>String\<close> on a pointer that may be nil.\<close>

definition ptr_String :: "Path option \<Rightarrow> string" where
  "ptr_String p = (case p of None \<Rightarrow> ''<nil>'' | Some q \<Rightarrow> path_String q)"

section \<open>What a constructor adds to the string\<close>

lemma path_String_unfold [path_string]:
  "path_String (Path n i None) = elem_string (Path n i None)"
  "path_String (Path n i (Some q)) = path_String q @ elem_string (Path n i (Some q))"
  by (simp_all add: path_String_def)

definition segment :: "string \<Rightarrow> string" where
  "segment name = (if name = [] then ''[]'' else ''.'' @ name)"

lemma elem_string_segment:
  "elem_string (Path n [] (Some q)) = segment n"
  by (simp add: elem_string_def segment_def)

lemma set_root_parent_Path:
  "set_root_parent (foldl (\<lambda>r a. Path a [] (Some r)) r ns) p =
   foldl (\<lambda>r a. Path a [] (Some r)) (set_root_parent r p) ns"
  by (induction ns arbitrary: r) simp_all

lemma Child_foldl:
  "Child p name moreNames = foldl (\<lambda>r a. Path a [] (Some r)) (Path name [] (Some p)) moreNames"
  by (simp add: Child_def NewPath_def set_root_parent_Path)

lemma path_String_foldl:
  "path_String (foldl (\<lambda>r a. Path a [] (Some r)) r ns) = path_String r @ concat (map segment ns)"
  by (induction ns arbitrary: r) (simp_all add: path_String_unfold elem_string_segment)

lemma path_String_Child [path_string]:
  "path_String (Child p name moreNames) = path_String p @ concat (map segment (name # moreNames))"
  by (simp add: Child_foldl path_String_foldl path_String_unfold elem_string_segment)

lemma path_String_Key [path_string]: "path_String (Key p k) = path_String p @ ''['' @ k @ '']''"
  by (simp add: Key_def path_String_unfold elem_string_def)

lemma path_String_Index [path_string]: "path_String (Index p i) = path_String p @ ''['' @ itoa i @ '']''"
  by (simp add: Index_def path_String_unfold elem_string_def)

lemma path_String_root [path_string]:
  "path_String (NewPath n []) = (if n = [] then ''[]'' else n)"
  by (simp add: NewPath_def path_String_def elem_string_def)

lemma segment_simps [simp]:
  "segment [] = ''[]''"
  "segment (c # cs) = CHR ''.'' # c # cs"
  by (simp_all add: segment_def)

text \<open>Two extensions of a path print differently as soon as what they add differs.\<close>

lemma path_String_inject [simp]:
  "path_String (Key p k) = path_String (Key p k') \<longleftrightarrow> k = k'"
  "path_String (Index p i) = path_String (Index p j) \<longleftrightarrow> i = j"
  by (simp_all add: path_string)

lemma path_String_nonempty [simp]: "path_String p \<noteq> []"
  by (cases p rule: path_elems.cases) (auto simp: path_string elem_string_def)

end
