(* ===== verification/CRD_Types.thy ===== *)
theory CRD_Types
  imports Field_Path
begin

text \<open>
  The data the checker reads: the schema type of
  \<open>k8s.io/apiextensions-apiserver/pkg/apis/apiextensions/v1\<close> and the part of a
  CustomResourceDefinition that reaches it, with \<open>GetVersionByName\<close> of
  \<open>pkg/manifestcomparators/helpers.go\<close>. A Go map is an association list; its order stands for
  the order in which a run happens to range over the map.
\<close>

section \<open>Schemas\<close>

datatype JSON = JSON (Raw: string)

record ValidationRule =
  Rule :: string
  Message :: string
  MessageExpression :: string
  Reason :: "string option"
  FieldPath :: string
  OptionalOldSelf :: "bool option"

record ExternalDocumentation =
  docs_Description :: string
  docs_URL :: string

text \<open>
  The scalar fields of \<open>JSONSchemaProps\<close>. A pointer field is an option, a \<open>float64\<close> a rational,
  a slice a list. Only \<open>x-kubernetes-validations\<close> is compared with nil, so only that slice is
  an option too.
\<close>

record SchemaAttrs =
  ID :: string
  SchemaURL :: string
  Ref :: "string option"
  Description :: string
  Type :: string
  Format :: string
  Title :: string
  Default :: "JSON option"
  Maximum :: "rat option"
  ExclusiveMaximum :: bool
  Minimum :: "rat option"
  ExclusiveMinimum :: bool
  MaxLength :: "int64 option"
  MinLength :: "int64 option"
  Pattern :: string
  MaxItems :: "int64 option"
  MinItems :: "int64 option"
  UniqueItems :: bool
  MultipleOf :: "rat option"
  Enum :: "JSON list"
  MaxProperties :: "int64 option"
  MinProperties :: "int64 option"
  Required :: "string list"
  ExternalDocs :: "ExternalDocumentation option"
  Example :: "JSON option"
  Nullable :: bool
  XPreserveUnknownFields :: "bool option"
  XEmbeddedResource :: bool
  XIntOrString :: bool
  XListMapKeys :: "string list"
  XListType :: "string option"
  XMapType :: "string option"
  XValidations :: "ValidationRule list option"

text \<open>\<open>JSONSchemaPropsOrArray\<close>, \<open>JSONSchemaPropsOrBool\<close>, \<open>JSONSchemaPropsOrStringArray\<close>.\<close>

datatype 's PropsOrArray = PropsOrArray (items_Schema: "'s option") (JSONSchemas: "'s list")
datatype 's PropsOrBool = PropsOrBool (Allows: bool) (bool_Schema: "'s option")
datatype 's PropsOrStringArray = PropsOrStringArray (deps_Schema: "'s option") (deps_Property: "string list")

datatype JSONSchemaProps =
  JSONSchemaProps
    (attrs: SchemaAttrs)
    (Items: "JSONSchemaProps PropsOrArray option")
    (AllOf: "JSONSchemaProps list")
    (OneOf: "JSONSchemaProps list")
    (AnyOf: "JSONSchemaProps list")
    (Not: "JSONSchemaProps option")
    (Properties: "(string \<times> JSONSchemaProps) list")
    (AdditionalProperties: "JSONSchemaProps PropsOrBool option")
    (PatternProperties: "(string \<times> JSONSchemaProps) list")
    (Dependencies: "(string \<times> JSONSchemaProps PropsOrStringArray) list")
    (AdditionalItems: "JSONSchemaProps PropsOrBool option")
    (Definitions: "(string \<times> JSONSchemaProps) list")

text \<open>The zero value of the struct, from which the examples are built.\<close>

definition zero_attrs :: SchemaAttrs where
  "zero_attrs =
     \<lparr> ID = [], SchemaURL = [], Ref = None, Description = [], Type = [], Format = [], Title = [],
       Default = None, Maximum = None, ExclusiveMaximum = False, Minimum = None,
       ExclusiveMinimum = False, MaxLength = None, MinLength = None, Pattern = [],
       MaxItems = None, MinItems = None, UniqueItems = False, MultipleOf = None, Enum = [],
       MaxProperties = None, MinProperties = None, Required = [], ExternalDocs = None,
       Example = None, Nullable = False, XPreserveUnknownFields = None,
       XEmbeddedResource = False, XIntOrString = False, XListMapKeys = [], XListType = None,
       XMapType = None, XValidations = None \<rparr>"

definition leaf_schema :: "SchemaAttrs \<Rightarrow> JSONSchemaProps" where
  "leaf_schema a = JSONSchemaProps a None [] [] [] None [] None [] [] None []"

definition object_schema :: "SchemaAttrs \<Rightarrow> (string \<times> JSONSchemaProps) list \<Rightarrow> JSONSchemaProps" where
  "object_schema a ps = JSONSchemaProps (a\<lparr>Type := ''object''\<rparr>) None [] [] [] None ps None [] [] None []"

definition array_schema :: "SchemaAttrs \<Rightarrow> JSONSchemaProps \<Rightarrow> JSONSchemaProps" where
  "array_schema a s =
     JSONSchemaProps (a\<lparr>Type := ''array''\<rparr>) (Some (PropsOrArray (Some s) [])) [] [] [] None [] None [] [] None []"

section \<open>CustomResourceDefinitions\<close>

text \<open>
  The fields of the CRD types that the checker reads: names, versions, the schema of a version
  and its status subresource. The pointers \<open>Schema\<close>, \<open>OpenAPIV3Schema\<close>, \<open>Subresources\<close> and
  \<open>Status\<close> are options; the status subresource is an empty struct.
\<close>

record CustomResourceValidation =
  OpenAPIV3Schema :: "JSONSchemaProps option"

record CustomResourceSubresources =
  Status :: "unit option"
  Scale :: "unit option"

record CustomResourceDefinitionVersion =
  version_Name :: string
  Schema :: "CustomResourceValidation option"
  Subresources :: "CustomResourceSubresources option"

record CustomResourceDefinition =
  crd_Name :: string
  Versions :: "CustomResourceDefinitionVersion list"

type_synonym CRD = CustomResourceDefinition
type_synonym CRDVersion = CustomResourceDefinitionVersion

text \<open>The value of \<open>&apiextensionsv1.CustomResourceDefinition{}\<close>.\<close>

definition empty_crd :: CRD where
  "empty_crd = \<lparr> crd_Name = [], Versions = [] \<rparr>"

text \<open>\<open>GetVersionByName\<close>: the first version of that name, nil if there is none or the CRD is nil.\<close>

fun find_version :: "CRDVersion list \<Rightarrow> string \<Rightarrow> CRDVersion option" where
  "find_version [] versionName = None"
| "find_version (v # vs) versionName = (if version_Name v = versionName then Some v else find_version vs versionName)"

definition GetVersionByName :: "CRD option \<Rightarrow> string \<Rightarrow> CRDVersion option" where
  "GetVersionByName crd versionName =
     (case crd of None \<Rightarrow> None | Some c \<Rightarrow> find_version (Versions c) versionName)"

text \<open>The expression \<open>version.Schema.OpenAPIV3Schema\<close>: a panic when \<open>Schema\<close> is nil.\<close>

definition version_schema :: "CRDVersion \<Rightarrow> JSONSchemaProps option go" where
  "version_schema v = (case Schema v of None \<Rightarrow> None | Some val \<Rightarrow> Some (OpenAPIV3Schema val))"

definition has_schema :: "CRDVersion \<Rightarrow> bool" where
  "has_schema v \<longleftrightarrow> Schema v \<noteq> None"

definition crd_ok :: "CRD \<Rightarrow> bool" where
  "crd_ok c \<longleftrightarrow> list_all has_schema (Versions c)"

lemma version_schema_ok: "has_schema v \<Longrightarrow> \<exists>s. version_schema v = Some s"
  by (auto simp: has_schema_def version_schema_def)

lemma empty_crd_ok [simp]: "crd_ok empty_crd" "Versions empty_crd = []"
  by (simp_all add: crd_ok_def empty_crd_def)

lemma find_version_find:
  "find_version vs n = find (\<lambda>v. version_Name v = n) vs"
  by (induction vs) auto

lemma GetVersionByName_Some:
  "GetVersionByName (Some c) n = Some v \<Longrightarrow> v \<in> set (Versions c) \<and> version_Name v = n"
  by (auto simp: GetVersionByName_def find_version_find find_Some_iff)

lemma GetVersionByName_None_iff:
  "GetVersionByName (Some c) n = None \<longleftrightarrow> (\<forall>v\<in>set (Versions c). version_Name v \<noteq> n)"
  by (auto simp: GetVersionByName_def find_version_find find_None_iff)

lemma GetVersionByName_nil [simp]: "GetVersionByName None n = None"
  by (simp add: GetVersionByName_def)

lemma GetVersionByName_empty [simp]: "GetVersionByName (Some empty_crd) n = None"
  by (simp add: GetVersionByName_def)

text \<open>With distinct version names, each version is the one its own name finds.\<close>

lemma find_version_self:
  "distinct (map version_Name vs) \<Longrightarrow> v \<in> set vs \<Longrightarrow> find_version vs (version_Name v) = Some v"
  by (induction vs) auto

lemma GetVersionByName_self:
  "distinct (map version_Name (Versions c)) \<Longrightarrow> v \<in> set (Versions c) \<Longrightarrow>
   GetVersionByName (Some c) (version_Name v) = Some v"
  by (simp add: GetVersionByName_def find_version_self)

end
