(* ===== verification/Schema_Walker.thy ===== *)
theory Schema_Walker
  imports CRD_Types
begin

text \<open>
  The recursive traversal \<open>SchemaHas\<close> of \<open>pkg/manifestcomparators/helpers.go\<close>. Every comparator is
  a predicate handed to it. The first section translates it as it is written, with a predicate
  that may panic, may stop the walk and updates variables it captured. The second gives its
  specification, the list of nodes in the order the walk visits them, and the third the
  interface of the predicates that never stop, on which the comparators rest. Pointers of the
  pool that \<open>schemaHasRecurse\<close> draws its copies from are the matter of \<open>Schema_Pool\<close>.
\<close>

section \<open>The traversal\<close>

text \<open>
  The children of a node in the order of the traversal, each with the two paths the recursive
  call gets: items, allOf, anyOf, oneOf, not, properties, additionalProperties,
  patternProperties, additionalItems, definitions, dependencies. A nil pointer has no child.
\<close>

type_synonym edge = "JSONSchemaProps \<times> Path \<times> Path"

definition ptr_edge :: "JSONSchemaProps option \<Rightarrow> Path \<Rightarrow> Path \<Rightarrow> edge list" where
  "ptr_edge s fld loc = (case s of None \<Rightarrow> [] | Some c \<Rightarrow> [(c, fld, loc)])"

definition slice_edges :: "JSONSchemaProps list \<Rightarrow> (nat \<Rightarrow> Path) \<Rightarrow> (nat \<Rightarrow> Path) \<Rightarrow> edge list" where
  "slice_edges ss fld loc = map (\<lambda>(i, c). (c, fld i, loc i)) (enumerate 0 ss)"

definition map_edges ::
  "(string \<times> JSONSchemaProps) list \<Rightarrow> (string \<Rightarrow> Path) \<Rightarrow> (string \<Rightarrow> Path) \<Rightarrow> edge list" where
  "map_edges m fld loc = map (\<lambda>(k, c). (c, fld k, loc k)) m"

definition schema_children :: "JSONSchemaProps \<Rightarrow> Path \<Rightarrow> Path \<Rightarrow> edge list" where
  "schema_children s fldPath simpleLocation =
     (case Items s of
        None \<Rightarrow> []
      | Some items \<Rightarrow>
          ptr_edge (items_Schema items) (Child fldPath ''items'' []) (Key simpleLocation ''*'') @
          slice_edges (JSONSchemas items)
            (\<lambda>i. Index (Child fldPath ''items'' [''jsonSchemas'']) (int i))
            (\<lambda>i. Index simpleLocation (int i))) @
     slice_edges (AllOf s) (\<lambda>i. Index (Child fldPath ''allOf'' []) (int i)) (\<lambda>i. simpleLocation) @
     slice_edges (AnyOf s) (\<lambda>i. Index (Child fldPath ''anyOf'' []) (int i)) (\<lambda>i. simpleLocation) @
     slice_edges (OneOf s) (\<lambda>i. Index (Child fldPath ''oneOf'' []) (int i)) (\<lambda>i. simpleLocation) @
     ptr_edge (Not s) (Child fldPath ''not'' []) simpleLocation @
     map_edges (Properties s) (\<lambda>k. Key (Child fldPath ''properties'' []) k) (\<lambda>k. Child simpleLocation k []) @
     (case AdditionalProperties s of
        None \<Rightarrow> []
      | Some ap \<Rightarrow>
          ptr_edge (bool_Schema ap) (Child fldPath ''additionalProperties'' [''schema'']) (Key simpleLocation ''*'')) @
     map_edges (PatternProperties s) (\<lambda>k. Key (Child fldPath ''allOf'' []) k) (\<lambda>k. simpleLocation) @
     (case AdditionalItems s of
        None \<Rightarrow> []
      | Some ai \<Rightarrow> ptr_edge (bool_Schema ai) (Child fldPath ''additionalItems'' [''schema'']) simpleLocation) @
     map_edges (Definitions s) (\<lambda>k. Child fldPath ''definitions'' []) (\<lambda>k. simpleLocation) @
     concat (map (\<lambda>(k, d). ptr_edge (deps_Schema d)
         (Child (Key (Child fldPath ''dependencies'' []) k) ''schema'' []) simpleLocation) (Dependencies s))"

text \<open>Which values the edges of each kind of field lead to.\<close>

lemma set_ptr_edge [simp]: "set (ptr_edge s fld loc) = (\<lambda>c. (c, fld, loc)) ` set_option s"
  by (cases s) (auto simp: ptr_edge_def)

lemma set_map_edges [simp]: "set (map_edges m fld loc) = (\<lambda>(k, c). (c, fld k, loc k)) ` set m"
  by (simp add: map_edges_def)

lemma set_slice_edges [simp]:
  "set (slice_edges ss fld loc) = (\<lambda>i. (ss ! i, fld i, loc i)) ` {..<length ss}"
  by (force simp: slice_edges_def in_set_enumerate_eq image_iff)

text \<open>The direct subschemas of a node: every child is one, so the recursion is well-founded.\<close>

definition array_subschemas :: "JSONSchemaProps PropsOrArray \<Rightarrow> JSONSchemaProps set" where
  "array_subschemas items = set_option (items_Schema items) \<union> set (JSONSchemas items)"

definition subschemas :: "JSONSchemaProps \<Rightarrow> JSONSchemaProps set" where
  "subschemas s =
     (\<Union>items\<in>set_option (Items s). array_subschemas items) \<union>
     set (AllOf s) \<union> set (AnyOf s) \<union> set (OneOf s) \<union> set_option (Not s) \<union>
     snd ` set (Properties s) \<union>
     (\<Union>ap\<in>set_option (AdditionalProperties s). set_option (bool_Schema ap)) \<union>
     snd ` set (PatternProperties s) \<union>
     (\<Union>ai\<in>set_option (AdditionalItems s). set_option (bool_Schema ai)) \<union>
     snd ` set (Definitions s) \<union>
     (\<Union>d\<in>snd ` set (Dependencies s). set_option (deps_Schema d))"

lemma schema_children_subschemas:
  "fst ` set (schema_children s fld loc) = subschemas s"
proof -
  have slice: "(\<lambda>i. ss ! i) ` {..<length ss} = set ss" for ss :: "JSONSchemaProps list"
    by (auto simp: in_set_conv_nth)
  show ?thesis
    by (cases "Items s"; cases "AdditionalProperties s"; cases "AdditionalItems s")
      (simp_all add: schema_children_def subschemas_def array_subschemas_def image_Un image_image image_UN slice
        case_prod_unfold Un_assoc)
qed

lemma size_in_list: "x \<in> set xs \<Longrightarrow> f x < Suc (size_list f xs)"
  by (induction xs) auto

lemma size_in_map: "p \<in> set m \<Longrightarrow> f (snd p) < Suc (size_list (size_prod g f) m)"
  by (induction m) auto

lemma size_in_wrappers:
  "c \<in> array_subschemas x \<Longrightarrow> size c < size_PropsOrArray size x"
  "bool_Schema y = Some c \<Longrightarrow> size c < size_PropsOrBool size y"
  "deps_Schema z = Some c \<Longrightarrow> size c < size_PropsOrStringArray size z"
proof -
  show "c \<in> array_subschemas x \<Longrightarrow> size c < size_PropsOrArray size x"
    by (cases x) (auto simp: array_subschemas_def dest: size_in_list [where f = size])
  show "bool_Schema y = Some c \<Longrightarrow> size c < size_PropsOrBool size y"
    by (cases y) auto
  show "deps_Schema z = Some c \<Longrightarrow> size c < size_PropsOrStringArray size z"
    by (cases z) auto
qed

lemma subschemas_size:
  assumes "c \<in> subschemas s"
  shows "size c < size s"
  using assms
  by (cases s)
    (auto simp: subschemas_def
       dest!: size_in_wrappers size_in_list [where f = size]
         size_in_map [where f = size and g = "\<lambda>_. 0"]
         size_in_map [where f = "size_PropsOrStringArray size" and g = "\<lambda>_. 0"])

lemma schema_children_size:
  "(c, f, l) \<in> set (schema_children s fld loc) \<Longrightarrow> size c < size s"
  using schema_children_subschemas [of s fld loc] by (force intro: subschemas_size)

text \<open>
  \<open>SchemaWalkerFunc\<close>: the node, its two paths, its ancestors from the root to the parent, and
  the captured variables; the result says whether the walk stops.
\<close>

type_synonym 'st walker =
  "JSONSchemaProps \<Rightarrow> Path \<Rightarrow> Path \<Rightarrow> JSONSchemaProps list \<Rightarrow> 'st \<Rightarrow> (bool \<times> 'st) go"

function SchemaHas ::
  "'st walker \<Rightarrow> JSONSchemaProps option \<Rightarrow> Path \<Rightarrow> Path \<Rightarrow> JSONSchemaProps list \<Rightarrow> 'st \<Rightarrow> (bool \<times> 'st) go" where
  "SchemaHas pred None fldPath simpleLocation ancestry st = Some (False, st)"
| "SchemaHas pred (Some s) fldPath simpleLocation ancestry st =
     (case pred s fldPath simpleLocation ancestry st of
        None \<Rightarrow> None
      | Some (stop, st') \<Rightarrow>
          if stop then Some (True, st')
          else range_until
                 (\<lambda>(c, f, l) st. SchemaHas pred (Some c) f l (ancestry @ [s]) st)
                 (schema_children s fldPath simpleLocation) st')"
  by pat_completeness auto
termination
  by (relation "measure (\<lambda>(pred, s, fld, loc, anc, st). size_option size s)")
    (auto dest: schema_children_size)

section \<open>The nodes a walk visits\<close>

record visit =
  visit_schema :: JSONSchemaProps
  visit_fld :: Path
  visit_loc :: Path
  visit_anc :: "JSONSchemaProps list"

function schema_visits :: "JSONSchemaProps \<Rightarrow> Path \<Rightarrow> Path \<Rightarrow> JSONSchemaProps list \<Rightarrow> visit list" where
  "schema_visits s fldPath simpleLocation ancestry =
     \<lparr> visit_schema = s, visit_fld = fldPath, visit_loc = simpleLocation, visit_anc = ancestry \<rparr> #
     concat (map (\<lambda>(c, f, l). schema_visits c f l (ancestry @ [s]))
       (schema_children s fldPath simpleLocation))"
  by pat_completeness auto
termination
  by (relation "measure (\<lambda>(s, fld, loc, anc). size s)") (auto dest: schema_children_size)

declare SchemaHas.simps(2) [simp del] schema_visits.simps [simp del]

text \<open>The same equations over the edges one by one, which evaluate on a concrete schema.\<close>

definition edge_visits :: "edge list \<Rightarrow> JSONSchemaProps list \<Rightarrow> visit list" where
  "edge_visits es ancestry = concat (map (\<lambda>(c, f, l). schema_visits c f l ancestry) es)"

lemma edge_visits_simps [simp, code]:
  "edge_visits [] ancestry = []"
  "edge_visits ((c, f, l) # es) ancestry = schema_visits c f l ancestry @ edge_visits es ancestry"
  by (simp_all add: edge_visits_def)

lemma schema_visits_eval [code]:
  "schema_visits s fldPath simpleLocation ancestry =
     \<lparr> visit_schema = s, visit_fld = fldPath, visit_loc = simpleLocation, visit_anc = ancestry \<rparr> #
     edge_visits (schema_children s fldPath simpleLocation) (ancestry @ [s])"
  by (subst schema_visits.simps) (simp add: edge_visits_def)

lemmas visit_evals = schema_visits_eval schema_children_def ptr_edge_def slice_edges_def map_edges_def

definition visit_run :: "'st walker \<Rightarrow> visit \<Rightarrow> 'st \<Rightarrow> (bool \<times> 'st) go" where
  "visit_run pred v st = pred (visit_schema v) (visit_fld v) (visit_loc v) (visit_anc v) st"

lemma visit_run_visit [simp]:
  "visit_run pred \<lparr> visit_schema = s, visit_fld = f, visit_loc = l, visit_anc = a \<rparr> st = pred s f l a st"
  by (simp add: visit_run_def)

text \<open>The walk is the loop over its visits.\<close>

lemma SchemaHas_visits:
  "SchemaHas pred (Some s) fldPath simpleLocation ancestry st =
   range_until (visit_run pred) (schema_visits s fldPath simpleLocation ancestry) st"
proof (induction s fldPath simpleLocation ancestry arbitrary: st rule: schema_visits.induct)
  case (1 s fldPath simpleLocation ancestry)
  let ?children = "schema_children s fldPath simpleLocation"
  have "range_until (\<lambda>(c, f, l) st. SchemaHas pred (Some c) f l (ancestry @ [s]) st) ?children t =
        range_until (\<lambda>(c, f, l) st. range_until (visit_run pred) (schema_visits c f l (ancestry @ [s])) st)
          ?children t" for t
    by (rule range_until_cong [OF refl refl]) (auto intro!: "1.IH")
  then have "range_until (\<lambda>(c, f, l) st. SchemaHas pred (Some c) f l (ancestry @ [s]) st) ?children t =
      range_until (visit_run pred)
        (concat (map (\<lambda>(c, f, l). schema_visits c f l (ancestry @ [s])) ?children)) t" for t
    by (simp add: range_until_concat range_until_map case_prod_unfold)
  then show ?case
    by (subst SchemaHas.simps(2), subst schema_visits.simps) (auto split: option.split)
qed

definition node_list :: "JSONSchemaProps option \<Rightarrow> visit list" where
  "node_list s = (case s of None \<Rightarrow> [] | Some c \<Rightarrow> schema_visits c (NewPath ''^'' []) (NewPath ''^'' []) [])"

text \<open>The call every comparator makes: both paths start at \<open>^\<close> and there is no ancestor.\<close>

definition walk_schema :: "'st walker \<Rightarrow> JSONSchemaProps option \<Rightarrow> 'st \<Rightarrow> (bool \<times> 'st) go" where
  "walk_schema pred s st = SchemaHas pred s (NewPath ''^'' []) (NewPath ''^'' []) [] st"

lemma walk_schema_visits [walk]: "walk_schema pred s st = range_until (visit_run pred) (node_list s) st"
  by (cases s) (simp_all add: walk_schema_def node_list_def SchemaHas_visits)

section \<open>Predicates that never stop the walk\<close>

text \<open>
  The contract of a predicate that returns false at every node and only adds what it observes
  there to a captured slice. The walk then returns the observations in visiting order.
\<close>

locale folding_walker =
  fixes pred :: "'st walker" and step :: "visit \<Rightarrow> 'st \<Rightarrow> 'st"
  assumes never_stops: "visit_run pred v st = Some (False, step v st)"
begin

lemma walk_folds: "walk_schema pred s st = Some (False, fold step (node_list s) st)"
  by (simp add: walk_schema_visits range_until_fold never_stops)

lemma walk_returns: "\<exists>st'. walk_schema pred s st = Some (False, st')"
  by (simp add: walk_folds)

end

locale collecting_walker =
  fixes pred :: "'a list walker" and observe :: "visit \<Rightarrow> 'a list"
  assumes collects: "visit_run pred v acc = Some (False, acc @ observe v)"
begin

sublocale folding_walker pred "\<lambda>v acc. acc @ observe v"
  by unfold_locales (rule collects)

lemma walk_collects:
  "walk_schema pred s acc = Some (False, acc @ concat (map observe (node_list s)))"
  by (simp add: walk_folds fold_append_concat)

end

text \<open>The opposite contract: a pure test, which stops at the first node that passes.\<close>

locale testing_walker =
  fixes pred :: "'st walker" and test :: "visit \<Rightarrow> bool" and mark :: "'st \<Rightarrow> 'st"
  assumes tests: "visit_run pred v st = Some (test v, if test v then mark st else st)"
begin

lemma run_tests:
  "range_until (visit_run pred) vs st =
   Some (\<exists>v\<in>set vs. test v, if \<exists>v\<in>set vs. test v then mark st else st)"
  by (induction vs) (auto simp: tests)

lemma walk_tests:
  "walk_schema pred s st =
   Some (\<exists>v\<in>set (node_list s). test v, if \<exists>v\<in>set (node_list s). test v then mark st else st)"
  by (simp add: walk_schema_visits run_tests)

end

section \<open>The shape of the visits\<close>

lemma set_schema_visits:
  "set (schema_visits s f l a) =
     insert \<lparr> visit_schema = s, visit_fld = f, visit_loc = l, visit_anc = a \<rparr>
       (\<Union>(c, f', l')\<in>set (schema_children s f l). set (schema_visits c f' l' (a @ [s])))"
  by (subst schema_visits.simps) (simp add: case_prod_unfold)

lemma schema_visits_root:
  "\<lparr> visit_schema = s, visit_fld = f, visit_loc = l, visit_anc = a \<rparr> \<in> set (schema_visits s f l a)"
  by (subst set_schema_visits) simp

lemma schema_visits_below:
  "(c, f', l') \<in> set (schema_children s f l) \<Longrightarrow>
   set (schema_visits c f' l' (a @ [s])) \<subseteq> set (schema_visits s f l a)"
  by (subst (2) set_schema_visits) auto

text \<open>A visited node is the starting node or a node visited below one of its children.\<close>

lemma schema_visits_cases:
  assumes "v \<in> set (schema_visits s f l a)"
  obtains (root) "v = \<lparr> visit_schema = s, visit_fld = f, visit_loc = l, visit_anc = a \<rparr>"
  | (below) c f' l' where "(c, f', l') \<in> set (schema_children s f l)"
      and "v \<in> set (schema_visits c f' l' (a @ [s]))"
  using assms by (subst (asm) set_schema_visits) auto

text \<open>The walk reaches the children of every node it reaches, with that node as the last ancestor.\<close>

definition child_visit :: "visit \<Rightarrow> edge \<Rightarrow> visit" where
  "child_visit v e = (case e of (c, f, l) \<Rightarrow>
     \<lparr> visit_schema = c, visit_fld = f, visit_loc = l, visit_anc = visit_anc v @ [visit_schema v] \<rparr>)"

definition visit_edges :: "visit \<Rightarrow> edge list" where
  "visit_edges v = schema_children (visit_schema v) (visit_fld v) (visit_loc v)"

lemma schema_visits_child:
  assumes "v \<in> set (schema_visits s f l a)" and "e \<in> set (visit_edges v)"
  shows "child_visit v e \<in> set (schema_visits s f l a)"
  using assms
proof (induction s f l a rule: schema_visits.induct)
  case (1 s f l a)
  from "1.prems"(1) show ?case
  proof (cases rule: schema_visits_cases)
    case root
    obtain c f' l' where e: "e = (c, f', l')" by (cases e)
    with root "1.prems"(2) have "(c, f', l') \<in> set (schema_children s f l)"
      by (simp add: visit_edges_def)
    then show ?thesis
      using schema_visits_root [of c f' l' "a @ [s]"] schema_visits_below [of c f' l' s f l a] root e
      by (auto simp: child_visit_def)
  next
    case (below c f' l')
    from "1.IH" [OF below(1) refl refl below(2) "1.prems"(2)] schema_visits_below [OF below(1)]
    show ?thesis by blast
  qed
qed

text \<open>
  Reachability, one edge at a time: the nodes a walk can get to from a start.
\<close>

inductive walk_reaches :: "visit \<Rightarrow> visit \<Rightarrow> bool" for start :: visit where
  walk_start: "walk_reaches start start"
| walk_child: "walk_reaches start v \<Longrightarrow> e \<in> set (visit_edges v) \<Longrightarrow> walk_reaches start (child_visit v e)"

lemma walk_reaches_below:
  "walk_reaches (child_visit u e) v \<Longrightarrow> e \<in> set (visit_edges u) \<Longrightarrow> walk_reaches u v"
  by (induction rule: walk_reaches.induct) (auto intro: walk_reaches.intros)

lemma schema_visits_reached:
  "v \<in> set (schema_visits s f l a) \<Longrightarrow>
   walk_reaches \<lparr> visit_schema = s, visit_fld = f, visit_loc = l, visit_anc = a \<rparr> v"
proof (induction s f l a rule: schema_visits.induct)
  case (1 s f l a)
  let ?r = "\<lparr> visit_schema = s, visit_fld = f, visit_loc = l, visit_anc = a \<rparr>"
  from "1.prems" show ?case
  proof (cases rule: schema_visits_cases)
    case root
    then show ?thesis by (simp add: walk_start)
  next
    case (below c f' l')
    have "(c, f', l') \<in> set (visit_edges ?r)" using below(1) by (simp add: visit_edges_def)
    moreover have "walk_reaches (child_visit ?r (c, f', l')) v"
      using "1.IH" [OF below(1) refl refl below(2)] by (simp add: child_visit_def)
    ultimately show ?thesis using walk_reaches_below by blast
  qed
qed

text \<open>Going down a path costs at least its length, which bounds the depth of the recursion.\<close>

lemma walk_reaches_size:
  "walk_reaches start v \<Longrightarrow>
   size (visit_schema v) + length (visit_anc v) \<le> size (visit_schema start) + length (visit_anc start)"
  by (induction rule: walk_reaches.induct)
    (auto simp: child_visit_def visit_edges_def split: prod.split dest: schema_children_size)

lemma length_visit_anc:
  assumes "v \<in> set (schema_visits s f l a)"
  shows "length (visit_anc v) < length a + size s"
proof -
  have "0 < size (visit_schema v)" by (cases "visit_schema v") simp
  with walk_reaches_size [OF schema_visits_reached [OF assms]] show ?thesis by simp
qed

text \<open>
  What lies below a schema, from its fields alone: the schema itself, and with a node its direct
  subschemas; the path is the list of the nodes passed on the way.
\<close>

inductive descends :: "JSONSchemaProps \<Rightarrow> JSONSchemaProps list \<Rightarrow> JSONSchemaProps \<Rightarrow> bool" for s :: JSONSchemaProps where
  descends_self: "descends s [] s"
| descends_sub: "descends s path t \<Longrightarrow> u \<in> subschemas t \<Longrightarrow> descends s (path @ [t]) u"

lemma visited_descends:
  assumes "v \<in> set (schema_visits s f l a)"
  shows "\<exists>path. visit_anc v = a @ path \<and> descends s path (visit_schema v)"
  using schema_visits_reached [OF assms]
proof induction
  case walk_start
  show ?case by (simp add: descends_self)
next
  case (walk_child v e)
  then have "fst e \<in> subschemas (visit_schema v)"
    unfolding visit_edges_def schema_children_subschemas [of "visit_schema v" "visit_fld v" "visit_loc v", symmetric]
    by (rule_tac imageI)
  with walk_child.IH show ?case
    by (auto simp: child_visit_def split: prod.split dest: descends_sub)
qed

lemma descends_visited:
  "descends s path t \<Longrightarrow> \<exists>v\<in>set (schema_visits s f l a). visit_anc v = a @ path \<and> visit_schema v = t"
proof (induction rule: descends.induct)
  case descends_self
  show ?case using schema_visits_root by force
next
  case (descends_sub path t u)
  then obtain v where v: "v \<in> set (schema_visits s f l a)" "visit_anc v = a @ path" "visit_schema v = t" by blast
  from descends_sub(2) v(3) have "u \<in> fst ` set (visit_edges v)"
    by (simp add: visit_edges_def schema_children_subschemas)
  then obtain e where e: "e \<in> set (visit_edges v)" "fst e = u" by blast
  from schema_visits_child [OF v(1) e(1)] show ?case
    by (rule_tac bexI) (use v e in \<open>auto simp: child_visit_def split: prod.splits\<close>)
qed

section \<open>The number of calls\<close>

text \<open>
  A node is one constructor, so the subschemas at the edges of a node are together smaller
  than the node, and a schema has no more nodes than constructors.
\<close>

lemma sum_children_ptr: "(\<Sum>(c, e)\<leftarrow>ptr_edge s fld loc. size c) = (case s of None \<Rightarrow> 0 | Some c \<Rightarrow> size c)"
  by (cases s) (simp_all add: ptr_edge_def)

lemma sum_children_slice: "(\<Sum>(c, e)\<leftarrow>slice_edges ss fld loc. size c) \<le> size_list size ss"
proof -
  have "(\<Sum>(c, e)\<leftarrow>map (\<lambda>(i, c). (c, fld i, loc i)) (enumerate n ss). size c) \<le> size_list size ss" for n
    by (induction ss arbitrary: n) (auto intro: le_SucI)
  then show ?thesis by (simp add: slice_edges_def)
qed

lemma sum_children_map: "(\<Sum>(c, e)\<leftarrow>map_edges m fld loc. size c) \<le> size_list (size_prod g size) m"
  by (induction m) (auto simp: map_edges_def)

lemma sum_children_deps:
  "(\<Sum>(c, e)\<leftarrow>concat (map (\<lambda>(k, d). ptr_edge (deps_Schema d) (fld k) loc) m). size c)
   \<le> size_list (size_prod g (size_PropsOrStringArray size)) m"
proof (induction m)
  case (Cons p m)
  obtain k d where p: "p = (k, d)" by (cases p)
  have "(\<Sum>(c, e)\<leftarrow>ptr_edge (deps_Schema d) (fld k) loc. size c) \<le> size_PropsOrStringArray size d"
    by (cases d) (simp add: sum_children_ptr split: option.split)
  with Cons p show ?case by simp
qed simp


lemma sum_children_items:
  "(\<Sum>(c, e)\<leftarrow>ptr_edge (items_Schema x) f1 l1 @ slice_edges (JSONSchemas x) f2 l2. size c)
   \<le> size_PropsOrArray size x"
  by (cases x) (use sum_children_slice [of "JSONSchemas x" f2 l2] in \<open>auto simp: sum_children_ptr split: option.split\<close>)

lemma sum_children_bool: "(\<Sum>(c, e)\<leftarrow>ptr_edge (bool_Schema x) fld loc. size c) \<le> size_PropsOrBool size x"
  by (cases x) (auto simp: sum_children_ptr split: option.split)



lemma sum_children_option:
  assumes "\<And>x. (\<Sum>(c, e)\<leftarrow>g x. size c) \<le> h x"
  shows "(\<Sum>(c, e)\<leftarrow>(case xo of None \<Rightarrow> [] | Some x \<Rightarrow> g x). size c) \<le> size_option h xo"
  using assms by (cases xo) (auto intro: le_SucI)

lemma schema_children_sizes: "(\<Sum>(c, e)\<leftarrow>schema_children s f l. size c) < size s"
proof (cases s)
  case (JSONSchemaProps x1 items allOf oneOf anyOf nt props ap pp deps ai defs)
  have not: "(\<Sum>(c, e)\<leftarrow>ptr_edge nt fld loc. size c) \<le> size_option size nt" for fld loc
    by (cases nt) (simp_all add: ptr_edge_def)
  have "(\<Sum>(c, e)\<leftarrow>schema_children s f l. size c) \<le>
      size_option (size_PropsOrArray size) items + (size_list size allOf + (size_list size anyOf + (size_list size oneOf +
      (size_option size nt + (size_list (size_prod (\<lambda>_. 0) size) props + (size_option (size_PropsOrBool size) ap +
      (size_list (size_prod (\<lambda>_. 0) size) pp + (size_option (size_PropsOrBool size) ai +
      (size_list (size_prod (\<lambda>_. 0) size) defs + size_list (size_prod (\<lambda>_. 0) (size_PropsOrStringArray size)) deps)))))))))"
    unfolding schema_children_def JSONSchemaProps map_append sum_list_append JSONSchemaProps.sel
    by (intro add_mono not sum_children_slice sum_children_map sum_children_deps
        sum_children_option sum_children_items sum_children_bool)
  then show ?thesis by (simp add: JSONSchemaProps)
qed

lemma length_schema_visits: "length (schema_visits s f l a) \<le> size s"
proof (induction s f l a rule: schema_visits.induct)
  case (1 s f l a)
  have "length (schema_visits s f l a) =
      Suc (\<Sum>(c, f', l')\<leftarrow>schema_children s f l. length (schema_visits c f' l' (a @ [s])))"
    by (subst schema_visits.simps) (simp add: length_concat comp_def case_prod_unfold)
  also have "\<dots> \<le> Suc (\<Sum>(c, e)\<leftarrow>schema_children s f l. size c)"
    by (auto intro!: sum_list_mono "1.IH")
  also have "\<dots> \<le> size s" using schema_children_sizes [of s f l] by simp
  finally show ?case .
qed

text \<open>A predicate with a counter of its calls.\<close>

definition counted :: "'st walker \<Rightarrow> (nat \<times> 'st) walker" where
  "counted pred s f l a = (\<lambda>(n, st). map_option (\<lambda>(stop, st'). (stop, Suc n, st')) (pred s f l a st))"

lemma counted_run:
  assumes "\<And>v st. v \<in> set vs \<Longrightarrow> visit_run pred v st \<noteq> None"
  shows "\<exists>stop k st'. range_until (visit_run pred) vs st = Some (stop, st') \<and>
    range_until (visit_run (counted pred)) vs (n, st) = Some (stop, n + k, st') \<and>
    k \<le> length vs \<and> (\<not> stop \<longrightarrow> k = length vs)"
  using assms
proof (induction vs arbitrary: n st)
  case (Cons v vs)
  obtain stop st' where run: "visit_run pred v st = Some (stop, st')"
    using Cons.prems [of v st] by auto
  then have counted: "visit_run (counted pred) v (n, st) = Some (stop, Suc n, st')"
    by (simp add: visit_run_def counted_def)
  show ?case
  proof (cases stop)
    case True
    with run counted show ?thesis by (auto intro!: exI [of _ "Suc 0"])
  next
    case False
    from Cons.IH [where n = "Suc n" and st = st'] Cons.prems obtain b k t where
      "range_until (visit_run pred) vs st' = Some (b, t)"
      "range_until (visit_run (counted pred)) vs (Suc n, st') = Some (b, Suc n + k, t)"
      "k \<le> length vs" "\<not> b \<longrightarrow> k = length vs"
      by auto
    with False run counted show ?thesis by (auto intro!: exI [of _ "Suc k"])
  qed
qed (auto intro: exI [of _ False])

section \<open>Properties\<close>

text \<open>
  C10. The recursive traversal is the loop of the predicate over the list of visited nodes: it
  panics where the predicate panics, stops where the predicate stops, and threads the captured
  variables through the visits in that order.
\<close>

theorem SchemaHas_is_visit_loop:
  "SchemaHas pred (Some s) fldPath simpleLocation ancestry st =
   range_until (visit_run pred) (schema_visits s fldPath simpleLocation ancestry) st"
  by (rule SchemaHas_visits)

text \<open>
  C33. The walk visits exactly the nodes below its start. A predicate that records its calls sees the
  start, and with a node every subschema in one of its fields (items, property, additional property,
  pattern property, combinator, negation, additional item, definition or dependency), each with
  the nodes on the way to it as its ancestors, and it sees nothing else.
\<close>

theorem visits_are_reachable_nodes:
  "\<exists>seen. SchemaHas (\<lambda>t f l ancestors seen. Some (False, seen @ [(ancestors, t)])) (Some s) fldPath simpleLocation ancestry [] =
       Some (False, seen) \<and>
     set seen = {(ancestry @ path, t) | path t. descends s path t}"
proof -
  let ?seen = "map (\<lambda>v. (visit_anc v, visit_schema v)) (schema_visits s fldPath simpleLocation ancestry)"
  have "range_until (visit_run (\<lambda>t f l ancestors seen. Some (False, seen @ [(ancestors, t)]))) vs acc =
      Some (False, acc @ map (\<lambda>v. (visit_anc v, visit_schema v)) vs)" for vs acc
    by (induction vs arbitrary: acc) (simp_all add: visit_run_def)
  then have "SchemaHas (\<lambda>t f l ancestors seen. Some (False, seen @ [(ancestors, t)])) (Some s) fldPath simpleLocation ancestry [] =
      Some (False, ?seen)"
    by (simp add: SchemaHas_visits)
  moreover have "set ?seen = {(ancestry @ path, t) | path t. descends s path t}"
  proof (intro set_eqI iffI)
    fix x
    assume "x \<in> set ?seen"
    then obtain v where v: "v \<in> set (schema_visits s fldPath simpleLocation ancestry)"
      and x: "x = (visit_anc v, visit_schema v)" by auto
    from visited_descends [OF v] x show "x \<in> {(ancestry @ path, t) | path t. descends s path t}" by auto
  next
    fix x
    assume "x \<in> {(ancestry @ path, t) | path t. descends s path t}"
    then obtain path t where x: "x = (ancestry @ path, t)" and below: "descends s path t" by auto
    from descends_visited [OF below, of fldPath simpleLocation ancestry] x show "x \<in> set ?seen" by force
  qed
  ultimately show ?thesis by blast
qed

text \<open>
  C11. The traversal ends: when the predicate returns at every node, so does the walk, after at most
  as many calls of the predicate as the schema has constructors, and after one call for each
  visited node unless it is stopped. The recursion is no deeper than that either.
\<close>

theorem SchemaHas_terminates:
  assumes "\<And>v st. v \<in> set (schema_visits s f l a) \<Longrightarrow> visit_run pred v st \<noteq> None"
  shows "\<exists>stop n st'. SchemaHas pred (Some s) f l a st = Some (stop, st') \<and>
    SchemaHas (counted pred) (Some s) f l a (0, st) = Some (stop, n, st') \<and>
    n \<le> size s \<and> (\<not> stop \<longrightarrow> n = length (schema_visits s f l a)) \<and>
    (\<forall>v\<in>set (schema_visits s f l a). length (visit_anc v) < length a + size s)"
  using counted_run [OF assms, of "schema_visits s f l a" st 0] length_schema_visits [of s f l a]
    length_visit_anc [of _ s f l a]
  unfolding SchemaHas_visits by fastforce

theorem SchemaHas_terminates_witness:
  "\<exists>n. SchemaHas (counted (\<lambda>s f l a st. Some (False, st)))
     (Some (object_schema zero_attrs [(''a'', leaf_schema zero_attrs), (''b'', leaf_schema zero_attrs)]))
     (NewPath ''^'' []) (NewPath ''^'' []) [] (0, ()) = Some (False, n, ()) \<and> n = 3"
proof -
  let ?s = "object_schema zero_attrs [(''a'', leaf_schema zero_attrs), (''b'', leaf_schema zero_attrs)]"
  have "visit_run (\<lambda>s f l a st. Some (False, st)) v st \<noteq> None" for v and st :: unit
    by (simp add: visit_run_def)
  moreover have "length (schema_visits ?s (NewPath ''^'' []) (NewPath ''^'' []) []) = 3"
    by code_simp
  ultimately show ?thesis
    using SchemaHas_terminates [of ?s "NewPath ''^'' []" "NewPath ''^'' []" "[]" "\<lambda>s f l a st. Some (False, st)" "()"]
    by (auto simp: SchemaHas_visits range_until_fold visit_run_def)
qed

end
