(* ===== verification/Comparators.thy ===== *)
theory Comparators
  imports Schema_Walker
begin

text \<open>
  The interfaces of \<open>pkg/manifestcomparators/interfaces.go\<close> and the ratchet of
  \<open>racheting_validator.go\<close>, which turns a validator of one CRD into a comparator of two: only the
  messages that the existing CRD does not already get are reported. The two interfaces are
  locales. Every validator of the program interprets \<open>crd_validator\<close>, every comparator
  \<open>crd_comparator\<close>, and the ratchet carries the first contract to the second.
\<close>

section \<open>Results\<close>

record ComparisonResults =
  Name :: string
  WhyItMatters :: string
  Errors :: "string list"
  Warnings :: "string list"
  Infos :: "string list"

definition zero_results :: ComparisonResults where
  "zero_results = \<lparr> Name = [], WhyItMatters = [], Errors = [], Warnings = [], Infos = [] \<rparr>"

lemma zero_results_simps [simp]:
  "Name zero_results = []" "WhyItMatters zero_results = []"
  "Errors zero_results = []" "Warnings zero_results = []" "Infos zero_results = []"
  by (simp_all add: zero_results_def)

text \<open>The result of a comparator or validator: a panic, a Go error, or the results.\<close>

type_synonym outcome = "(gerror + ComparisonResults) go"
type_synonym validate_fun = "CRD \<Rightarrow> outcome"
type_synonym compare_fun = "CRD option \<Rightarrow> CRD \<Rightarrow> outcome"

text \<open>
  A value of the interface \<open>CRDComparator\<close>. The existing CRD is a pointer that may be nil; the new
  one is never nil at any call in the program.
\<close>

record CRDComparator =
  comparator_Name :: string
  comparator_Why :: string
  Compare :: compare_fun

definition no_messages :: "ComparisonResults \<Rightarrow> bool" where
  "no_messages r \<longleftrightarrow> Errors r = [] \<and> Warnings r = [] \<and> Infos r = []"

section \<open>The ratchet\<close>

fun stringListContains :: "string list \<Rightarrow> string \<Rightarrow> bool" where
  "stringListContains [] needle = False"
| "stringListContains (straw # haystack) needle = (if straw = needle then True else stringListContains haystack needle)"

fun stringDiff_loop :: "string list \<Rightarrow> string list \<Rightarrow> string list \<Rightarrow> string list" where
  "stringDiff_loop [] s2 ret = ret"
| "stringDiff_loop (cur # s1) s2 ret =
     (if stringListContains s2 cur then stringDiff_loop s1 s2 ret
      else stringDiff_loop s1 s2 (ret @ [cur]))"

definition stringDiff :: "string list \<Rightarrow> string list \<Rightarrow> string list" where
  "stringDiff s1 s2 = stringDiff_loop s1 s2 []"

definition RatchetCompare :: "validate_fun \<Rightarrow> CRD option \<Rightarrow> CRD \<Rightarrow> outcome" where
  "RatchetCompare validate existingCRD newCRD =
     (case (case existingCRD of None \<Rightarrow> Some (Inr zero_results) | Some c \<Rightarrow> validate c) of
        None \<Rightarrow> None
      | Some (Inl err) \<Rightarrow> Some (Inl err)
      | Some (Inr oldResults) \<Rightarrow>
          (case validate newCRD of
             None \<Rightarrow> None
           | Some (Inl err) \<Rightarrow> Some (Inl err)
           | Some (Inr newResults) \<Rightarrow>
               Some (Inr
                 \<lparr> Name = Name newResults,
                   WhyItMatters = WhyItMatters newResults,
                   Errors = stringDiff (Errors newResults) (Errors oldResults),
                   Warnings = stringDiff (Warnings newResults) (Warnings oldResults),
                   Infos = stringDiff (Infos newResults) (Infos oldResults) \<rparr>)))"

lemma stringListContains_iff [simp]: "stringListContains haystack needle \<longleftrightarrow> needle \<in> set haystack"
  by (induction haystack) auto

lemma stringDiff_loop_filter: "stringDiff_loop s1 s2 ret = ret @ filter (\<lambda>m. m \<notin> set s2) s1"
  by (induction s1 arbitrary: ret) auto

lemma stringDiff_filter: "stringDiff s1 s2 = filter (\<lambda>m. m \<notin> set s2) s1"
  by (simp add: stringDiff_def stringDiff_loop_filter)

lemma stringDiff_simps [simp]:
  "stringDiff s1 [] = s1"
  "stringDiff s s = []"
  "stringDiff [] s2 = []"
  by (simp_all add: stringDiff_filter)

section \<open>The contract of a comparator\<close>

text \<open>
  What the callers of \<open>Compare\<close> rely on. On CRDs that satisfy \<open>ok\<close> the comparator neither panics
  nor fails; it names itself in its results; a CRD compared with itself gets no error when it
  is \<open>stable\<close>; and an empty existing CRD counts as no existing CRD.
\<close>

locale crd_comparator =
  fixes compare_crds :: compare_fun
    and cname why :: string
    and ok stable :: "CRD \<Rightarrow> bool"
  assumes compare_returns: "pred_option ok existing \<Longrightarrow> ok new \<Longrightarrow> \<exists>r. compare_crds existing new = Some (Inr r)"
    and compare_named: "compare_crds existing new = Some (Inr r) \<Longrightarrow> Name r = cname \<and> WhyItMatters r = why"
    and compare_no_error: "compare_crds existing new \<noteq> Some (Inl err)"
    and compare_unchanged: "ok c \<Longrightarrow> stable c \<Longrightarrow> compare_crds (Some c) c = Some (Inr r) \<Longrightarrow> Errors r = []"
begin

lemma unchanged_result:
  assumes "ok c" and "stable c"
  shows "\<exists>r. compare_crds (Some c) c = Some (Inr r) \<and> Name r = cname \<and> Errors r = []"
proof -
  from assms(1) obtain r where "compare_crds (Some c) c = Some (Inr r)"
    using compare_returns [of "Some c" c] by auto
  with assms compare_named compare_unchanged show ?thesis by blast
qed

end

section \<open>The contract of a validator\<close>

locale crd_validator =
  fixes validate :: validate_fun
    and cname why :: string
    and ok :: "CRD \<Rightarrow> bool"
  assumes validate_returns: "ok c \<Longrightarrow> \<exists>r. validate c = Some (Inr r)"
    and validate_named: "validate c = Some (Inr r) \<Longrightarrow> Name r = cname \<and> WhyItMatters r = why"
    and validate_no_error: "validate c \<noteq> Some (Inl err)"
    and validate_empty: "\<exists>r. validate empty_crd = Some (Inr r) \<and> no_messages r"
begin

lemma ratchet_nil:
  "validate new = Some (Inr r) \<Longrightarrow> RatchetCompare validate None new = Some (Inr r)"
  by (simp add: RatchetCompare_def)

lemma ratchet_existing:
  assumes "validate existing = Some (Inr old_r)" and "validate new = Some (Inr new_r)"
  shows "RatchetCompare validate (Some existing) new =
    Some (Inr \<lparr> Name = Name new_r, WhyItMatters = WhyItMatters new_r,
      Errors = filter (\<lambda>m. m \<notin> set (Errors old_r)) (Errors new_r),
      Warnings = filter (\<lambda>m. m \<notin> set (Warnings old_r)) (Warnings new_r),
      Infos = filter (\<lambda>m. m \<notin> set (Infos old_r)) (Infos new_r) \<rparr>)"
  using assms by (simp add: RatchetCompare_def stringDiff_filter)

text \<open>A create request, which passes an empty existing CRD, is checked like a nil one.\<close>

lemma ratchet_created: "RatchetCompare validate (Some empty_crd) new = RatchetCompare validate None new"
proof -
  obtain r where "validate empty_crd = Some (Inr r)" and "no_messages r"
    using validate_empty by blast
  then show ?thesis
    by (simp add: RatchetCompare_def no_messages_def split: option.split sum.split)
qed

lemma ratchet_unchanged:
  assumes "validate c = Some (Inr r0)"
  shows "\<exists>r. RatchetCompare validate (Some c) c = Some (Inr r) \<and> no_messages r"
  using assms by (simp add: ratchet_existing no_messages_def)

lemma ratchet_panics_iff:
  "RatchetCompare validate existing new = None \<longleftrightarrow>
   (\<exists>c. existing = Some c \<and> validate c = None) \<or> validate new = None"
  using validate_no_error
  by (auto simp: RatchetCompare_def split: option.splits sum.splits)

lemma ratchet_no_error: "RatchetCompare validate existing new \<noteq> Some (Inl err)"
  using validate_no_error by (auto simp: RatchetCompare_def split: option.splits sum.splits)

lemma ratchet_returns:
  assumes "pred_option ok existing" and "ok new"
  shows "\<exists>r. RatchetCompare validate existing new = Some (Inr r)"
proof -
  have "RatchetCompare validate existing new \<noteq> None"
    using assms validate_returns [of new] validate_returns [of "the existing"]
    by (auto simp: ratchet_panics_iff)
  with ratchet_no_error show ?thesis
    by (metis not_None_eq sum.exhaust)
qed

lemma ratchet_named:
  "RatchetCompare validate existing new = Some (Inr r) \<Longrightarrow> Name r = cname \<and> WhyItMatters r = why"
  using validate_named by (auto simp: RatchetCompare_def split: option.splits sum.splits)

end

sublocale crd_validator \<subseteq> ratchet: crd_comparator "RatchetCompare validate" cname why ok "\<lambda>_. True"
proof unfold_locales
  show "\<exists>r. RatchetCompare validate existing new = Some (Inr r)"
    if "pred_option ok existing" "ok new" for existing new
    using that by (rule ratchet_returns)
  show "Name r = cname \<and> WhyItMatters r = why"
    if "RatchetCompare validate existing new = Some (Inr r)" for existing new r
    using that by (rule ratchet_named)
  show "RatchetCompare validate existing new \<noteq> Some (Inl err)" for existing new err
    by (rule ratchet_no_error)
  show "Errors r = []"
    if "ok c" "True" "RatchetCompare validate (Some c) c = Some (Inr r)" for c r
    using that validate_returns [of c] ratchet_unchanged [of c] by (auto simp: no_messages_def)
qed

section \<open>Validators that report fields\<close>

text \<open>The nodes a walk of one version visits; a version without a schema has none to visit.\<close>

definition version_nodes :: "CRDVersion \<Rightarrow> visit list" where
  "version_nodes v = (case Schema v of None \<Rightarrow> [] | Some val \<Rightarrow> node_list (OpenAPIV3Schema val))"

definition loc_string :: "visit \<Rightarrow> string" where
  "loc_string v = path_String (visit_loc v)"

definition fld_string :: "visit \<Rightarrow> string" where
  "fld_string v = path_String (visit_fld v)"

text \<open>
  The common loop of these validators: walk each version, collect strings, report each. It
  panics exactly when some version has no schema.
\<close>

lemma version_report_loop:
  assumes "collecting_walker pred observe"
  shows "range_do (\<lambda>v errs. do {
            schema \<leftarrow> version_schema v;
            (_, found) \<leftarrow> walk_schema pred schema [];
            Some (errs @ map (report v) found)
          }) vs errs =
    (if list_all has_schema vs
     then Some (errs @ concat (map (\<lambda>v. map (report v) (concat (map observe (version_nodes v)))) vs))
     else None)"
proof -
  note walk = collecting_walker.walk_collects [OF assms]
  show ?thesis
    by (induction vs arbitrary: errs)
      (auto simp: walk version_schema_def has_schema_def version_nodes_def split: option.splits)
qed

text \<open>
  The contract these validators share: the result lists one complaint for each offending node,
  version by version in visiting order, and nothing else.
\<close>

definition field_complaints ::
  "(visit \<Rightarrow> bool) \<Rightarrow> (string \<Rightarrow> string \<Rightarrow> string \<Rightarrow> string) \<Rightarrow> CRD \<Rightarrow> string list" where
  "field_complaints offends complaint c =
     concat (map (\<lambda>v. map (\<lambda>n. complaint (crd_Name c) (version_Name v) (loc_string n))
       (filter offends (version_nodes v))) (Versions c))"

locale field_validator =
  fixes validate :: validate_fun
    and cname why :: string
    and offends :: "visit \<Rightarrow> bool"
    and complaint :: "string \<Rightarrow> string \<Rightarrow> string \<Rightarrow> string"
  assumes validate_eq: "validate c =
    (if crd_ok c
     then Some (Inr \<lparr> Name = cname, WhyItMatters = why,
       Errors = field_complaints offends complaint c, Warnings = [], Infos = [] \<rparr>)
     else None)"

sublocale field_validator \<subseteq> crd_validator validate cname why crd_ok
  by unfold_locales (auto simp: validate_eq no_messages_def field_complaints_def split: if_splits)

context field_validator
begin

lemma complaint_iff:
  "m \<in> set (field_complaints offends complaint c) \<longleftrightarrow>
   (\<exists>v\<in>set (Versions c). \<exists>n\<in>set (version_nodes v). offends n \<and>
      m = complaint (crd_Name c) (version_Name v) (loc_string n))"
  by (auto simp: field_complaints_def)

text \<open>
  After the ratchet: an error is a complaint about a node of the new CRD for which no offending
  node of the existing CRD gives the same text.
\<close>

lemma compare_eq:
  "RatchetCompare validate existing new =
    (if pred_option crd_ok existing \<and> crd_ok new
     then Some (Inr \<lparr> Name = cname, WhyItMatters = why,
       Errors = filter (\<lambda>m. \<forall>e\<in>set_option existing. m \<notin> set (field_complaints offends complaint e))
         (field_complaints offends complaint new),
       Warnings = [], Infos = [] \<rparr>)
     else None)"
  by (cases existing) (simp_all add: RatchetCompare_def validate_eq stringDiff_filter)

lemma no_complaint_iff:
  "crd_ok c \<Longrightarrow> validate c = Some (Inr r) \<Longrightarrow>
   Errors r = [] \<longleftrightarrow> (\<forall>v\<in>set (Versions c). \<forall>n\<in>set (version_nodes v). \<not> offends n)"
  by (auto simp: validate_eq field_complaints_def filter_empty_conv)

end

text \<open>The text these validators share, up to what they demand of the field.\<close>

definition field_complaint :: "string \<Rightarrow> string \<Rightarrow> string \<Rightarrow> string \<Rightarrow> string" where
  "field_complaint demand crd version fld =
     ''crd/'' @ crd @ '' version/'' @ version @ '' field/'' @ fld @ demand"

definition keep_location :: "(visit \<Rightarrow> bool) \<Rightarrow> visit \<Rightarrow> string list" where
  "keep_location offends v = (if offends v then [loc_string v] else [])"

lemma concat_keep_location: "concat (map (keep_location offends) xs) = map loc_string (filter offends xs)"
  unfolding keep_location_def by (rule concat_map_filter)

text \<open>A predicate that keeps the location of the nodes it tests makes such a validator.\<close>

lemma field_validator_loop:
  assumes "collecting_walker pred (keep_location offends)"
  shows "range_do (\<lambda>v errs. do {
            schema \<leftarrow> version_schema v;
            (_, found) \<leftarrow> walk_schema pred schema [];
            Some (errs @ map (\<lambda>f. ''crd/'' @ crd_Name c @ '' version/'' @ version_Name v @ '' field/'' @ f @ demand) found)
          }) (Versions c) [] =
    (if crd_ok c then Some (field_complaints offends (field_complaint demand) c) else None)"
  by (subst version_report_loop [OF assms])
    (simp add: crd_ok_def field_complaints_def field_complaint_def concat_keep_location comp_def)

section \<open>Acceptance\<close>

text \<open>A result without messages, and what a comparator of single fields owes its caller.\<close>

definition accepts :: "outcome \<Rightarrow> bool" where
  "accepts result \<longleftrightarrow> (\<exists>r. result = Some (Inr r) \<and> no_messages r)"

definition complains :: "(visit \<Rightarrow> bool) \<Rightarrow> string \<Rightarrow> CRD \<Rightarrow> string \<Rightarrow> bool" where
  "complains offends demand c m \<longleftrightarrow>
     (\<exists>v\<in>set (Versions c). \<exists>n\<in>set (version_nodes v). offends n \<and>
        m = field_complaint demand (crd_Name c) (version_Name v) (loc_string n))"

definition reports_new :: "compare_fun \<Rightarrow> (visit \<Rightarrow> bool) \<Rightarrow> string \<Rightarrow> CRD option \<Rightarrow> CRD \<Rightarrow> bool" where
  "reports_new compare_crds offends demand existing new \<longleftrightarrow>
     (\<exists>r. compare_crds existing new = Some (Inr r) \<and> Warnings r = [] \<and> Infos r = [] \<and>
        (\<forall>m. m \<in> set (Errors r) \<longleftrightarrow>
           complains offends demand new m \<and> (\<forall>c\<in>set_option existing. \<not> complains offends demand c m)))"

lemma field_validator_accepts:
  assumes "field_validator validate cname why offends complaint"
  shows "accepts (validate c) \<longleftrightarrow>
    crd_ok c \<and> (\<forall>v\<in>set (Versions c). \<forall>n\<in>set (version_nodes v). \<not> offends n)"
  using field_validator.validate_eq [OF assms, of c]
  by (auto simp: accepts_def no_messages_def field_complaints_def filter_empty_conv)

lemma field_validator_reports_new:
  assumes "field_validator validate cname why offends (field_complaint demand)"
    and "pred_option crd_ok existing" and "crd_ok new"
  shows "reports_new (RatchetCompare validate) offends demand existing new"
  using assms(2,3)
  by (simp add: reports_new_def field_validator.compare_eq [OF assms(1)] complains_def
      field_validator.complaint_iff [OF assms(1)])

text \<open>Reading a report off a specification by membership.\<close>

lemma reported_iffD:
  assumes "\<exists>r. x = Some (Inr r) \<and> Warnings r = [] \<and> Infos r = [] \<and> (\<forall>m. m \<in> set (Errors r) \<longleftrightarrow> R m)"
    and "x = Some (Inr r0)" and "m \<in> set (Errors r0)"
  shows "R m"
  using assms by auto

end
