(* ===== verification/Registry.thy ===== *)
theory Registry
  imports Comparators
begin

text \<open>
  \<open>registry.go\<close>: the map from names to comparators behind the interface \<open>CRDComparatorRegistry\<close>,
  and \<open>Compare\<close>, which runs the named comparators, or all of them when no name is given. The
  interface is the locale \<open>comparator_registry\<close>; the map of the program interprets it.
\<close>

section \<open>The map of comparators\<close>

record crdComparatorRegistry =
  comparators :: "(string \<times> CRDComparator) list"

definition NewRegistry :: crdComparatorRegistry where
  "NewRegistry = \<lparr> comparators = [] \<rparr>"

definition AddComparator :: "crdComparatorRegistry \<Rightarrow> CRDComparator \<Rightarrow> gerror option \<times> crdComparatorRegistry" where
  "AddComparator r comparator =
     (if map_of (comparators r) (comparator_Name comparator) \<noteq> None
      then (Some (''comparator/'' @ comparator_Name comparator @ '' is already registered''), r)
      else (None, r\<lparr>comparators := AList.update (comparator_Name comparator) comparator (comparators r)\<rparr>))"

definition GetComparator :: "crdComparatorRegistry \<Rightarrow> string \<Rightarrow> gerror + CRDComparator" where
  "GetComparator r name =
     (case map_of (comparators r) name of
        None \<Rightarrow> Inl (''comparator/'' @ name @ '' is not registered'')
      | Some ret \<Rightarrow> Inr ret)"

definition KnownComparators :: "crdComparatorRegistry \<Rightarrow> string list" where
  "KnownComparators r = sets_List (sets_StringKeySet (comparators r))"

text \<open>Reading a missing key gives a nil interface, here \<open>None\<close>, and a call on it panics.\<close>

definition AllComparators :: "crdComparatorRegistry \<Rightarrow> CRDComparator option list" where
  "AllComparators r =
     fold (\<lambda>name ret. ret @ [map_of (comparators r) name]) (sets_List (sets_StringKeySet (comparators r))) []"

text \<open>The loop of \<open>Compare\<close> that collects the named comparators, or stops at an unknown name.\<close>

fun named_comparators ::
  "crdComparatorRegistry \<Rightarrow> string list \<Rightarrow> CRDComparator option list \<Rightarrow> gerror + CRDComparator option list" where
  "named_comparators r [] acc = Inr acc"
| "named_comparators r (name # names) acc =
     (case GetComparator r name of
        Inl err \<Rightarrow> Inl err
      | Inr comparator \<Rightarrow> named_comparators r names (acc @ [Some comparator]))"

type_synonym comparisons = "ComparisonResults list \<times> gerror list"

definition run_comparators ::
  "CRDComparator option list \<Rightarrow> CRD option \<Rightarrow> CRD \<Rightarrow> comparisons go" where
  "run_comparators cs existingCRD newCRD =
     range_do (\<lambda>comparator (ret, errs).
       case comparator of
         None \<Rightarrow> None
       | Some c \<Rightarrow>
           (case Compare c existingCRD newCRD of
              None \<Rightarrow> None
            | Some (Inl err) \<Rightarrow> Some (ret, errs @ [err])
            | Some (Inr currResults) \<Rightarrow> Some (ret @ [currResults], errs))) cs ([], [])"

definition Registry_Compare :: "crdComparatorRegistry \<Rightarrow> CRD option \<Rightarrow> CRD \<Rightarrow> string list \<Rightarrow> comparisons go" where
  "Registry_Compare r existingCRD newCRD names =
     (case (if length names = 0 then Inr (AllComparators r) else named_comparators r names []) of
        Inl err \<Rightarrow> Some ([], [err])
      | Inr cs \<Rightarrow> run_comparators cs existingCRD newCRD)"

section \<open>The interface\<close>

text \<open>
  What the users of a registry rely on: a lookup finds what was added under its name, a name is
  taken once, and the known names are the registered ones in order.
\<close>

locale comparator_registry =
  fixes new_registry :: 'r
    and add :: "'r \<Rightarrow> CRDComparator \<Rightarrow> gerror option \<times> 'r"
    and get :: "'r \<Rightarrow> string \<Rightarrow> gerror + CRDComparator"
    and known :: "'r \<Rightarrow> string list"
    and valid :: "'r \<Rightarrow> bool"
  assumes new_valid: "valid new_registry"
    and new_unknown: "known new_registry = []"
    and add_valid: "valid r \<Longrightarrow> valid (snd (add r c))"
    and add_fails_iff: "fst (add r c) \<noteq> None \<longleftrightarrow> comparator_Name c \<in> set (known r)"
    and add_failed: "fst (add r c) \<noteq> None \<Longrightarrow> snd (add r c) = r"
    and add_known: "set (known (snd (add r c))) = insert (comparator_Name c) (set (known r))"
    and get_added: "fst (add r c) = None \<Longrightarrow>
      get (snd (add r c)) name = (if name = comparator_Name c then Inr c else get r name)"
    and get_known: "(\<exists>c. get r name = Inr c) \<longleftrightarrow> name \<in> set (known r)"
    and get_named: "valid r \<Longrightarrow> get r name = Inr c \<Longrightarrow> comparator_Name c = name"
    and known_sorted: "sorted (known r) \<and> distinct (known r)"
begin

fun add_all :: "'r \<Rightarrow> CRDComparator list \<Rightarrow> 'r go" where
  "add_all r [] = Some r"
| "add_all r (c # cs) = (case add r c of (None, r') \<Rightarrow> add_all r' cs | (Some _, _) \<Rightarrow> None)"

text \<open>Adding comparators with different names succeeds, and makes exactly these known.\<close>

lemma add_all_distinct:
  assumes "valid r" and "distinct (map comparator_Name cs)"
    and "set (map comparator_Name cs) \<inter> set (known r) = {}"
  shows "\<exists>r'. add_all r cs = Some r' \<and> valid r' \<and>
    set (known r') = set (map comparator_Name cs) \<union> set (known r) \<and>
    (\<forall>c\<in>set cs. get r' (comparator_Name c) = Inr c) \<and>
    (\<forall>name. name \<notin> set (map comparator_Name cs) \<longrightarrow> get r' name = get r name)"
  using assms
proof (induction cs arbitrary: r)
  case Nil
  then show ?case by simp
next
  case (Cons c cs)
  let ?r = "snd (add r c)"
  from Cons.prems have added: "fst (add r c) = None"
    using add_fails_iff [of r c] by auto
  have "set (map comparator_Name cs) \<inter> set (known ?r) = {}"
    using Cons.prems by (auto simp: add_known)
  with Cons.IH [of ?r] Cons.prems add_valid [of r c] obtain r' where
    r': "add_all ?r cs = Some r'" "valid r'"
      "set (known r') = set (map comparator_Name cs) \<union> set (known ?r)"
      "\<forall>c\<in>set cs. get r' (comparator_Name c) = Inr c"
      "\<forall>name. name \<notin> set (map comparator_Name cs) \<longrightarrow> get r' name = get ?r name"
    by auto
  have "add_all r (c # cs) = Some r'"
    using added r'(1) by (simp add: case_prod_beta)
  with r' Cons.prems(2) show ?case
    by (auto simp: add_known get_added [OF added])
qed

lemma known_all:
  assumes "valid r" and "distinct (map comparator_Name cs)" and "known r = []" and "add_all r cs = Some r'"
  shows "known r' = sort (map comparator_Name cs)"
proof -
  have "set (known r') = set (sort (map comparator_Name cs))"
    using add_all_distinct [OF assms(1,2)] assms(3,4) by auto
  then show ?thesis
    using known_sorted [of r'] assms(2) by (intro sorted_distinct_set_unique) simp_all
qed

lemma add_duplicate: "comparator_Name c \<in> set (known r) \<Longrightarrow> add_all r (c # cs) = None"
  using add_fails_iff [of r c] by (auto simp: case_prod_beta split: option.split)

end

definition registry_ok :: "crdComparatorRegistry \<Rightarrow> bool" where
  "registry_ok r \<longleftrightarrow> distinct (map fst (comparators r)) \<and>
     (\<forall>(name, c)\<in>set (comparators r). comparator_Name c = name)"

lemma set_KnownComparators [simp]: "set (KnownComparators r) = fst ` set (comparators r)"
  by (simp add: KnownComparators_def sets_StringKeySet_def sets_List_def)

lemma update_new: "map_of m k = None \<Longrightarrow> AList.update k v m = m @ [(k, v)]"
  by (induction m) (auto split: if_splits)

lemma GetComparator_Inr_iff: "GetComparator r name = Inr c \<longleftrightarrow> map_of (comparators r) name = Some c"
  by (simp add: GetComparator_def split: option.split)

interpretation registry: comparator_registry NewRegistry AddComparator GetComparator KnownComparators registry_ok
proof unfold_locales
  show "registry_ok NewRegistry" by (simp add: registry_ok_def NewRegistry_def)
  show "KnownComparators NewRegistry = []"
    by (simp add: KnownComparators_def NewRegistry_def sets_StringKeySet_def)
  show "registry_ok (snd (AddComparator r c))" if "registry_ok r" for r c
    using that by (auto simp: registry_ok_def AddComparator_def update_new map_of_eq_None_iff)
  show "fst (AddComparator r c) \<noteq> None \<longleftrightarrow> comparator_Name c \<in> set (KnownComparators r)" for r c
    by (auto simp: AddComparator_def map_of_eq_None_iff)
  show "snd (AddComparator r c) = r" if "fst (AddComparator r c) \<noteq> None" for r c
    using that by (simp add: AddComparator_def split: if_splits)
  show "set (KnownComparators (snd (AddComparator r c))) = insert (comparator_Name c) (set (KnownComparators r))" for r c
    by (auto simp: AddComparator_def update_new map_of_eq_None_iff)
  show "GetComparator (snd (AddComparator r c)) name = (if name = comparator_Name c then Inr c else GetComparator r name)"
    if "fst (AddComparator r c) = None" for r c name
    using that by (auto simp: AddComparator_def GetComparator_def update_conv' split: if_splits)
  show "(\<exists>c. GetComparator r name = Inr c) \<longleftrightarrow> name \<in> set (KnownComparators r)" for r name
    using map_of_eq_None_iff [of "comparators r" name] by (auto simp: GetComparator_Inr_iff)
  show "comparator_Name c = name" if "registry_ok r" "GetComparator r name = Inr c" for r name c
    using that by (auto simp: registry_ok_def GetComparator_Inr_iff dest: map_of_SomeD)
  show "sorted (KnownComparators r) \<and> distinct (KnownComparators r)" for r
    by (simp add: KnownComparators_def)
qed

section \<open>What Compare returns\<close>

lemma AllComparators_eq: "AllComparators r = map (map_of (comparators r)) (KnownComparators r)"
  by (simp add: AllComparators_def KnownComparators_def fold_append_concat)

lemma named_comparators_eq:
  "named_comparators r names acc =
     (if set names \<subseteq> set (KnownComparators r) then Inr (acc @ map (map_of (comparators r)) names)
      else Inl (''comparator/'' @ the (find (\<lambda>n. n \<notin> set (KnownComparators r)) names) @ '' is not registered''))"
proof (induction names arbitrary: acc)
  case Nil
  then show ?case by simp
next
  case (Cons name names)
  then show ?case
    using map_of_eq_None_iff [of "comparators r" name]
    by (cases "map_of (comparators r) name") (auto simp: GetComparator_def)
qed

text \<open>
  The answers of the comparators that ran, in their order: those that failed give an error and
  no result.
\<close>

definition result_of :: "outcome \<Rightarrow> ComparisonResults list" where
  "result_of r = (case r of Some (Inr x) \<Rightarrow> [x] | _ \<Rightarrow> [])"

definition error_of :: "outcome \<Rightarrow> gerror list" where
  "error_of r = (case r of Some (Inl e) \<Rightarrow> [e] | _ \<Rightarrow> [])"

lemma run_comparators_eq:
  "run_comparators (map Some cs) existing new =
     (if \<exists>c\<in>set cs. Compare c existing new = None then None
      else Some (concat (map (\<lambda>c. result_of (Compare c existing new)) cs),
                 concat (map (\<lambda>c. error_of (Compare c existing new)) cs)))"
proof -
  have "range_do (\<lambda>comparator (ret, errs).
       case comparator of None \<Rightarrow> None
       | Some c \<Rightarrow> (case Compare c existing new of None \<Rightarrow> None
            | Some (Inl err) \<Rightarrow> Some (ret, errs @ [err])
            | Some (Inr currResults) \<Rightarrow> Some (ret @ [currResults], errs))) (map Some cs) (ret, errs) =
     (if \<exists>c\<in>set cs. Compare c existing new = None then None
      else Some (ret @ concat (map (\<lambda>c. result_of (Compare c existing new)) cs),
                 errs @ concat (map (\<lambda>c. error_of (Compare c existing new)) cs)))" for ret errs
    by (induction cs arbitrary: ret errs) (auto simp: result_of_def error_of_def split: option.splits sum.splits)
  then show ?thesis by (simp add: run_comparators_def)
qed

text \<open>The comparators that a list of names selects.\<close>

definition selected :: "crdComparatorRegistry \<Rightarrow> string list \<Rightarrow> CRDComparator list" where
  "selected r names =
     concat (map (\<lambda>n. case map_of (comparators r) n of None \<Rightarrow> [] | Some c \<Rightarrow> [c])
       (if names = [] then KnownComparators r else names))"

lemma map_of_selected:
  assumes "set names \<subseteq> set (KnownComparators r)"
  shows "map (map_of (comparators r)) names =
    map Some (concat (map (\<lambda>n. case map_of (comparators r) n of None \<Rightarrow> [] | Some c \<Rightarrow> [c]) names))"
  using assms
proof (induction names)
  case (Cons name names)
  then show ?case
    using map_of_eq_None_iff [of "comparators r" name] by (auto split: option.split)
qed simp

lemma Registry_Compare_eq:
  "Registry_Compare r existing new names =
     (if set names \<subseteq> set (KnownComparators r) then run_comparators (map Some (selected r names)) existing new
      else Some ([], [''comparator/'' @ the (find (\<lambda>n. n \<notin> set (KnownComparators r)) names) @ '' is not registered'']))"
  by (auto simp: Registry_Compare_def AllComparators_eq selected_def named_comparators_eq map_of_selected)

lemma selected_names:
  assumes "registry_ok r" and "set names \<subseteq> set (KnownComparators r)"
  shows "map comparator_Name (selected r names) = (if names = [] then KnownComparators r else names)"
proof -
  have "map comparator_Name (concat (map (\<lambda>n. case map_of (comparators r) n of None \<Rightarrow> [] | Some c \<Rightarrow> [c]) ns)) = ns"
    if "set ns \<subseteq> set (KnownComparators r)" for ns
    using that
  proof (induction ns)
    case (Cons n ns)
    then obtain c where "map_of (comparators r) n = Some c"
      using map_of_eq_None_iff [of "comparators r" n] by auto
    with Cons registry.get_named [OF assms(1), of n c] show ?case by (simp add: GetComparator_Inr_iff)
  qed simp
  with assms(2) show ?thesis by (simp add: selected_def)
qed

lemma selected_registered: "c \<in> set (selected r names) \<Longrightarrow> \<exists>n. map_of (comparators r) n = Some c"
  by (auto simp: selected_def split: option.splits)

text \<open>
  When every registered comparator keeps its contract on the two CRDs, \<open>Compare\<close> gives one result
  per selected comparator, under its name and in the order asked for, and no error.
\<close>

definition keeps_contract :: "CRD option \<Rightarrow> CRD \<Rightarrow> CRDComparator \<Rightarrow> bool" where
  "keeps_contract existing new c \<longleftrightarrow>
     (\<exists>r. Compare c existing new = Some (Inr r) \<and> Name r = comparator_Name c)"

lemma Registry_Compare_contract:
  assumes "registry_ok r" and "set names \<subseteq> set (KnownComparators r)"
    and "\<forall>(_, c)\<in>set (comparators r). keeps_contract existing new c"
  shows "\<exists>rs. Registry_Compare r existing new names = Some (rs, []) \<and>
    map Name rs = (if names = [] then KnownComparators r else names) \<and>
    list_all2 (\<lambda>c x. Compare c existing new = Some (Inr x)) (selected r names) rs"
proof -
  have run: "\<exists>rs. run_comparators (map Some cs) existing new = Some (rs, []) \<and>
      map Name rs = map comparator_Name cs \<and>
      list_all2 (\<lambda>c x. Compare c existing new = Some (Inr x)) cs rs"
    if "\<forall>c\<in>set cs. keeps_contract existing new c" for cs
    using that
  proof (induction cs)
    case (Cons c cs)
    then obtain r rs where "Compare c existing new = Some (Inr r)" "Name r = comparator_Name c"
      and rs: "run_comparators (map Some cs) existing new = Some (rs, [])"
        "map Name rs = map comparator_Name cs"
        "list_all2 (\<lambda>c x. Compare c existing new = Some (Inr x)) cs rs"
      by (auto simp: keeps_contract_def)
    then have "run_comparators (map Some (c # cs)) existing new = Some (r # rs, [])"
      using run_comparators_eq [of "c # cs" existing new] run_comparators_eq [of cs existing new]
      by (simp add: result_of_def [of "Some _"] error_of_def [of "Some _"] split: if_splits)
    with rs \<open>Compare c existing new = Some (Inr r)\<close> \<open>Name r = comparator_Name c\<close> show ?case by auto
  qed (simp add: run_comparators_def)
  have "\<forall>c\<in>set (selected r names). keeps_contract existing new c"
    using assms(3) selected_registered map_of_SomeD by fastforce
  from run [OF this] show ?thesis
    using assms(2) by (simp add: Registry_Compare_eq selected_names [OF assms(1,2)])
qed

section \<open>Properties\<close>

text \<open>
  C22. Adding a comparator succeeds exactly when its name is free. It then is what its name finds,
  every other lookup is as before, and the registry keeps its invariant: a name once, and each
  comparator under its own name. A failed addition changes nothing.
\<close>

theorem AddComparator_lookup:
  assumes "registry_ok r"
  shows "registry_ok (snd (AddComparator r c)) \<and>
    (fst (AddComparator r c) = None \<longleftrightarrow> comparator_Name c \<notin> set (KnownComparators r)) \<and>
    set (KnownComparators (snd (AddComparator r c))) = insert (comparator_Name c) (set (KnownComparators r)) \<and>
    GetComparator (snd (AddComparator r c)) name =
      (if fst (AddComparator r c) = None \<and> name = comparator_Name c then Inr c else GetComparator r name)"
  using registry.add_valid [OF assms, of c] registry.add_fails_iff [of r c] registry.add_known [of r c]
    registry.get_added [of r c name] registry.add_failed [of r c]
  by (cases "fst (AddComparator r c)") (simp_all del: set_KnownComparators)

definition silent_comparator :: "string \<Rightarrow> CRDComparator" where
  "silent_comparator name = \<lparr> comparator_Name = name, comparator_Why = [],
     Compare = (\<lambda>_ _. Some (Inr (zero_results\<lparr>Name := name\<rparr>))) \<rparr>"

text \<open>A comparator that gives the same results for all CRDs.\<close>

definition fixed_comparator :: "ComparisonResults \<Rightarrow> CRDComparator" where
  "fixed_comparator r = \<lparr> comparator_Name = Name r, comparator_Why = WhyItMatters r,
     Compare = (\<lambda>_ _. Some (Inr r)) \<rparr>"

theorem AddComparator_lookup_witness:
  "GetComparator (snd (AddComparator NewRegistry (silent_comparator ''NoBools''))) ''NoBools'' =
     Inr (silent_comparator ''NoBools'') \<and>
   registry_ok (snd (AddComparator NewRegistry (silent_comparator ''NoBools'')))"
proof -
  have "comparator_Name (silent_comparator ''NoBools'') = ''NoBools''" by (simp add: silent_comparator_def)
  with AddComparator_lookup [OF registry.new_valid, of "silent_comparator ''NoBools''" "''NoBools''"]
  show ?thesis by (simp add: registry.new_unknown del: set_KnownComparators)
qed

text \<open>
  A comparison that names an unknown comparator runs nothing: there is no result, and the one
  error is about the first unknown name, also when known names come before it.
\<close>

theorem unknown_comparator_runs_nothing:
  assumes "set known \<subseteq> set (KnownComparators r)" and "name \<notin> set (KnownComparators r)"
  shows "Registry_Compare r existing new (known @ name # names) =
    Some ([], [''comparator/'' @ name @ '' is not registered''])"
proof -
  have "find (\<lambda>n. n \<notin> set (KnownComparators r)) (known @ name # names) = Some name"
    using assms by (induction known) auto
  with assms(2) show ?thesis by (simp add: Registry_Compare_eq del: set_KnownComparators)
qed

end
