(* ===== verification/Examples.thy ===== *)
theory Examples
  imports CRD_Types
begin

text \<open>
  Small CRDs on which the properties are applied: one version \<open>v1\<close> of a CRD \<open>widgets\<close> with a
  given schema, and schemas with fields of the kinds the comparators look at.
\<close>

definition typed :: "string \<Rightarrow> SchemaAttrs" where
  "typed t = zero_attrs\<lparr>Type := t\<rparr>"

definition string_field :: JSONSchemaProps where
  "string_field = leaf_schema (typed ''string'')"

definition boolean_field :: JSONSchemaProps where
  "boolean_field = leaf_schema (typed ''boolean'')"

definition enum_field :: "string list \<Rightarrow> JSONSchemaProps" where
  "enum_field values = leaf_schema ((typed ''string'')\<lparr>Enum := map JSON values\<rparr>)"

definition map_field :: "JSONSchemaProps \<Rightarrow> JSONSchemaProps" where
  "map_field s = JSONSchemaProps (typed ''object'') None [] [] [] None [] (Some (PropsOrBool True (Some s))) [] [] None []"

definition list_field :: "int64 option \<Rightarrow> JSONSchemaProps \<Rightarrow> JSONSchemaProps" where
  "list_field minLength s = array_schema (zero_attrs\<lparr>MinLength := minLength\<rparr>) s"

definition requiring :: "string list \<Rightarrow> SchemaAttrs" where
  "requiring names = zero_attrs\<lparr>Required := names\<rparr>"

definition widget_version :: "JSONSchemaProps \<Rightarrow> CRDVersion" where
  "widget_version s =
     \<lparr> version_Name = ''v1'', Schema = Some \<lparr> OpenAPIV3Schema = Some s \<rparr>, Subresources = None \<rparr>"

definition widgets :: "JSONSchemaProps \<Rightarrow> CRD" where
  "widgets s = \<lparr> crd_Name = ''widgets'', Versions = [widget_version s] \<rparr>"

text \<open>The root object with the given fields.\<close>

definition widget_object :: "(string \<times> JSONSchemaProps) list \<Rightarrow> JSONSchemaProps" where
  "widget_object = object_schema zero_attrs"

definition plain_widgets :: CRD where
  "plain_widgets = widgets (widget_object [(''name'', string_field)])"

definition switch_widgets :: CRD where
  "switch_widgets = widgets (widget_object [(''name'', string_field), (''on'', boolean_field)])"

definition schemaless_widgets :: CRD where
  "schemaless_widgets =
     \<lparr> crd_Name = ''widgets'', Versions = [\<lparr> version_Name = ''v1'', Schema = None, Subresources = None \<rparr>] \<rparr>"

lemmas example_schemas = typed_def string_field_def boolean_field_def enum_field_def map_field_def list_field_def
  requiring_def widget_object_def object_schema_def array_schema_def leaf_schema_def

lemma crd_ok_widgets [simp]: "crd_ok (widgets s)"
  by (simp add: crd_ok_def widgets_def widget_version_def has_schema_def)

lemma crd_ok_examples [simp]: "crd_ok plain_widgets" "crd_ok switch_widgets" "\<not> crd_ok schemaless_widgets"
  by (simp_all add: plain_widgets_def switch_widgets_def) (simp add: schemaless_widgets_def crd_ok_def has_schema_def)

lemma version_schema_widget [simp]: "version_schema (widget_version s) = Some (Some s)"
  by (simp add: version_schema_def widget_version_def)

lemma Versions_widgets [simp]: "Versions (widgets s) = [widget_version s]" "crd_Name (widgets s) = ''widgets''"
  "version_Name (widget_version s) = ''v1''" "has_schema (widget_version s)"
  by (simp_all add: widgets_def widget_version_def has_schema_def)

end
