(* ===== verification/Simple_Validators.thy ===== *)
theory Simple_Validators
  imports Comparators Examples
begin

text \<open>
  The validators that report single fields: \<open>comp_no_bools.go\<close>, \<open>comp_no_floats.go\<close>,
  \<open>comp_no_uints.go\<close>, \<open>comp_no_maps.go\<close>, \<open>comp_lists_must_have_ssa_tags.go\<close>, and
  \<open>comp_must_have_status.go\<close>, which reports versions. Each has the predicate it hands to the
  walk, its \<open>Validate\<close> and its \<open>Compare\<close>; the first five interpret \<open>field_validator\<close>.
\<close>

section \<open>NoBools\<close>

definition noBools_Name :: string where
  "noBools_Name = ''NoBools''"

definition noBools_WhyItMatters :: string where
  "noBools_WhyItMatters =
     ''Booleans rarely stay booleans and can never develop new options.  This frequently leads to cases where there '' @
     ''are multiple boolean fields, with some combinations of values not being allowed.  Additionally, strings provide '' @
     ''expressive names and values, describing degrees or conditions of a thing.  Also, booleans cannot be defaulted, '' @
     ''pointers to booleans can be, but at that point you've already got a tri-state, so it's not a boolean is it...''"

definition noBools_pred :: "string list walker" where
  "noBools_pred s fldPath simpleLocation ancestry newBoolFields =
     (if Type (attrs s) = ''boolean'' then Some (False, newBoolFields @ [path_String simpleLocation])
      else Some (False, newBoolFields))"

definition noBools_Validate :: validate_fun where
  "noBools_Validate crd = do {
     errsToReport \<leftarrow> range_do (\<lambda>newVersion errsToReport. do {
       schema \<leftarrow> version_schema newVersion;
       (_, newBoolFields) \<leftarrow> walk_schema noBools_pred schema [];
       Some (errsToReport @ map (\<lambda>newBoolField.
         ''crd/'' @ crd_Name crd @ '' version/'' @ version_Name newVersion @ '' field/'' @ newBoolField @
         '' may not be a boolean'') newBoolFields)
     }) (Versions crd) [];
     Some (Inr \<lparr> Name = noBools_Name, WhyItMatters = noBools_WhyItMatters,
       Errors = errsToReport, Warnings = [], Infos = [] \<rparr>)
   }"

definition noBools_Compare :: compare_fun where
  "noBools_Compare existingCRD newCRD = RatchetCompare noBools_Validate existingCRD newCRD"

definition NoBools :: CRDComparator where
  "NoBools = \<lparr> comparator_Name = noBools_Name, comparator_Why = noBools_WhyItMatters, Compare = noBools_Compare \<rparr>"

section \<open>NoFloats\<close>

definition noFloats_Name :: string where
  "noFloats_Name = ''NoFloats''"

definition noFloats_WhyItMatters :: string where
  "noFloats_WhyItMatters =
     ''Floating-point values cannot be reliably round-tripped (encoded and re-decoded) without changing, '' @
     ''and have varying precision and representations across languages and architectures.''"

definition noFloats_pred :: "string list walker" where
  "noFloats_pred s fldPath simpleLocation ancestry newFloatFields =
     (if Type (attrs s) = ''number'' then Some (False, newFloatFields @ [path_String simpleLocation])
      else Some (False, newFloatFields))"

definition noFloats_Validate :: validate_fun where
  "noFloats_Validate crd = do {
     errsToReport \<leftarrow> range_do (\<lambda>newVersion errsToReport. do {
       schema \<leftarrow> version_schema newVersion;
       (_, newFloatFields) \<leftarrow> walk_schema noFloats_pred schema [];
       Some (errsToReport @ map (\<lambda>newFloatField.
         ''crd/'' @ crd_Name crd @ '' version/'' @ version_Name newVersion @ '' field/'' @ newFloatField @
         '' may not be a float'') newFloatFields)
     }) (Versions crd) [];
     Some (Inr \<lparr> Name = noFloats_Name, WhyItMatters = noFloats_WhyItMatters,
       Errors = errsToReport, Warnings = [], Infos = [] \<rparr>)
   }"

definition noFloats_Compare :: compare_fun where
  "noFloats_Compare existingCRD newCRD = RatchetCompare noFloats_Validate existingCRD newCRD"

definition NoFloats :: CRDComparator where
  "NoFloats = \<lparr> comparator_Name = noFloats_Name, comparator_Why = noFloats_WhyItMatters, Compare = noFloats_Compare \<rparr>"

section \<open>NoUints\<close>

definition noUints_Name :: string where
  "noUints_Name = ''NoUints''"

definition noUints_WhyItMatters :: string where
  "noUints_WhyItMatters = ''Unsigned integers don't have consistent support across languages and libraries.''"

definition noUints_pred :: "string list walker" where
  "noUints_pred s fldPath simpleLocation ancestry uintFields =
     (if Format (attrs s) = ''uint'' then Some (False, uintFields @ [path_String simpleLocation])
      else Some (False, uintFields))"

definition noUints_Validate :: validate_fun where
  "noUints_Validate crd = do {
     errsToReport \<leftarrow> range_do (\<lambda>newVersion errsToReport. do {
       schema \<leftarrow> version_schema newVersion;
       (_, uintFields) \<leftarrow> walk_schema noUints_pred schema [];
       Some (errsToReport @ map (\<lambda>newUintField.
         ''crd/'' @ crd_Name crd @ '' version/'' @ version_Name newVersion @ '' field/'' @ newUintField @
         '' may not be a uint'') uintFields)
     }) (Versions crd) [];
     Some (Inr \<lparr> Name = noUints_Name, WhyItMatters = noUints_WhyItMatters,
       Errors = errsToReport, Warnings = [], Infos = [] \<rparr>)
   }"

definition noUints_Compare :: compare_fun where
  "noUints_Compare existingCRD newCRD = RatchetCompare noUints_Validate existingCRD newCRD"

definition NoUints :: CRDComparator where
  "NoUints = \<lparr> comparator_Name = noUints_Name, comparator_Why = noUints_WhyItMatters, Compare = noUints_Compare \<rparr>"

section \<open>NoMaps\<close>

definition noMaps_Name :: string where
  "noMaps_Name = ''NoMaps''"

definition noMaps_WhyItMatters :: string where
  "noMaps_WhyItMatters =
     ''When serialized into yaml or json, maps don't have \"names\" associated with their key.  This makes '' @
     ''it less obvious what the key of map means or what is for.  Additionally, maps are not guaranteed stable '' @
     ''for serialization, but lists are always ordered.  Instead of maps, use lists with a field that functions as '' @
     ''a key and use a listMapKey marker for server-side-apply.''"

definition noMaps_pred :: "string list walker" where
  "noMaps_pred s fldPath simpleLocation ancestry newMapFields =
     (if Type (attrs s) = ''object'' then
        if AdditionalProperties s \<noteq> None then Some (False, newMapFields @ [path_String simpleLocation])
        else Some (False, newMapFields)
      else Some (False, newMapFields))"

definition noMaps_Validate :: validate_fun where
  "noMaps_Validate crd = do {
     errsToReport \<leftarrow> range_do (\<lambda>newVersion errsToReport. do {
       schema \<leftarrow> version_schema newVersion;
       (_, newMapFields) \<leftarrow> walk_schema noMaps_pred schema [];
       Some (errsToReport @ map (\<lambda>newMapField.
         ''crd/'' @ crd_Name crd @ '' version/'' @ version_Name newVersion @ '' field/'' @ newMapField @
         '' may not be a map'') newMapFields)
     }) (Versions crd) [];
     Some (Inr \<lparr> Name = noMaps_Name, WhyItMatters = noMaps_WhyItMatters,
       Errors = errsToReport, Warnings = [], Infos = [] \<rparr>)
   }"

definition noMaps_Compare :: compare_fun where
  "noMaps_Compare existingCRD newCRD = RatchetCompare noMaps_Validate existingCRD newCRD"

definition NoMaps :: CRDComparator where
  "NoMaps = \<lparr> comparator_Name = noMaps_Name, comparator_Why = noMaps_WhyItMatters, Compare = noMaps_Compare \<rparr>"

section \<open>ListsMustHaveSSATags\<close>

definition listsMustHaveSSATags_Name :: string where
  "listsMustHaveSSATags_Name = ''ListsMustHaveSSATags''"

definition listsMustHaveSSATags_WhyItMatters :: string where
  "listsMustHaveSSATags_WhyItMatters =
     ''Lists require x-kubernetes-list-type tags in order to properly merge different requests from different field managers.  '' @
     ''Valid value are 'atomic', 'set', and 'map' and are indicated in kubebuilder tags with '// +listType=<val>' and '' @
     '''// +listMapKey=<val>'.''"

definition listsMustHaveSSATags_pred :: "string list walker" where
  "listsMustHaveSSATags_pred s fldPath simpleLocation ancestry fieldsWithoutListType =
     (if Type (attrs s) \<noteq> ''array'' then Some (False, fieldsWithoutListType)
      else case XListType (attrs s) of
          None \<Rightarrow> Some (False, fieldsWithoutListType @ [path_String simpleLocation])
        | Some listType \<Rightarrow>
            if length listType = 0 then Some (False, fieldsWithoutListType @ [path_String simpleLocation])
            else Some (False, fieldsWithoutListType))"

definition listsMustHaveSSATags_Validate :: validate_fun where
  "listsMustHaveSSATags_Validate crd = do {
     errsToReport \<leftarrow> range_do (\<lambda>newVersion errsToReport. do {
       schema \<leftarrow> version_schema newVersion;
       (_, fieldsWithoutListType) \<leftarrow> walk_schema listsMustHaveSSATags_pred schema [];
       Some (errsToReport @ map (\<lambda>newMapField.
         ''crd/'' @ crd_Name crd @ '' version/'' @ version_Name newVersion @ '' field/'' @ newMapField @
         '' must set x-kubernetes-list-type'') fieldsWithoutListType)
     }) (Versions crd) [];
     Some (Inr \<lparr> Name = listsMustHaveSSATags_Name, WhyItMatters = listsMustHaveSSATags_WhyItMatters,
       Errors = errsToReport, Warnings = [], Infos = [] \<rparr>)
   }"

definition listsMustHaveSSATags_Compare :: compare_fun where
  "listsMustHaveSSATags_Compare existingCRD newCRD =
     RatchetCompare listsMustHaveSSATags_Validate existingCRD newCRD"

definition ListsMustHaveSSATags :: CRDComparator where
  "ListsMustHaveSSATags =
     \<lparr> comparator_Name = listsMustHaveSSATags_Name, comparator_Why = listsMustHaveSSATags_WhyItMatters,
       Compare = listsMustHaveSSATags_Compare \<rparr>"

section \<open>MustHaveStatus\<close>

definition mustHaveStatus_Name :: string where
  "mustHaveStatus_Name = ''MustHaveStatus''"

definition mustHaveStatus_WhyItMatters :: string where
  "mustHaveStatus_WhyItMatters =
     ''When the schema has a status field, it should be controlled via a status suberesource for different permissions '' @
     ''to control those who can control desired state from those who can control the actual state.''"

definition statusField :: string where
  "statusField = ''^.status''"

definition mustHaveStatus_pred :: "bool walker" where
  "mustHaveStatus_pred s fldPath simpleLocation ancestry hasStatus =
     (if path_String simpleLocation = statusField then Some (True, True) else Some (False, hasStatus))"

text \<open>\<open>newVersion.Subresources != nil && newVersion.Subresources.Status != nil\<close>\<close>

definition has_status_subresource :: "CRDVersion \<Rightarrow> bool" where
  "has_status_subresource v = (case Subresources v of None \<Rightarrow> False | Some sub \<Rightarrow> Status sub \<noteq> None)"

definition mustHaveStatus_complaint :: "string \<Rightarrow> string \<Rightarrow> string" where
  "mustHaveStatus_complaint crd version =
     ''crd/'' @ crd @ '' version/'' @ version @ '' field/'' @ statusField @
     '' must have a status subresource in .spec.version[name='' @ version @
     ''].subresources.status to match its schema.''"

definition mustHaveStatus_Validate :: validate_fun where
  "mustHaveStatus_Validate crd = do {
     errsToReport \<leftarrow> range_do (\<lambda>newVersion errsToReport.
       if has_status_subresource newVersion then Some errsToReport
       else do {
         schema \<leftarrow> version_schema newVersion;
         (_, hasStatus) \<leftarrow> walk_schema mustHaveStatus_pred schema False;
         if hasStatus
         then Some (errsToReport @ [mustHaveStatus_complaint (crd_Name crd) (version_Name newVersion)])
         else Some errsToReport
       }) (Versions crd) [];
     Some (Inr \<lparr> Name = mustHaveStatus_Name, WhyItMatters = mustHaveStatus_WhyItMatters,
       Errors = errsToReport, Warnings = [], Infos = [] \<rparr>)
   }"

definition mustHaveStatus_Compare :: compare_fun where
  "mustHaveStatus_Compare existingCRD newCRD = RatchetCompare mustHaveStatus_Validate existingCRD newCRD"

definition MustHaveStatus :: CRDComparator where
  "MustHaveStatus =
     \<lparr> comparator_Name = mustHaveStatus_Name, comparator_Why = mustHaveStatus_WhyItMatters,
       Compare = mustHaveStatus_Compare \<rparr>"

section \<open>What each validator reports\<close>

text \<open>The nodes a validator objects to, and the interpretation of its contract.\<close>

definition noBools_offends :: "visit \<Rightarrow> bool" where
  "noBools_offends v \<longleftrightarrow> Type (attrs (visit_schema v)) = ''boolean''"

interpretation noBools_walk: collecting_walker noBools_pred "keep_location noBools_offends"
  by unfold_locales (auto simp: visit_run_def noBools_pred_def keep_location_def noBools_offends_def loc_string_def split: option.split)

interpretation noBools: field_validator noBools_Validate noBools_Name noBools_WhyItMatters
    noBools_offends "field_complaint '' may not be a boolean''"
  by unfold_locales
    (unfold noBools_Validate_def, subst field_validator_loop [OF noBools_walk.collecting_walker_axioms], simp)

definition noFloats_offends :: "visit \<Rightarrow> bool" where
  "noFloats_offends v \<longleftrightarrow> Type (attrs (visit_schema v)) = ''number''"

interpretation noFloats_walk: collecting_walker noFloats_pred "keep_location noFloats_offends"
  by unfold_locales (auto simp: visit_run_def noFloats_pred_def keep_location_def noFloats_offends_def loc_string_def split: option.split)

interpretation noFloats: field_validator noFloats_Validate noFloats_Name noFloats_WhyItMatters
    noFloats_offends "field_complaint '' may not be a float''"
  by unfold_locales
    (unfold noFloats_Validate_def, subst field_validator_loop [OF noFloats_walk.collecting_walker_axioms], simp)

definition noUints_offends :: "visit \<Rightarrow> bool" where
  "noUints_offends v \<longleftrightarrow> Format (attrs (visit_schema v)) = ''uint''"

interpretation noUints_walk: collecting_walker noUints_pred "keep_location noUints_offends"
  by unfold_locales (auto simp: visit_run_def noUints_pred_def keep_location_def noUints_offends_def loc_string_def split: option.split)

interpretation noUints: field_validator noUints_Validate noUints_Name noUints_WhyItMatters
    noUints_offends "field_complaint '' may not be a uint''"
  by unfold_locales
    (unfold noUints_Validate_def, subst field_validator_loop [OF noUints_walk.collecting_walker_axioms], simp)

definition noMaps_offends :: "visit \<Rightarrow> bool" where
  "noMaps_offends v \<longleftrightarrow> Type (attrs (visit_schema v)) = ''object'' \<and> AdditionalProperties (visit_schema v) \<noteq> None"

interpretation noMaps_walk: collecting_walker noMaps_pred "keep_location noMaps_offends"
  by unfold_locales (auto simp: visit_run_def noMaps_pred_def keep_location_def noMaps_offends_def loc_string_def split: option.split)

interpretation noMaps: field_validator noMaps_Validate noMaps_Name noMaps_WhyItMatters
    noMaps_offends "field_complaint '' may not be a map''"
  by unfold_locales
    (unfold noMaps_Validate_def, subst field_validator_loop [OF noMaps_walk.collecting_walker_axioms], simp)

definition listsMustHaveSSATags_offends :: "visit \<Rightarrow> bool" where
  "listsMustHaveSSATags_offends v \<longleftrightarrow> Type (attrs (visit_schema v)) = ''array'' \<and>
     (XListType (attrs (visit_schema v)) = None \<or> XListType (attrs (visit_schema v)) = Some [])"

interpretation listsMustHaveSSATags_walk: collecting_walker listsMustHaveSSATags_pred "keep_location listsMustHaveSSATags_offends"
  by unfold_locales (auto simp: visit_run_def listsMustHaveSSATags_pred_def keep_location_def listsMustHaveSSATags_offends_def loc_string_def split: option.split)

interpretation listsMustHaveSSATags: field_validator listsMustHaveSSATags_Validate listsMustHaveSSATags_Name listsMustHaveSSATags_WhyItMatters
    listsMustHaveSSATags_offends "field_complaint '' must set x-kubernetes-list-type''"
  by unfold_locales
    (unfold listsMustHaveSSATags_Validate_def, subst field_validator_loop [OF listsMustHaveSSATags_walk.collecting_walker_axioms], simp)

section \<open>What MustHaveStatus reports\<close>

definition at_status :: "visit \<Rightarrow> bool" where
  "at_status v \<longleftrightarrow> loc_string v = statusField"

interpretation mustHaveStatus_walk: testing_walker mustHaveStatus_pred at_status "\<lambda>_. True"
  by unfold_locales (simp add: visit_run_def mustHaveStatus_pred_def at_status_def loc_string_def)

text \<open>A version is accepted when it has the subresource or nothing in its schema is at \<open>^.status\<close>.\<close>

definition status_missing :: "CRDVersion \<Rightarrow> bool" where
  "status_missing v \<longleftrightarrow> \<not> has_status_subresource v \<and> (\<exists>n\<in>set (version_nodes v). at_status n)"

definition status_ok :: "CRD \<Rightarrow> bool" where
  "status_ok c \<longleftrightarrow> list_all (\<lambda>v. has_status_subresource v \<or> has_schema v) (Versions c)"

lemma mustHaveStatus_loop:
  "range_do (\<lambda>newVersion errsToReport.
       if has_status_subresource newVersion then Some errsToReport
       else do {
         schema \<leftarrow> version_schema newVersion;
         (_, hasStatus) \<leftarrow> walk_schema mustHaveStatus_pred schema False;
         if hasStatus
         then Some (errsToReport @ [mustHaveStatus_complaint c (version_Name newVersion)])
         else Some errsToReport
       }) vs errs =
   (if list_all (\<lambda>v. has_status_subresource v \<or> has_schema v) vs
    then Some (errs @ map (\<lambda>v. mustHaveStatus_complaint c (version_Name v)) (filter status_missing vs))
    else None)"
  by (induction vs arbitrary: errs)
    (auto simp: mustHaveStatus_walk.walk_tests version_schema_def has_schema_def status_missing_def
       version_nodes_def split: option.splits)

lemma mustHaveStatus_Validate_eq:
  "mustHaveStatus_Validate c =
     (if status_ok c
      then Some (Inr \<lparr> Name = mustHaveStatus_Name, WhyItMatters = mustHaveStatus_WhyItMatters,
        Errors = map (\<lambda>v. mustHaveStatus_complaint (crd_Name c) (version_Name v))
          (filter status_missing (Versions c)), Warnings = [], Infos = [] \<rparr>)
      else None)"
  unfolding mustHaveStatus_Validate_def by (subst mustHaveStatus_loop) (simp add: status_ok_def)

interpretation mustHaveStatus:
  crd_validator mustHaveStatus_Validate mustHaveStatus_Name mustHaveStatus_WhyItMatters status_ok
  by unfold_locales (auto simp: mustHaveStatus_Validate_eq no_messages_def status_ok_def split: if_splits)

section \<open>Properties\<close>

text \<open>
  The ratchet keeps, of the messages for the new CRD, exactly those the existing CRD does not
  already get, in their order, for each of the three severities.
\<close>

theorem ratchet_keeps_new_messages:
  assumes "validate existing = Some (Inr old_results)" and "validate new = Some (Inr new_results)"
  shows "RatchetCompare validate (Some existing) new =
    Some (Inr \<lparr> Name = Name new_results, WhyItMatters = WhyItMatters new_results,
      Errors = filter (\<lambda>m. m \<notin> set (Errors old_results)) (Errors new_results),
      Warnings = filter (\<lambda>m. m \<notin> set (Warnings old_results)) (Warnings new_results),
      Infos = filter (\<lambda>m. m \<notin> set (Infos old_results)) (Infos new_results) \<rparr>)"
  using assms by (simp add: RatchetCompare_def stringDiff_filter)

lemma noBools_switch:
  "noBools_Validate plain_widgets = Some (Inr \<lparr> Name = noBools_Name, WhyItMatters = noBools_WhyItMatters,
     Errors = [], Warnings = [], Infos = [] \<rparr>)"
  "noBools_Validate switch_widgets = Some (Inr \<lparr> Name = noBools_Name, WhyItMatters = noBools_WhyItMatters,
     Errors = [''crd/widgets version/v1 field/^.on may not be a boolean''], Warnings = [], Infos = [] \<rparr>)"
  by code_simp+

text \<open>
  Each of the five validators of single fields returns without a message exactly when every
  version has a schema and no node of it is of the unwanted kind: a boolean, a number, a format
  \<open>uint\<close>, an object with additional properties, a list without a list type.
\<close>

theorem field_validators_accept_iff:
  "(accepts (noBools_Validate c) \<longleftrightarrow> crd_ok c \<and>
      (\<forall>v\<in>set (Versions c). \<forall>n\<in>set (version_nodes v). Type (attrs (visit_schema n)) \<noteq> ''boolean'')) \<and>
   (accepts (noFloats_Validate c) \<longleftrightarrow> crd_ok c \<and>
      (\<forall>v\<in>set (Versions c). \<forall>n\<in>set (version_nodes v). Type (attrs (visit_schema n)) \<noteq> ''number'')) \<and>
   (accepts (noUints_Validate c) \<longleftrightarrow> crd_ok c \<and>
      (\<forall>v\<in>set (Versions c). \<forall>n\<in>set (version_nodes v). Format (attrs (visit_schema n)) \<noteq> ''uint'')) \<and>
   (accepts (noMaps_Validate c) \<longleftrightarrow> crd_ok c \<and>
      (\<forall>v\<in>set (Versions c). \<forall>n\<in>set (version_nodes v).
         \<not> (Type (attrs (visit_schema n)) = ''object'' \<and> AdditionalProperties (visit_schema n) \<noteq> None))) \<and>
   (accepts (listsMustHaveSSATags_Validate c) \<longleftrightarrow> crd_ok c \<and>
      (\<forall>v\<in>set (Versions c). \<forall>n\<in>set (version_nodes v).
         \<not> (Type (attrs (visit_schema n)) = ''array'' \<and>
            (XListType (attrs (visit_schema n)) = None \<or> XListType (attrs (visit_schema n)) = Some []))))"
  by (simp only: field_validator_accepts [OF noBools.field_validator_axioms]
      field_validator_accepts [OF noFloats.field_validator_axioms]
      field_validator_accepts [OF noUints.field_validator_axioms]
      field_validator_accepts [OF noMaps.field_validator_axioms]
      field_validator_accepts [OF listsMustHaveSSATags.field_validator_axioms]
      noBools_offends_def noFloats_offends_def noUints_offends_def noMaps_offends_def
      listsMustHaveSSATags_offends_def simp_thms)

text \<open>
  C14. The comparators built from them report, as errors and nothing else, the complaint about each
  unwanted node of the new CRD whose text the existing CRD does not already produce.
\<close>

theorem field_comparators_report_new:
  assumes "pred_option crd_ok existing" and "crd_ok new"
  shows "reports_new noBools_Compare noBools_offends '' may not be a boolean'' existing new \<and>
    reports_new noFloats_Compare noFloats_offends '' may not be a float'' existing new \<and>
    reports_new noUints_Compare noUints_offends '' may not be a uint'' existing new \<and>
    reports_new noMaps_Compare noMaps_offends '' may not be a map'' existing new \<and>
    reports_new listsMustHaveSSATags_Compare listsMustHaveSSATags_offends '' must set x-kubernetes-list-type'' existing new"
proof -
  have compares: "noBools_Compare = RatchetCompare noBools_Validate" "noFloats_Compare = RatchetCompare noFloats_Validate"
    "noUints_Compare = RatchetCompare noUints_Validate" "noMaps_Compare = RatchetCompare noMaps_Validate"
    "listsMustHaveSSATags_Compare = RatchetCompare listsMustHaveSSATags_Validate"
    by (simp_all add: fun_eq_iff noBools_Compare_def noFloats_Compare_def noUints_Compare_def noMaps_Compare_def
        listsMustHaveSSATags_Compare_def)
  show ?thesis
  proof (intro conjI)
    show "reports_new noBools_Compare noBools_offends '' may not be a boolean'' existing new"
      unfolding compares by (rule field_validator_reports_new [OF noBools.field_validator_axioms assms])
    show "reports_new noFloats_Compare noFloats_offends '' may not be a float'' existing new"
      unfolding compares by (rule field_validator_reports_new [OF noFloats.field_validator_axioms assms])
    show "reports_new noUints_Compare noUints_offends '' may not be a uint'' existing new"
      unfolding compares by (rule field_validator_reports_new [OF noUints.field_validator_axioms assms])
    show "reports_new noMaps_Compare noMaps_offends '' may not be a map'' existing new"
      unfolding compares by (rule field_validator_reports_new [OF noMaps.field_validator_axioms assms])
    show "reports_new listsMustHaveSSATags_Compare listsMustHaveSSATags_offends '' must set x-kubernetes-list-type'' existing new"
      unfolding compares by (rule field_validator_reports_new [OF listsMustHaveSSATags.field_validator_axioms assms])
  qed
qed

theorem field_comparators_report_new_witness:
  "reports_new noBools_Compare noBools_offends '' may not be a boolean'' (Some plain_widgets) switch_widgets \<and>
   reports_new noMaps_Compare noMaps_offends '' may not be a map'' None switch_widgets"
  using field_comparators_report_new [of "Some plain_widgets" switch_widgets]
    field_comparators_report_new [of None switch_widgets] by simp

text \<open>
  C25. \<open>MustHaveStatus\<close> returns one error for each version that has no status subresource while some
  node of its schema is at \<open>^.status\<close>, in the order of the versions, and panics exactly when a
  version without the subresource has no schema.
\<close>

theorem mustHaveStatus_reports:
  "mustHaveStatus_Validate c =
     (if \<exists>v\<in>set (Versions c). \<not> has_status_subresource v \<and> Schema v = None then None
      else Some (Inr \<lparr> Name = mustHaveStatus_Name, WhyItMatters = mustHaveStatus_WhyItMatters,
        Errors = map (\<lambda>v. mustHaveStatus_complaint (crd_Name c) (version_Name v))
          (filter (\<lambda>v. \<not> has_status_subresource v \<and> (\<exists>n\<in>set (version_nodes v). loc_string n = ''^.status'')) (Versions c)),
        Warnings = [], Infos = [] \<rparr>))"
  by (auto simp: mustHaveStatus_Validate_eq status_ok_def has_schema_def list_all_iff status_missing_def [abs_def]
      at_status_def statusField_def)

end
