(* ===== verification/Conditions_Validator.thy ===== *)
theory Conditions_Validator
  imports Comparators Examples
begin

text \<open>
  \<open>comp_conditions_must_have_proper_ssa_tags.go\<close>: arrays found at a location that contains
  \<open>.conditions\<close> must declare the standard condition properties and the list tags of a map keyed
  by type. The property checks dereference \<open>maxLength\<close> and \<open>minimum\<close> pointers without a nil check,
  and the walk dereferences \<open>items.schema\<close>, so \<open>Validate\<close> can panic; the lemmas say exactly when.
\<close>

section \<open>The properties of a condition\<close>

definition listMapKeysHasSingleTypeElement :: "string list \<Rightarrow> bool" where
  "listMapKeysHasSingleTypeElement keys =
     (case keys of [k] \<Rightarrow> k = ''type'' | _ \<Rightarrow> False)"

fun jsonSliceContainsString :: "JSON list \<Rightarrow> string \<Rightarrow> bool" where
  "jsonSliceContainsString [] s = False"
| "jsonSliceContainsString (v # a) s = (if Raw v = s then True else jsonSliceContainsString a s)"

text \<open>\<open>*p\<close> compared with a constant: a panic when \<open>p\<close> is nil.\<close>

definition deref_differs :: "'a option \<Rightarrow> 'a \<Rightarrow> bool go" where
  "deref_differs p c = (case p of None \<Rightarrow> None | Some x \<Rightarrow> Some (x \<noteq> c))"

definition reason_expectedPattern :: string where
  "reason_expectedPattern = ''^[A-Za-z]([A-Za-z0-9_,:]*[A-Za-z0-9_])?$''"

definition type_expectedPattern :: string where
  "type_expectedPattern =
     ''^([a-z0-9]([-a-z0-9]*[a-z0-9])?('' @ [CHR 0x5C] @
     ''.[a-z0-9]([-a-z0-9]*[a-z0-9])?)*/)?(([A-Za-z0-9][-A-Za-z0-9_.]*)?[A-Za-z0-9])$''"

definition validateConditionReason :: "JSONSchemaProps \<Rightarrow> string list go" where
  "validateConditionReason reasonProp = do {
     let errs = (if Pattern (attrs reasonProp) \<noteq> reason_expectedPattern
       then [''reason attribute does not set correct pattern '' @ reason_expectedPattern] else []);
     differs \<leftarrow> deref_differs (MaxLength (attrs reasonProp)) 1024;
     Some (errs @ (if differs then [''reason attribute does not set maxLength to '' @ itoa 1024] else []))
   }"

definition validateConditionType :: "JSONSchemaProps \<Rightarrow> string list go" where
  "validateConditionType typeProp = do {
     let errs = (if Pattern (attrs typeProp) \<noteq> type_expectedPattern
       then [''type attribute must set correct pattern '' @ type_expectedPattern] else []);
     differs \<leftarrow> deref_differs (MaxLength (attrs typeProp)) 316;
     Some (errs @ (if differs then [''type attribute must set maxLength to '' @ itoa 316] else []))
   }"

definition validateConditionStatus :: "JSONSchemaProps \<Rightarrow> string list" where
  "validateConditionStatus statusProp =
     (let enum = Enum (attrs statusProp);
          missing = (\<lambda>value. ''status attribute is missing expected '' @ value @ '' Enum value'')
      in (if length enum \<noteq> 3
          then [''status attribute is expected as Enum type with '' @ itoa 3 @ '' values''] else []) @
         (if \<not> jsonSliceContainsString enum ''\"True\"'' then [missing ''\"True\"''] else []) @
         (if \<not> jsonSliceContainsString enum ''\"False\"'' then [missing ''\"False\"''] else []) @
         (if \<not> jsonSliceContainsString enum ''\"Unknown\"'' then [missing ''\"Unknown\"''] else []))"

definition validateConditionLastTransitionTime :: "JSONSchemaProps \<Rightarrow> string list" where
  "validateConditionLastTransitionTime prop =
     (if Type (attrs prop) \<noteq> ''string''
      then [''lastTransitionTime attribute must be of Type '' @ ''string''] else []) @
     (if Format (attrs prop) \<noteq> ''date-time''
      then [''lastTransitionTime attribute must set '' @ ''date-time'' @ '' Format''] else [])"

definition validateConditionObservedGeneration :: "JSONSchemaProps \<Rightarrow> string list go" where
  "validateConditionObservedGeneration prop = do {
     differs \<leftarrow> deref_differs (Minimum (attrs prop)) 0;
     Some (if differs then [''observedGeneration attribute must set Minimum value to '' @ itoa 0] else [])
   }"

definition validateConditionMessage :: "JSONSchemaProps \<Rightarrow> string list go" where
  "validateConditionMessage messageProp = do {
     differs \<leftarrow> deref_differs (MaxLength (attrs messageProp)) 32768;
     Some (if differs then [''message attribute must set maxLength to '' @ itoa 32768] else [])
   }"

definition missing_attribute :: "(string \<times> JSONSchemaProps) list \<Rightarrow> string \<Rightarrow> string list" where
  "missing_attribute properties name =
     (if map_of properties name = None then [name @ '' attribute is missing''] else [])"

definition condition_attributes :: "string list" where
  "condition_attributes =
     [''type'', ''reason'', ''status'', ''lastTransitionTime'', ''observedGeneration'', ''message'']"

definition validateConditionProperties :: "(string \<times> JSONSchemaProps) list \<Rightarrow> string list go" where
  "validateConditionProperties properties =
     (let errString = concat (map (missing_attribute properties) condition_attributes)
      in if length errString > 0 then Some errString
         else do {
           typeP \<leftarrow> map_of properties ''type'';
           reason \<leftarrow> map_of properties ''reason'';
           status \<leftarrow> map_of properties ''status'';
           lastTransitionTime \<leftarrow> map_of properties ''lastTransitionTime'';
           observedGeneration \<leftarrow> map_of properties ''observedGeneration'';
           message \<leftarrow> map_of properties ''message'';
           e1 \<leftarrow> validateConditionType typeP;
           e2 \<leftarrow> validateConditionReason reason;
           let e3 = validateConditionStatus status;
           e4 \<leftarrow> validateConditionObservedGeneration observedGeneration;
           let e5 = validateConditionLastTransitionTime lastTransitionTime;
           e6 \<leftarrow> validateConditionMessage message;
           Some (errString @ e1 @ e2 @ e3 @ e4 @ e5 @ e6)
         })"

section \<open>Validate\<close>

definition conditions_Name :: string where
  "conditions_Name = ''ConditionsMustHaveProperSSATags''"

definition conditions_WhyItMatters :: string where
  "conditions_WhyItMatters =
     ''Conditions should follow the standard schema included in  '' @
     ''https://github.com/kubernetes/apimachinery/blob/release-1.29/pkg/apis/meta/v1/types.go#L1482-L1542'' @
     ''and collection of conditions should be treated as a map with a key of type. '' @
     ''This is indicated in kubebuilder tags with '// +listType=map' and '// +listMapKey=type'.''"

text \<open>The three slices the predicate appends to.\<close>

record conditions_vars =
  conditionsWithoutMapListType :: "string list"
  conditionsWithoutListMapKeysType :: "string list"
  invalidConditionsProperties :: "string list"

definition no_conditions_vars :: conditions_vars where
  "no_conditions_vars =
     \<lparr> conditionsWithoutMapListType = [], conditionsWithoutListMapKeysType = [], invalidConditionsProperties = [] \<rparr>"

text \<open>The expression \<open>s.Items.Schema.Properties\<close>.\<close>

definition item_properties :: "JSONSchemaProps \<Rightarrow> (string \<times> JSONSchemaProps) list go" where
  "item_properties s = do {
     items \<leftarrow> Items s;
     schema \<leftarrow> items_Schema items;
     Some (Properties schema)
   }"

definition conditions_pred :: "conditions_vars walker" where
  "conditions_pred s fldPath simpleLocation ancestry vars =
     (if Type (attrs s) \<noteq> ''array'' then Some (False, vars)
      else if \<not> sublist ''.conditions'' (path_String simpleLocation) then Some (False, vars)
      else do {
        properties \<leftarrow> item_properties s;
        errs \<leftarrow> validateConditionProperties properties;
        let vars = (if length errs \<noteq> 0
          then vars\<lparr>invalidConditionsProperties := invalidConditionsProperties vars @ errs\<rparr> else vars);
        let vars = (if XListType (attrs s) = None \<or> XListType (attrs s) \<noteq> Some ''map''
          then vars\<lparr>conditionsWithoutMapListType :=
            conditionsWithoutMapListType vars @ [path_String simpleLocation]\<rparr> else vars);
        let vars = (if length (XListMapKeys (attrs s)) = 0 \<or> \<not> listMapKeysHasSingleTypeElement (XListMapKeys (attrs s))
          then vars\<lparr>conditionsWithoutListMapKeysType :=
            conditionsWithoutListMapKeysType vars @ [path_String simpleLocation]\<rparr> else vars);
        Some (False, vars)
      })"

definition conditions_messages :: "string \<Rightarrow> string \<Rightarrow> conditions_vars \<Rightarrow> string list" where
  "conditions_messages crd version vars =
     map (\<lambda>invalidConditionProp. ''crd/'' @ crd @ '' version/'' @ version @
       '' field/^.status.condition must define valid condition properties: '' @ invalidConditionProp)
       (invalidConditionsProperties vars) @
     map (\<lambda>affectedField. ''crd/'' @ crd @ '' version/'' @ version @ '' field/'' @ affectedField @
       '' must set x-kubernetes-list-type with value \"map\"'')
       (conditionsWithoutMapListType vars) @
     map (\<lambda>affectedField. ''crd/'' @ crd @ '' version/'' @ version @ '' field/'' @ affectedField @
       '' must set x-kubernetes-list-map-keys with single \"type\" value'')
       (conditionsWithoutListMapKeysType vars)"

definition conditions_Validate :: validate_fun where
  "conditions_Validate crd = do {
     errsToReport \<leftarrow> range_do (\<lambda>newVersion errsToReport. do {
       schema \<leftarrow> version_schema newVersion;
       (_, vars) \<leftarrow> walk_schema conditions_pred schema no_conditions_vars;
       Some (errsToReport @ conditions_messages (crd_Name crd) (version_Name newVersion) vars)
     }) (Versions crd) [];
     Some (Inr \<lparr> Name = conditions_Name, WhyItMatters = conditions_WhyItMatters,
       Errors = errsToReport, Warnings = [], Infos = [] \<rparr>)
   }"

definition conditions_Compare :: compare_fun where
  "conditions_Compare existingCRD newCRD = RatchetCompare conditions_Validate existingCRD newCRD"

definition ConditionsMustHaveProperSSATags :: CRDComparator where
  "ConditionsMustHaveProperSSATags =
     \<lparr> comparator_Name = conditions_Name, comparator_Why = conditions_WhyItMatters,
       Compare = conditions_Compare \<rparr>"

section \<open>When the property checks panic and when they accept\<close>

lemma jsonSliceContainsString_iff [simp]: "jsonSliceContainsString a s \<longleftrightarrow> s \<in> Raw ` set a"
  by (induction a) auto

lemma listMapKeys_iff [simp]: "listMapKeysHasSingleTypeElement keys \<longleftrightarrow> keys = [''type'']"
  by (auto simp: listMapKeysHasSingleTypeElement_def split: list.splits)

lemma missing_none_iff:
  "concat (map (missing_attribute ps) names) = [] \<longleftrightarrow> set names \<subseteq> dom (map_of ps)"
  by (induction names) (auto simp: missing_attribute_def)

text \<open>Every condition attribute is declared.\<close>

definition condition_complete :: "(string \<times> JSONSchemaProps) list \<Rightarrow> bool" where
  "condition_complete ps \<longleftrightarrow> list_all (\<lambda>name. map_of ps name \<noteq> None) condition_attributes"

text \<open>The pointers the checks dereference are set.\<close>

definition declares :: "(string \<times> JSONSchemaProps) list \<Rightarrow> string \<Rightarrow> (JSONSchemaProps \<Rightarrow> bool) \<Rightarrow> bool" where
  "declares ps name p \<longleftrightarrow> (case map_of ps name of None \<Rightarrow> False | Some s \<Rightarrow> p s)"

definition condition_pointers :: "(string \<times> JSONSchemaProps) list \<Rightarrow> bool" where
  "condition_pointers ps \<longleftrightarrow>
     declares ps ''type'' (\<lambda>s. MaxLength (attrs s) \<noteq> None) \<and>
     declares ps ''reason'' (\<lambda>s. MaxLength (attrs s) \<noteq> None) \<and>
     declares ps ''observedGeneration'' (\<lambda>s. Minimum (attrs s) \<noteq> None) \<and>
     declares ps ''message'' (\<lambda>s. MaxLength (attrs s) \<noteq> None)"

text \<open>The standard condition of \<open>metav1.Condition\<close>.\<close>

definition standard_condition :: "(string \<times> JSONSchemaProps) list \<Rightarrow> bool" where
  "standard_condition ps \<longleftrightarrow>
     declares ps ''type'' (\<lambda>s. Pattern (attrs s) = type_expectedPattern \<and> MaxLength (attrs s) = Some 316) \<and>
     declares ps ''reason'' (\<lambda>s. Pattern (attrs s) = reason_expectedPattern \<and> MaxLength (attrs s) = Some 1024) \<and>
     declares ps ''status'' (\<lambda>s. length (Enum (attrs s)) = 3 \<and>
       Raw ` set (Enum (attrs s)) = {''\"True\"'', ''\"False\"'', ''\"Unknown\"''}) \<and>
     declares ps ''lastTransitionTime'' (\<lambda>s. Type (attrs s) = ''string'' \<and> Format (attrs s) = ''date-time'') \<and>
     declares ps ''observedGeneration'' (\<lambda>s. Minimum (attrs s) = Some 0) \<and>
     declares ps ''message'' (\<lambda>s. MaxLength (attrs s) = Some 32768)"

lemma condition_complete_simps:
  "condition_complete ps \<longleftrightarrow> (\<exists>t r st l g m.
     map_of ps ''type'' = Some t \<and> map_of ps ''reason'' = Some r \<and> map_of ps ''status'' = Some st \<and>
     map_of ps ''lastTransitionTime'' = Some l \<and> map_of ps ''observedGeneration'' = Some g \<and>
     map_of ps ''message'' = Some m)"
  by (auto simp: condition_complete_def condition_attributes_def)

lemma validateConditionProperties_incomplete:
  "\<not> condition_complete ps \<Longrightarrow>
   validateConditionProperties ps = Some (concat (map (missing_attribute ps) condition_attributes)) \<and>
   concat (map (missing_attribute ps) condition_attributes) \<noteq> []"
proof -
  assume "\<not> condition_complete ps"
  then have "concat (map (missing_attribute ps) condition_attributes) \<noteq> []"
    unfolding missing_none_iff by (auto simp: condition_complete_def list_all_iff)
  then show ?thesis
    by (simp only: validateConditionProperties_def Let_def length_greater_0_conv if_True simp_thms)
qed

lemma validateConditionProperties_complete:
  assumes "map_of ps ''type'' = Some t" "map_of ps ''reason'' = Some r" "map_of ps ''status'' = Some st"
    "map_of ps ''lastTransitionTime'' = Some l" "map_of ps ''observedGeneration'' = Some g"
    "map_of ps ''message'' = Some m"
  shows "validateConditionProperties ps = do {
     e1 \<leftarrow> validateConditionType t;
     e2 \<leftarrow> validateConditionReason r;
     e4 \<leftarrow> validateConditionObservedGeneration g;
     e6 \<leftarrow> validateConditionMessage m;
     Some (e1 @ e2 @ validateConditionStatus st @ e4 @ validateConditionLastTransitionTime l @ e6)
   }"
proof -
  from assms have none: "concat (map (missing_attribute ps) condition_attributes) = []"
    by (simp add: condition_attributes_def missing_attribute_def)
  show ?thesis
    unfolding validateConditionProperties_def Let_def none by (simp add: assms)
qed

lemma deref_differs_simps [simp]:
  "deref_differs None c = None"
  "deref_differs (Some x) c = Some (x \<noteq> c)"
  by (simp_all add: deref_differs_def)

lemmas condition_checks = validateConditionType_def validateConditionReason_def
  validateConditionObservedGeneration_def validateConditionMessage_def Let_def

lemma validateConditionProperties_None_iff:
  "validateConditionProperties ps = None \<longleftrightarrow> condition_complete ps \<and> \<not> condition_pointers ps"
proof (cases "condition_complete ps")
  case False
  then show ?thesis by (simp add: validateConditionProperties_incomplete)
next
  case True
  then obtain t r st l g m where ps: "map_of ps ''type'' = Some t" "map_of ps ''reason'' = Some r"
    "map_of ps ''status'' = Some st" "map_of ps ''lastTransitionTime'' = Some l"
    "map_of ps ''observedGeneration'' = Some g" "map_of ps ''message'' = Some m"
    by (auto simp: condition_complete_simps)
  show ?thesis
    using True ps
    by (cases "MaxLength (attrs t)"; cases "MaxLength (attrs r)"; cases "Minimum (attrs g)";
        cases "MaxLength (attrs m)")
      (simp_all add: validateConditionProperties_complete [OF ps] condition_checks condition_pointers_def declares_def)
qed

lemma status_enum_iff:
  "validateConditionStatus st = [] \<longleftrightarrow>
   length (Enum (attrs st)) = 3 \<and> Raw ` set (Enum (attrs st)) = {''\"True\"'', ''\"False\"'', ''\"Unknown\"''}"
proof -
  let ?E = "Enum (attrs st)" and ?W = "{''\"True\"'', ''\"False\"'', ''\"Unknown\"''}"
  have "?W \<subseteq> Raw ` set ?E \<longleftrightarrow> Raw ` set ?E = ?W" if "length ?E = 3"
  proof
    assume sub: "?W \<subseteq> Raw ` set ?E"
    have "card (Raw ` set ?E) \<le> 3"
      using card_image_le [of "set ?E" Raw] card_length [of ?E] that by simp
    then have "card (Raw ` set ?E) \<le> card ?W" by simp
    from card_seteq [OF _ sub this] show "Raw ` set ?E = ?W" by simp
  qed simp
  then show ?thesis
    by (auto simp: validateConditionStatus_def Let_def)
qed

lemma condition_check_Nil_iff:
  "validateConditionType s = Some [] \<longleftrightarrow> Pattern (attrs s) = type_expectedPattern \<and> MaxLength (attrs s) = Some 316"
  "validateConditionReason s = Some [] \<longleftrightarrow> Pattern (attrs s) = reason_expectedPattern \<and> MaxLength (attrs s) = Some 1024"
  "validateConditionObservedGeneration s = Some [] \<longleftrightarrow> Minimum (attrs s) = Some 0"
  "validateConditionMessage s = Some [] \<longleftrightarrow> MaxLength (attrs s) = Some 32768"
  "validateConditionLastTransitionTime s = [] \<longleftrightarrow> Type (attrs s) = ''string'' \<and> Format (attrs s) = ''date-time''"
  by (simp_all add: condition_checks validateConditionLastTransitionTime_def bind_eq_Some_conv deref_differs_def
      ex_bool_eq split: option.split)

lemma standard_condition_complete: "standard_condition ps \<Longrightarrow> condition_complete ps"
  by (simp add: standard_condition_def declares_def condition_complete_simps split: option.splits)

lemma validateConditionProperties_Nil_iff:
  "validateConditionProperties ps = Some [] \<longleftrightarrow> standard_condition ps"
proof (cases "condition_complete ps")
  case False
  with standard_condition_complete [of ps] validateConditionProperties_incomplete [OF False]
  show ?thesis by auto
next
  case True
  then obtain t r st l g m where ps: "map_of ps ''type'' = Some t" "map_of ps ''reason'' = Some r"
    "map_of ps ''status'' = Some st" "map_of ps ''lastTransitionTime'' = Some l"
    "map_of ps ''observedGeneration'' = Some g" "map_of ps ''message'' = Some m"
    by (auto simp: condition_complete_simps)
  have "validateConditionProperties ps = Some [] \<longleftrightarrow>
      validateConditionType t = Some [] \<and> validateConditionReason r = Some [] \<and>
      validateConditionObservedGeneration g = Some [] \<and> validateConditionMessage m = Some [] \<and>
      validateConditionStatus st = [] \<and> validateConditionLastTransitionTime l = []"
    unfolding validateConditionProperties_complete [OF ps]
    by (simp add: bind_eq_Some_conv conj_commute)
  then show ?thesis
    unfolding condition_check_Nil_iff status_enum_iff standard_condition_def declares_def ps option.case
    by (simp only: conj_ac)
qed

section \<open>What Validate reports and when it panics\<close>

text \<open>The arrays the validator looks at, and what the property checks say of their items.\<close>

definition conditions_array :: "visit \<Rightarrow> bool" where
  "conditions_array v \<longleftrightarrow> Type (attrs (visit_schema v)) = ''array'' \<and> sublist ''.conditions'' (loc_string v)"

definition condition_errors :: "visit \<Rightarrow> string list go" where
  "condition_errors v = do {
     properties \<leftarrow> item_properties (visit_schema v);
     validateConditionProperties properties
   }"

definition map_list_missing :: "visit \<Rightarrow> bool" where
  "map_list_missing v \<longleftrightarrow> XListType (attrs (visit_schema v)) \<noteq> Some ''map''"

definition type_key_missing :: "visit \<Rightarrow> bool" where
  "type_key_missing v \<longleftrightarrow> XListMapKeys (attrs (visit_schema v)) \<noteq> [''type'']"

text \<open>A node at which the predicate does not panic.\<close>

definition condition_safe :: "visit \<Rightarrow> bool" where
  "condition_safe v \<longleftrightarrow> \<not> conditions_array v \<or> condition_errors v \<noteq> None"

definition conditions_collected :: "visit list \<Rightarrow> conditions_vars" where
  "conditions_collected vs =
     \<lparr> conditionsWithoutMapListType =
         map loc_string (filter (\<lambda>v. conditions_array v \<and> map_list_missing v) vs),
       conditionsWithoutListMapKeysType =
         map loc_string (filter (\<lambda>v. conditions_array v \<and> type_key_missing v) vs),
       invalidConditionsProperties =
         concat (map (\<lambda>v. case condition_errors v of None \<Rightarrow> [] | Some errs \<Rightarrow> errs)
           (filter conditions_array vs)) \<rparr>"

definition conditions_ok :: "CRD \<Rightarrow> bool" where
  "conditions_ok c \<longleftrightarrow> crd_ok c \<and> list_all (\<lambda>v. list_all condition_safe (version_nodes v)) (Versions c)"

definition conditions_join :: "conditions_vars \<Rightarrow> conditions_vars \<Rightarrow> conditions_vars" where
  "conditions_join a b =
     \<lparr> conditionsWithoutMapListType = conditionsWithoutMapListType a @ conditionsWithoutMapListType b,
       conditionsWithoutListMapKeysType = conditionsWithoutListMapKeysType a @ conditionsWithoutListMapKeysType b,
       invalidConditionsProperties = invalidConditionsProperties a @ invalidConditionsProperties b \<rparr>"

lemma conditions_pred_visit:
  "visit_run conditions_pred v vars =
     (if condition_safe v then Some (False, conditions_join vars (conditions_collected [v])) else None)"
proof (cases "conditions_array v")
  case False
  then show ?thesis
    by (auto simp: visit_run_def conditions_pred_def conditions_array_def condition_safe_def
        conditions_join_def conditions_collected_def loc_string_def)
next
  case True
  note array = True [unfolded conditions_array_def loc_string_def]
  show ?thesis
  proof (cases "condition_errors v")
    case None
    with array show ?thesis
      by (auto simp: visit_run_def conditions_pred_def condition_safe_def conditions_array_def
          loc_string_def condition_errors_def bind_eq_None_conv)
  next
    case (Some errs)
    then obtain ps where ps: "item_properties (visit_schema v) = Some ps"
      and errs: "validateConditionProperties ps = Some errs"
      by (auto simp: condition_errors_def bind_eq_Some_conv)
    show ?thesis
      using array Some
      by (cases vars) (simp add: visit_run_def conditions_pred_def ps errs condition_safe_def
          conditions_array_def loc_string_def conditions_join_def conditions_collected_def Let_def
          map_list_missing_def type_key_missing_def)
  qed
qed

lemma conditions_join_collected:
  "conditions_join (conditions_join vars (conditions_collected [v])) (conditions_collected vs) =
   conditions_join vars (conditions_collected (v # vs))"
  by (simp add: conditions_join_def conditions_collected_def)

lemma conditions_join_empty [simp]:
  "conditions_join vars (conditions_collected []) = vars"
  "conditions_join no_conditions_vars vars = vars"
  by (simp_all add: conditions_join_def conditions_collected_def no_conditions_vars_def)

lemma conditions_run:
  "range_until (visit_run conditions_pred) vs vars =
     (if list_all condition_safe vs then Some (False, conditions_join vars (conditions_collected vs)) else None)"
  by (induction vs arbitrary: vars) (simp_all add: conditions_pred_visit conditions_join_collected)

lemma conditions_loop:
  "range_do (\<lambda>newVersion errsToReport. do {
       schema \<leftarrow> version_schema newVersion;
       (_, vars) \<leftarrow> walk_schema conditions_pred schema no_conditions_vars;
       Some (errsToReport @ conditions_messages c (version_Name newVersion) vars)
     }) vs errs =
   (if list_all (\<lambda>v. has_schema v \<and> list_all condition_safe (version_nodes v)) vs
    then Some (errs @ concat (map (\<lambda>v. conditions_messages c (version_Name v)
      (conditions_collected (version_nodes v))) vs))
    else None)"
  by (induction vs arbitrary: errs)
    (auto simp: walk_schema_visits conditions_run version_schema_def has_schema_def version_nodes_def
      split: option.splits)

lemma conditions_Validate_eq:
  "conditions_Validate c =
     (if conditions_ok c
      then Some (Inr \<lparr> Name = conditions_Name, WhyItMatters = conditions_WhyItMatters,
        Errors = concat (map (\<lambda>v. conditions_messages (crd_Name c) (version_Name v)
          (conditions_collected (version_nodes v))) (Versions c)), Warnings = [], Infos = [] \<rparr>)
      else None)"
  unfolding conditions_Validate_def
  by (subst conditions_loop) (auto simp: conditions_ok_def crd_ok_def list_all_iff)

interpretation conditions:
  crd_validator conditions_Validate conditions_Name conditions_WhyItMatters conditions_ok
  by unfold_locales
    (auto simp: conditions_Validate_eq no_messages_def conditions_ok_def split: if_splits)

lemma condition_safe_iff:
  "condition_safe v \<longleftrightarrow> (conditions_array v \<longrightarrow>
     (\<exists>ps. item_properties (visit_schema v) = Some ps \<and> (condition_complete ps \<longrightarrow> condition_pointers ps)))"
  using validateConditionProperties_None_iff
  by (cases "item_properties (visit_schema v)") (auto simp: condition_safe_def condition_errors_def)

lemma condition_accepted_iff:
  "condition_errors v = Some [] \<longleftrightarrow>
   (\<exists>ps. item_properties (visit_schema v) = Some ps \<and> standard_condition ps)"
  by (auto simp: condition_errors_def bind_eq_Some_conv validateConditionProperties_Nil_iff)

section \<open>Properties\<close>

text \<open>
  C26. \<open>Validate\<close> panics in three cases and no other: a version has no schema, a list of conditions
  has no item schema, or its items declare all six condition properties while one of \<open>type\<close>,
  \<open>reason\<close>, \<open>message\<close> has no \<open>maxLength\<close> or \<open>observedGeneration\<close> no \<open>minimum\<close>.
\<close>

theorem conditions_panics_iff:
  "conditions_Validate c = None \<longleftrightarrow>
     (\<exists>v\<in>set (Versions c). Schema v = None \<or>
        (\<exists>n\<in>set (version_nodes v). conditions_array n \<and>
           (item_properties (visit_schema n) = None \<or>
            (\<exists>ps. item_properties (visit_schema n) = Some ps \<and> condition_complete ps \<and> \<not> condition_pointers ps))))"
proof -
  have unsafe: "\<not> condition_safe n \<longleftrightarrow> conditions_array n \<and> (item_properties (visit_schema n) = None \<or>
      (\<exists>ps. item_properties (visit_schema n) = Some ps \<and> condition_complete ps \<and> \<not> condition_pointers ps))" for n
    by (cases "item_properties (visit_schema n)") (simp_all add: condition_safe_iff)
  have "conditions_Validate c = None \<longleftrightarrow>
      (\<exists>v\<in>set (Versions c). \<not> has_schema v \<or> (\<exists>n\<in>set (version_nodes v). \<not> condition_safe n))"
    by (auto simp: conditions_Validate_eq conditions_ok_def crd_ok_def list_all_iff)
  then show ?thesis by (simp only: unsafe has_schema_def not_not)
qed

text \<open>
  C27. It returns without a message exactly when every version has a schema and every list of
  conditions is a map keyed by type whose items are the standard condition: the patterns and
  lengths of \<open>type\<close> and \<open>reason\<close>, the three values of \<open>status\<close>, a date-time, a minimum of zero.
\<close>

theorem conditions_accepts_iff:
  "accepts (conditions_Validate c) \<longleftrightarrow> crd_ok c \<and>
     (\<forall>v\<in>set (Versions c). \<forall>n\<in>set (version_nodes v). conditions_array n \<longrightarrow>
        (\<exists>ps. item_properties (visit_schema n) = Some ps \<and> standard_condition ps) \<and>
        XListType (attrs (visit_schema n)) = Some ''map'' \<and> XListMapKeys (attrs (visit_schema n)) = [''type''])"
proof -
  have empty: "conditions_messages k name (conditions_collected vs) = [] \<longleftrightarrow>
      (\<forall>n\<in>set vs. conditions_array n \<longrightarrow>
         (case condition_errors n of None \<Rightarrow> True | Some errs \<Rightarrow> errs = []) \<and>
         \<not> map_list_missing n \<and> \<not> type_key_missing n)" for k name vs
    by (auto simp: conditions_messages_def conditions_collected_def filter_empty_conv split: option.splits)
  have node: "condition_safe n \<and> (conditions_array n \<longrightarrow>
         (case condition_errors n of None \<Rightarrow> True | Some errs \<Rightarrow> errs = []) \<and>
         \<not> map_list_missing n \<and> \<not> type_key_missing n) \<longleftrightarrow>
      (conditions_array n \<longrightarrow>
        (\<exists>ps. item_properties (visit_schema n) = Some ps \<and> standard_condition ps) \<and>
        XListType (attrs (visit_schema n)) = Some ''map'' \<and> XListMapKeys (attrs (visit_schema n)) = [''type''])" for n
    unfolding condition_accepted_iff [symmetric]
    by (cases "condition_errors n") (auto simp: condition_safe_def map_list_missing_def type_key_missing_def)
  have "accepts (conditions_Validate c) \<longleftrightarrow> conditions_ok c \<and>
      (\<forall>v\<in>set (Versions c). conditions_messages (crd_Name c) (version_Name v) (conditions_collected (version_nodes v)) = [])"
    by (simp add: accepts_def no_messages_def conditions_Validate_eq)
  then show ?thesis
    unfolding empty conditions_ok_def list_all_iff node [symmetric] by blast
qed

definition standard_properties :: "(string \<times> JSONSchemaProps) list" where
  "standard_properties =
     [(''type'', leaf_schema ((typed ''string'')\<lparr>Pattern := type_expectedPattern, MaxLength := Some 316\<rparr>)),
      (''reason'', leaf_schema ((typed ''string'')\<lparr>Pattern := reason_expectedPattern, MaxLength := Some 1024\<rparr>)),
      (''status'', enum_field [''\"True\"'', ''\"False\"'', ''\"Unknown\"'']),
      (''lastTransitionTime'', leaf_schema ((typed ''string'')\<lparr>Format := ''date-time''\<rparr>)),
      (''observedGeneration'', leaf_schema ((typed ''integer'')\<lparr>Minimum := Some 0\<rparr>)),
      (''message'', leaf_schema ((typed ''string'')\<lparr>MaxLength := Some 32768\<rparr>))]"

definition conditions_widgets :: "(string \<times> JSONSchemaProps) list \<Rightarrow> CRD" where
  "conditions_widgets ps =
     widgets (widget_object [(''status'', object_schema zero_attrs
       [(''conditions'', array_schema (zero_attrs\<lparr>XListType := Some ''map'', XListMapKeys := [''type'']\<rparr>)
          (object_schema zero_attrs ps))])])"

theorem conditions_accepts_iff_witness:
  "accepts (conditions_Validate (conditions_widgets standard_properties)) \<and>
   \<not> accepts (conditions_Validate (conditions_widgets [(''type'', string_field)]))"
proof -
  have option: "(\<exists>ps. x = Some ps \<and> p ps) \<longleftrightarrow> (case x of None \<Rightarrow> False | Some ps \<Rightarrow> p ps)"
    for x :: "(string \<times> JSONSchemaProps) list option" and p
    by (cases x) simp_all
  have "crd_ok (conditions_widgets standard_properties) \<and>
      (\<forall>v\<in>set (Versions (conditions_widgets standard_properties)). \<forall>n\<in>set (version_nodes v). conditions_array n \<longrightarrow>
        (\<exists>ps. item_properties (visit_schema n) = Some ps \<and> standard_condition ps) \<and>
        XListType (attrs (visit_schema n)) = Some ''map'' \<and> XListMapKeys (attrs (visit_schema n)) = [''type''])"
    unfolding option by code_simp
  moreover have "\<not> (\<forall>v\<in>set (Versions (conditions_widgets [(''type'', string_field)])). \<forall>n\<in>set (version_nodes v). conditions_array n \<longrightarrow>
        (\<exists>ps. item_properties (visit_schema n) = Some ps \<and> standard_condition ps) \<and>
        XListType (attrs (visit_schema n)) = Some ''map'' \<and> XListMapKeys (attrs (visit_schema n)) = [''type''])"
    unfolding option by code_simp
  ultimately show ?thesis
    using conditions_accepts_iff [of "conditions_widgets standard_properties"]
      conditions_accepts_iff [of "conditions_widgets [(''type'', string_field)]"] by blast
qed

end
