(* ===== verification/Version_Comparators.thy ===== *)
theory Version_Comparators
  imports Comparators
begin

text \<open>
  The frame shared by the comparators that set a version of the new CRD against the version of
  the same name of the existing one (\<open>comp_no_field_removal.go\<close>, \<open>comp_no_enum_removal.go\<close>,
  \<open>comp_no_data_type_change.go\<close>, \<open>comp_no_new_required_fields.go\<close>): nothing is reported without
  an existing CRD, a version that is new is skipped, and the messages of the other versions are
  concatenated. What one version reports is the parameter \<open>check\<close>.
\<close>

type_synonym version_check = "string \<Rightarrow> CRDVersion \<Rightarrow> CRDVersion \<Rightarrow> string list go"

definition version_loop :: "version_check \<Rightarrow> CRD \<Rightarrow> CRD \<Rightarrow> string list go" where
  "version_loop check existingCRD newCRD =
     range_do (\<lambda>newVersion errsToReport.
       case GetVersionByName (Some existingCRD) (version_Name newVersion) of
         None \<Rightarrow> Some errsToReport
       | Some existingVersion \<Rightarrow> do {
           errs \<leftarrow> check (crd_Name newCRD) existingVersion newVersion;
           Some (errsToReport @ errs)
         }) (Versions newCRD) []"

text \<open>The versions that are compared: each new version with the existing one of its name.\<close>

definition version_pairs :: "CRD \<Rightarrow> CRD \<Rightarrow> (CRDVersion \<times> CRDVersion) list" where
  "version_pairs e n =
     concat (map (\<lambda>v. case GetVersionByName (Some e) (version_Name v) of None \<Rightarrow> [] | Some u \<Rightarrow> [(u, v)])
       (Versions n))"

definition check_messages :: "version_check \<Rightarrow> CRD \<Rightarrow> CRD \<Rightarrow> string list" where
  "check_messages check e n =
     concat (map (\<lambda>(u, v). case check (crd_Name n) u v of None \<Rightarrow> [] | Some errs \<Rightarrow> errs) (version_pairs e n))"

lemma check_messages_iff:
  "m \<in> set (check_messages check e n) \<longleftrightarrow>
   (\<exists>(u, v)\<in>set (version_pairs e n). \<exists>errs. check (crd_Name n) u v = Some errs \<and> m \<in> set errs)"
  by (force simp: check_messages_def split: option.splits)

lemma version_loop_eq:
  "version_loop check e n =
     (if list_all (\<lambda>(u, v). check (crd_Name n) u v \<noteq> None) (version_pairs e n)
      then Some (check_messages check e n) else None)"
proof -
  have "range_do (\<lambda>v errs. case GetVersionByName (Some e) (version_Name v) of None \<Rightarrow> Some errs
          | Some u \<Rightarrow> do { es \<leftarrow> check k u v; Some (errs @ es) }) vs errs =
     (let ps = concat (map (\<lambda>v. case GetVersionByName (Some e) (version_Name v) of None \<Rightarrow> [] | Some u \<Rightarrow> [(u, v)]) vs)
      in if list_all (\<lambda>(u, v). check k u v \<noteq> None) ps
         then Some (errs @ concat (map (\<lambda>(u, v). case check k u v of None \<Rightarrow> [] | Some es \<Rightarrow> es) ps))
         else None)" for k vs errs
    by (induction vs arbitrary: errs) (auto simp: Let_def split: option.splits)
  then show ?thesis
    by (simp add: version_loop_def version_pairs_def check_messages_def Let_def)
qed

lemma version_pairs_iff:
  "(u, v) \<in> set (version_pairs e n) \<longleftrightarrow>
   v \<in> set (Versions n) \<and> GetVersionByName (Some e) (version_Name v) = Some u"
  by (auto simp: version_pairs_def split: option.splits)

lemma version_pairs_existing:
  "(u, v) \<in> set (version_pairs e n) \<Longrightarrow>
   u \<in> set (Versions e) \<and> v \<in> set (Versions n) \<and> version_Name u = version_Name v"
  by (auto simp: version_pairs_iff dest: GetVersionByName_Some)

lemma version_pairs_empty [simp]: "version_pairs empty_crd n = []"
  by (simp add: version_pairs_def)

definition unique_versions :: "CRD \<Rightarrow> bool" where
  "unique_versions c \<longleftrightarrow> distinct (map version_Name (Versions c))"

lemma version_pairs_self:
  "unique_versions c \<Longrightarrow> (u, v) \<in> set (version_pairs c c) \<Longrightarrow> u = v"
  by (auto simp: version_pairs_iff unique_versions_def GetVersionByName_self)

definition settled_crd :: "(CRDVersion \<Rightarrow> bool) \<Rightarrow> CRD \<Rightarrow> bool" where
  "settled_crd settled c \<longleftrightarrow> unique_versions c \<and> list_all settled (Versions c)"

text \<open>
  The contract of these comparators. The check returns on versions with a schema, and reports
  nothing about a version compared with itself when that version is \<open>settled\<close>.
\<close>

locale version_comparator =
  fixes compare_crds :: compare_fun
    and cname why :: string
    and check :: version_check
    and settled :: "CRDVersion \<Rightarrow> bool"
  assumes compare_eq: "compare_crds existing new =
    (case existing of
       None \<Rightarrow> Some (Inr \<lparr> Name = cname, WhyItMatters = why, Errors = [], Warnings = [], Infos = [] \<rparr>)
     | Some e \<Rightarrow> do {
         errs \<leftarrow> version_loop check e new;
         Some (Inr \<lparr> Name = cname, WhyItMatters = why, Errors = errs, Warnings = [], Infos = [] \<rparr>)
       })"
    and check_returns: "has_schema u \<Longrightarrow> has_schema v \<Longrightarrow> \<exists>errs. check k u v = Some errs"
    and check_settled: "has_schema v \<Longrightarrow> settled v \<Longrightarrow> check k v v = Some []"
begin

lemma pairs_return:
  "crd_ok e \<Longrightarrow> crd_ok n \<Longrightarrow> version_loop check e n = Some (check_messages check e n)"
  by (auto simp: version_loop_eq crd_ok_def list_all_iff dest!: version_pairs_existing
      intro: check_returns)

lemma compare_some:
  assumes "crd_ok e" and "crd_ok n"
  shows "compare_crds (Some e) n = Some (Inr \<lparr> Name = cname, WhyItMatters = why,
    Errors = check_messages check e n, Warnings = [], Infos = [] \<rparr>)"
  using assms by (simp add: compare_eq pairs_return)

lemma compare_created: "compare_crds (Some empty_crd) n = compare_crds None n"
  by (simp add: compare_eq version_loop_eq check_messages_def)

lemma messages_settled:
  assumes "crd_ok c" and "settled_crd settled c"
  shows "check_messages check c c = []"
proof -
  have "check (crd_Name c) u v = Some []" if "(u, v) \<in> set (version_pairs c c)" for u v
    using that assms version_pairs_self [of c u v] version_pairs_existing [of u v c c]
    by (auto simp: settled_crd_def crd_ok_def list_all_iff intro: check_settled)
  then show ?thesis by (auto simp: check_messages_def)
qed

end

sublocale version_comparator \<subseteq> versioned: crd_comparator compare_crds cname why crd_ok "settled_crd settled"
proof unfold_locales
  show "\<exists>r. compare_crds existing new = Some (Inr r)" if "pred_option crd_ok existing" "crd_ok new" for existing new
    using that compare_eq [of None new] by (cases existing) (simp_all add: compare_some)
  show "Name r = cname \<and> WhyItMatters r = why" if "compare_crds existing new = Some (Inr r)" for existing new r
    using that by (auto simp: compare_eq bind_eq_Some_conv split: option.splits)
  show "compare_crds existing new \<noteq> Some (Inl err)" for existing new err
    by (auto simp: compare_eq bind_eq_Some_conv split: option.splits)
  show "Errors r = []" if "crd_ok c" "settled_crd settled c" "compare_crds (Some c) c = Some (Inr r)" for c r
    using that by (auto simp: compare_some messages_settled)
qed

end
