(* ===== verification/Removal_Comparators.thy ===== *)
theory Removal_Comparators
  imports Version_Comparators Examples
begin

text \<open>
  \<open>comp_no_field_removal.go\<close>, \<open>comp_no_enum_removal.go\<close> and \<open>comp_no_data_type_change.go\<close>: each
  collects a table from both versions and reports what the new one lost. The lemmas say what
  the tables hold in terms of the visited nodes: the set of locations, the union of the enum
  values at a location, and the type of the node visited last at a location.
\<close>

section \<open>NoFieldRemoval\<close>

definition noFieldRemoval_Name :: string where
  "noFieldRemoval_Name = ''NoFieldRemoval''"

definition noFieldRemoval_WhyItMatters :: string where
  "noFieldRemoval_WhyItMatters =
     ''If fields are removed, then clients that rely on those fields will not be able to read them or write them.''"

definition getFields_pred :: "strset walker" where
  "getFields_pred s fldPath simpleLocation ancestry fieldSet =
     Some (False, sets_Insert fieldSet [path_String simpleLocation])"

definition getFields :: "CRDVersion \<Rightarrow> strset go" where
  "getFields version = do {
     schema \<leftarrow> version_schema version;
     (_, fieldSet) \<leftarrow> walk_schema getFields_pred schema (sets_NewString []);
     Some fieldSet
   }"

definition noFieldRemoval_message :: "string \<Rightarrow> string \<Rightarrow> string \<Rightarrow> string" where
  "noFieldRemoval_message crd version removedField =
     ''crd/'' @ crd @ '' version/'' @ version @ '' field/'' @ removedField @ '' may not be removed''"

definition noFieldRemoval_version :: version_check where
  "noFieldRemoval_version crd existingVersion newVersion = do {
     existingFields \<leftarrow> getFields existingVersion;
     newFields \<leftarrow> getFields newVersion;
     let removedFields = sets_Difference existingFields newFields;
     Some (map (noFieldRemoval_message crd (version_Name newVersion)) (sets_List removedFields))
   }"

definition noFieldRemoval_Compare :: compare_fun where
  "noFieldRemoval_Compare existingCRD newCRD =
     (case existingCRD of
        None \<Rightarrow> Some (Inr \<lparr> Name = noFieldRemoval_Name, WhyItMatters = noFieldRemoval_WhyItMatters,
          Errors = [], Warnings = [], Infos = [] \<rparr>)
      | Some existing \<Rightarrow> do {
          errsToReport \<leftarrow> version_loop noFieldRemoval_version existing newCRD;
          Some (Inr \<lparr> Name = noFieldRemoval_Name, WhyItMatters = noFieldRemoval_WhyItMatters,
            Errors = errsToReport, Warnings = [], Infos = [] \<rparr>)
        })"

definition NoFieldRemoval :: CRDComparator where
  "NoFieldRemoval = \<lparr> comparator_Name = noFieldRemoval_Name,
     comparator_Why = noFieldRemoval_WhyItMatters, Compare = noFieldRemoval_Compare \<rparr>"

section \<open>NoEnumRemoval\<close>

definition noEnumRemoval_Name :: string where
  "noEnumRemoval_Name = ''NoEnumRemoval''"

definition noEnumRemoval_WhyItMatters :: string where
  "noEnumRemoval_WhyItMatters =
     ''If enums are removed, then clients that use those enum values will not be able to upgrade to the newest CRD.''"

text \<open>One iteration of the loop over \<open>s.Enum\<close>; the map value is a set shared by reference.\<close>

definition add_enum :: "string \<Rightarrow> JSON \<Rightarrow> (string \<times> strset) list \<Rightarrow> (string \<times> strset) list" where
  "add_enum loc enum enumsMap =
     (let enumsMap = (case map_of enumsMap loc of None \<Rightarrow> AList.update loc (sets_NewString []) enumsMap | Some _ \<Rightarrow> enumsMap)
      in case map_of enumsMap loc of
           None \<Rightarrow> enumsMap
         | Some values \<Rightarrow> AList.update loc (sets_Insert values [Raw enum]) enumsMap)"

definition getEnums_pred :: "(string \<times> strset) list walker" where
  "getEnums_pred s fldPath simpleLocation ancestry enumsMap =
     Some (False, fold (add_enum (path_String simpleLocation)) (Enum (attrs s)) enumsMap)"

definition getEnums :: "CRDVersion \<Rightarrow> (string \<times> strset) list go" where
  "getEnums version = do {
     schema \<leftarrow> version_schema version;
     (_, enumsMap) \<leftarrow> walk_schema getEnums_pred schema [];
     Some enumsMap
   }"

definition noEnumRemoval_message :: "string \<Rightarrow> string \<Rightarrow> string \<Rightarrow> string \<Rightarrow> string" where
  "noEnumRemoval_message crd version fld removedEnum =
     ''crd/'' @ crd @ '' version/'' @ version @ '' enum/'' @ removedEnum @ '' may not be removed for field/'' @ fld"

definition noEnumRemoval_version :: version_check where
  "noEnumRemoval_version crd existingVersion newVersion = do {
     existingEnumsMap \<leftarrow> getEnums existingVersion;
     newEnumsMap \<leftarrow> getEnums newVersion;
     Some (concat (map (\<lambda>(fld, existingEnums).
       case map_of newEnumsMap fld of
         None \<Rightarrow> []
       | Some newEnums \<Rightarrow>
           (let removedEnums = sets_Difference existingEnums newEnums
            in map (noEnumRemoval_message crd (version_Name newVersion) fld) (sets_List removedEnums)))
       existingEnumsMap))
   }"

definition noEnumRemoval_Compare :: compare_fun where
  "noEnumRemoval_Compare existingCRD newCRD =
     (case existingCRD of
        None \<Rightarrow> Some (Inr \<lparr> Name = noEnumRemoval_Name, WhyItMatters = noEnumRemoval_WhyItMatters,
          Errors = [], Warnings = [], Infos = [] \<rparr>)
      | Some existing \<Rightarrow> do {
          errsToReport \<leftarrow> version_loop noEnumRemoval_version existing newCRD;
          Some (Inr \<lparr> Name = noEnumRemoval_Name, WhyItMatters = noEnumRemoval_WhyItMatters,
            Errors = errsToReport, Warnings = [], Infos = [] \<rparr>)
        })"

definition NoEnumRemoval :: CRDComparator where
  "NoEnumRemoval = \<lparr> comparator_Name = noEnumRemoval_Name,
     comparator_Why = noEnumRemoval_WhyItMatters, Compare = noEnumRemoval_Compare \<rparr>"

section \<open>NoDataTypeChange\<close>

definition noDataTypeChange_Name :: string where
  "noDataTypeChange_Name = ''NoDataTypeChange''"

definition noDataTypeChange_WhyItMatters :: string where
  "noDataTypeChange_WhyItMatters =
     ''If the data type of fields are changed, then clients that rely on those fields will not be able to read them or write them.''"

definition getFieldsAndTypes_pred :: "(string \<times> string) list walker" where
  "getFieldsAndTypes_pred s fldPath simpleLocation ancestry fieldsAndTypes =
     Some (False, AList.update (path_String simpleLocation) (Type (attrs s)) fieldsAndTypes)"

definition getFieldsAndTypes :: "CRDVersion \<Rightarrow> (string \<times> string) list go" where
  "getFieldsAndTypes version = do {
     schema \<leftarrow> version_schema version;
     (_, fieldsAndTypes) \<leftarrow> walk_schema getFieldsAndTypes_pred schema [];
     Some fieldsAndTypes
   }"

record TypeChange =
  ExistingType :: string
  NewType :: string

definition getChangedTypes ::
  "(string \<times> string) list \<Rightarrow> (string \<times> string) list \<Rightarrow> (string \<times> TypeChange) list" where
  "getChangedTypes existingFieldsAndTypes newFieldsAndTypes =
     fold (\<lambda>(existingField, existingType) changedTypes.
         case map_of newFieldsAndTypes existingField of
           None \<Rightarrow> changedTypes
         | Some newType \<Rightarrow>
             if existingType \<noteq> newType
             then AList.update existingField \<lparr> ExistingType = existingType, NewType = newType \<rparr> changedTypes
             else changedTypes)
       existingFieldsAndTypes []"

definition noDataTypeChange_message :: "string \<Rightarrow> string \<Rightarrow> string \<Rightarrow> TypeChange \<Rightarrow> string" where
  "noDataTypeChange_message crd version changedField changedType =
     ''crd/'' @ crd @ '' version/'' @ version @ '' data type of field/'' @ changedField @
     '' may not be changed from '' @ ExistingType changedType @ '' to '' @ NewType changedType"

definition noDataTypeChange_version :: version_check where
  "noDataTypeChange_version crd existingVersion newVersion = do {
     existingFieldsAndTypes \<leftarrow> getFieldsAndTypes existingVersion;
     newFieldsAndTypes \<leftarrow> getFieldsAndTypes newVersion;
     let changedTypes = getChangedTypes existingFieldsAndTypes newFieldsAndTypes;
     Some (map (\<lambda>(changedField, changedType).
       noDataTypeChange_message crd (version_Name newVersion) changedField changedType) changedTypes)
   }"

definition noDataTypeChange_Compare :: compare_fun where
  "noDataTypeChange_Compare existingCRD newCRD =
     (case existingCRD of
        None \<Rightarrow> Some (Inr \<lparr> Name = noDataTypeChange_Name, WhyItMatters = noDataTypeChange_WhyItMatters,
          Errors = [], Warnings = [], Infos = [] \<rparr>)
      | Some existing \<Rightarrow> do {
          errsToReport \<leftarrow> version_loop noDataTypeChange_version existing newCRD;
          Some (Inr \<lparr> Name = noDataTypeChange_Name, WhyItMatters = noDataTypeChange_WhyItMatters,
            Errors = errsToReport, Warnings = [], Infos = [] \<rparr>)
        })"

definition NoDataTypeChange :: CRDComparator where
  "NoDataTypeChange = \<lparr> comparator_Name = noDataTypeChange_Name,
     comparator_Why = noDataTypeChange_WhyItMatters, Compare = noDataTypeChange_Compare \<rparr>"

section \<open>The tables in terms of the visited nodes\<close>

text \<open>The locations of a version, the enum values at a location, the type recorded for it.\<close>

definition locations :: "visit list \<Rightarrow> string set" where
  "locations vs = loc_string ` set vs"

definition enums_at :: "visit list \<Rightarrow> string \<Rightarrow> string set" where
  "enums_at vs loc = (\<Union>v\<in>{v \<in> set vs. loc_string v = loc}. Raw ` set (Enum (attrs (visit_schema v))))"

definition recorded_type :: "visit list \<Rightarrow> string \<Rightarrow> string option" where
  "recorded_type vs loc =
     map_option (\<lambda>v. Type (attrs (visit_schema v))) (find (\<lambda>v. loc_string v = loc) (rev vs))"

interpretation getFields_walk: folding_walker getFields_pred "\<lambda>v. insert (loc_string v)"
  by unfold_locales (simp add: visit_run_def getFields_pred_def loc_string_def sets_defs)

lemma getFields_eq:
  "getFields v = (if has_schema v then Some (locations (version_nodes v)) else None)"
proof -
  have "fold (\<lambda>v. insert (loc_string v)) vs acc = acc \<union> locations vs" for vs acc
    by (induction vs arbitrary: acc) (auto simp: locations_def)
  then show ?thesis
    by (auto simp: getFields_def version_schema_def has_schema_def version_nodes_def sets_defs
        getFields_walk.walk_folds split: option.splits)
qed

lemma finite_locations [simp]: "finite (locations vs)"
  by (simp add: locations_def)

lemma noFieldRemoval_version_eq:
  "noFieldRemoval_version c u v =
     (if has_schema u \<and> has_schema v
      then Some (map (noFieldRemoval_message c (version_Name v))
        (sets_List (locations (version_nodes u) - locations (version_nodes v))))
      else None)"
  by (simp add: noFieldRemoval_version_def getFields_eq sets_Difference_def)

interpretation noFieldRemoval: version_comparator noFieldRemoval_Compare noFieldRemoval_Name
    noFieldRemoval_WhyItMatters noFieldRemoval_version "\<lambda>_. True"
  by unfold_locales (auto simp: noFieldRemoval_Compare_def noFieldRemoval_version_eq)

section \<open>Enum tables\<close>

lemma add_enum_eq:
  "add_enum loc enum m =
     AList.update loc (insert (Raw enum) (case map_of m loc of None \<Rightarrow> {} | Some values \<Rightarrow> values)) m"
  by (auto simp: add_enum_def Let_def sets_defs AList.update_conv' split: option.split)

text \<open>
  What the walk keeps true of the table: no key occurs twice, a location is a key exactly when
  some enum value was seen there, and its value is the set of those seen.
\<close>

definition enum_table :: "visit list \<Rightarrow> (string \<times> strset) list \<Rightarrow> bool" where
  "enum_table vs m \<longleftrightarrow> distinct (map fst m) \<and>
     (\<forall>loc. map_of m loc = (if enums_at vs loc = {} then None else Some (enums_at vs loc)))"

lemma enums_at_simps [simp]:
  "enums_at [] loc = {}"
  "enums_at (vs @ [v]) loc =
     (if loc_string v = loc then enums_at vs loc \<union> Raw ` set (Enum (attrs (visit_schema v))) else enums_at vs loc)"
  by (auto simp: enums_at_def)

lemma finite_enums_at [simp]: "finite (enums_at vs loc)"
  by (simp add: enums_at_def)

lemma fold_add_enum:
  assumes "distinct (map fst m)"
  shows "distinct (map fst (fold (add_enum loc) es m)) \<and>
    map_of (fold (add_enum loc) es m) =
      (if es = [] then map_of m
       else (map_of m)(loc \<mapsto> Raw ` set es \<union> (case map_of m loc of None \<Rightarrow> {} | Some s \<Rightarrow> s)))"
  using assms
proof (induction es arbitrary: m)
  case Nil
  then show ?case by simp
next
  case (Cons e es)
  have "distinct (map fst (add_enum loc e m))"
    using Cons.prems by (simp add: add_enum_eq AList.distinct_update)
  from Cons.IH [OF this] show ?case
    by (auto simp: add_enum_eq AList.update_conv' split: option.split)
qed

lemma enum_table_step:
  assumes "enum_table vs m"
  shows "enum_table (vs @ [v]) (fold (add_enum (loc_string v)) (Enum (attrs (visit_schema v))) m)"
  using assms fold_add_enum [of m "loc_string v" "Enum (attrs (visit_schema v))"]
  by (auto simp: enum_table_def split: option.split)

interpretation getEnums_walk: folding_walker getEnums_pred
    "\<lambda>v. fold (add_enum (loc_string v)) (Enum (attrs (visit_schema v)))"
  by unfold_locales (simp add: visit_run_def getEnums_pred_def loc_string_def)

lemma enum_table_fold:
  "enum_table us m \<Longrightarrow>
   enum_table (us @ vs) (fold (\<lambda>v. fold (add_enum (loc_string v)) (Enum (attrs (visit_schema v)))) vs m)"
proof (induction vs arbitrary: us m)
  case Nil
  then show ?case by simp
next
  case (Cons v vs)
  from Cons.IH [OF enum_table_step [OF Cons.prems]] show ?case by simp
qed

lemma getEnums_Some:
  assumes "has_schema v"
  shows "\<exists>m. getEnums v = Some m \<and> enum_table (version_nodes v) m"
proof -
  have "enum_table [] []" by (simp add: enum_table_def)
  from enum_table_fold [OF this] assms show ?thesis
    by (auto simp: getEnums_def version_schema_def has_schema_def version_nodes_def getEnums_walk.walk_folds)
qed

lemma getEnums_None: "\<not> has_schema v \<Longrightarrow> getEnums v = None"
  by (simp add: getEnums_def version_schema_def has_schema_def)

lemma enum_table_entry:
  assumes "enum_table vs m"
  shows "(fld, s) \<in> set m \<longleftrightarrow> s = enums_at vs fld \<and> s \<noteq> {}"
proof -
  from assms have "distinct (map fst m)" by (simp add: enum_table_def)
  from map_of_eq_Some_iff [OF this] have "(fld, s) \<in> set m \<longleftrightarrow> map_of m fld = Some s" by simp
  also from assms have "\<dots> \<longleftrightarrow> s = enums_at vs fld \<and> s \<noteq> {}"
    by (auto simp: enum_table_def)
  finally show ?thesis .
qed

text \<open>What one entry of the existing table contributes.\<close>

definition removed_enum_messages :: "string \<Rightarrow> CRDVersion \<Rightarrow> (string \<times> strset) list \<Rightarrow> string \<times> strset \<Rightarrow> string list" where
  "removed_enum_messages c v newEnumsMap = (\<lambda>(fld, existingEnums).
     case map_of newEnumsMap fld of
       None \<Rightarrow> []
     | Some newEnums \<Rightarrow>
         (let removedEnums = sets_Difference existingEnums newEnums
          in map (noEnumRemoval_message c (version_Name v) fld) (sets_List removedEnums)))"

lemma removed_enum_messages_set:
  assumes "enum_table vs n" and "finite s"
  shows "set (removed_enum_messages c v n (fld, s)) =
    (if enums_at vs fld = {} then {} else noEnumRemoval_message c (version_Name v) fld ` (s - enums_at vs fld))"
  using assms by (auto simp: removed_enum_messages_def enum_table_def Let_def sets_Difference_def)

definition enum_removal :: "CRDVersion \<Rightarrow> CRDVersion \<Rightarrow> string \<Rightarrow> string \<Rightarrow> bool" where
  "enum_removal u v fld e \<longleftrightarrow>
     e \<in> enums_at (version_nodes u) fld \<and> e \<notin> enums_at (version_nodes v) fld \<and>
     enums_at (version_nodes v) fld \<noteq> {}"

text \<open>A removed value is reported at a location that has enum values in both versions.\<close>

lemma noEnumRemoval_version_set:
  assumes "has_schema u" and "has_schema v"
  shows "\<exists>errs. noEnumRemoval_version c u v = Some errs \<and>
    (\<forall>m. m \<in> set errs \<longleftrightarrow>
      (\<exists>fld e. enum_removal u v fld e \<and> m = noEnumRemoval_message c (version_Name v) fld e))"
proof -
  obtain em where em: "getEnums u = Some em" "enum_table (version_nodes u) em"
    using getEnums_Some [OF assms(1)] by blast
  obtain nm where nm: "getEnums v = Some nm" "enum_table (version_nodes v) nm"
    using getEnums_Some [OF assms(2)] by blast
  have "noEnumRemoval_version c u v = Some (concat (map (removed_enum_messages c v nm) em))"
    by (simp add: noEnumRemoval_version_def em(1) nm(1) removed_enum_messages_def)
  moreover have "m \<in> set (concat (map (removed_enum_messages c v nm) em)) \<longleftrightarrow>
      (\<exists>fld e. enum_removal u v fld e \<and> m = noEnumRemoval_message c (version_Name v) fld e)" for m
  proof -
    have "m \<in> set (concat (map (removed_enum_messages c v nm) em)) \<longleftrightarrow>
        (\<exists>fld s. (fld, s) \<in> set em \<and> m \<in> set (removed_enum_messages c v nm (fld, s)))"
      by auto
    also have "\<dots> \<longleftrightarrow> (\<exists>fld. enums_at (version_nodes u) fld \<noteq> {} \<and>
        m \<in> set (removed_enum_messages c v nm (fld, enums_at (version_nodes u) fld)))"
      unfolding enum_table_entry [OF em(2)] by blast
    also have "\<dots> \<longleftrightarrow> (\<exists>fld e. enum_removal u v fld e \<and> m = noEnumRemoval_message c (version_Name v) fld e)"
      unfolding removed_enum_messages_set [OF nm(2) finite_enums_at] enum_removal_def
      by (auto split: if_splits)
    finally show ?thesis .
  qed
  ultimately show ?thesis by blast
qed

lemma noEnumRemoval_version_self:
  assumes "has_schema v"
  shows "noEnumRemoval_version c v v = Some []"
proof -
  have "\<not> enum_removal v v fld e" for fld e by (simp add: enum_removal_def)
  with noEnumRemoval_version_set [OF assms assms, of c] show ?thesis
    by (metis last_in_set)
qed

interpretation noEnumRemoval: version_comparator noEnumRemoval_Compare noEnumRemoval_Name
    noEnumRemoval_WhyItMatters noEnumRemoval_version "\<lambda>_. True"
proof unfold_locales
  show "\<exists>errs. noEnumRemoval_version k u v = Some errs" if "has_schema u" "has_schema v" for u v k
    using noEnumRemoval_version_set [OF that, of k] by blast
qed (simp_all add: noEnumRemoval_Compare_def noEnumRemoval_version_self)

section \<open>Type tables\<close>

definition type_table :: "visit list \<Rightarrow> (string \<times> string) list \<Rightarrow> bool" where
  "type_table vs m \<longleftrightarrow> distinct (map fst m) \<and> map_of m = recorded_type vs"

interpretation getFieldsAndTypes_walk: folding_walker getFieldsAndTypes_pred
    "\<lambda>v. AList.update (loc_string v) (Type (attrs (visit_schema v)))"
  by unfold_locales (simp add: visit_run_def getFieldsAndTypes_pred_def loc_string_def)

lemma recorded_type_simps [simp]:
  "recorded_type [] = Map.empty"
  "recorded_type (vs @ [v]) = (recorded_type vs)(loc_string v \<mapsto> Type (attrs (visit_schema v)))"
  by (auto simp: recorded_type_def fun_eq_iff)

lemma type_table_fold:
  "type_table us m \<Longrightarrow>
   type_table (us @ vs) (fold (\<lambda>v. AList.update (loc_string v) (Type (attrs (visit_schema v)))) vs m)"
proof (induction vs arbitrary: us m)
  case Nil
  then show ?case by simp
next
  case (Cons v vs)
  have "type_table (us @ [v]) (AList.update (loc_string v) (Type (attrs (visit_schema v))) m)"
    using Cons.prems by (simp add: type_table_def AList.distinct_update AList.update_conv')
  from Cons.IH [OF this] show ?case by simp
qed

lemma getFieldsAndTypes_Some:
  assumes "has_schema v"
  shows "\<exists>m. getFieldsAndTypes v = Some m \<and> type_table (version_nodes v) m"
proof -
  have "type_table [] []" by (simp add: type_table_def)
  from type_table_fold [OF this] assms show ?thesis
    by (auto simp: getFieldsAndTypes_def version_schema_def has_schema_def version_nodes_def
        getFieldsAndTypes_walk.walk_folds)
qed

text \<open>The change at a location, from the two tables.\<close>

definition type_change :: "(string \<Rightarrow> string option) \<Rightarrow> (string \<Rightarrow> string option) \<Rightarrow> string \<Rightarrow> TypeChange option" where
  "type_change old new fld =
     (case old fld of None \<Rightarrow> None | Some t \<Rightarrow>
       (case new fld of None \<Rightarrow> None | Some t' \<Rightarrow>
         if t \<noteq> t' then Some \<lparr> ExistingType = t, NewType = t' \<rparr> else None))"

lemma getChangedTypes_loop:
  assumes "distinct (map fst m)" and "distinct (map fst ch)" and "fst ` set m \<inter> fst ` set ch = {}"
  shows "distinct (map fst (fold (\<lambda>(existingField, existingType) changedTypes.
         case map_of n existingField of
           None \<Rightarrow> changedTypes
         | Some newType \<Rightarrow>
             if existingType \<noteq> newType
             then AList.update existingField \<lparr> ExistingType = existingType, NewType = newType \<rparr> changedTypes
             else changedTypes) m ch)) \<and>
    map_of (fold (\<lambda>(existingField, existingType) changedTypes.
         case map_of n existingField of
           None \<Rightarrow> changedTypes
         | Some newType \<Rightarrow>
             if existingType \<noteq> newType
             then AList.update existingField \<lparr> ExistingType = existingType, NewType = newType \<rparr> changedTypes
             else changedTypes) m ch) = map_of ch ++ type_change (map_of m) (map_of n)"
    (is "distinct (map fst (fold ?step m ch)) \<and> map_of (fold ?step m ch) = _")
  using assms
proof (induction m arbitrary: ch)
  case Nil
  then show ?case by (auto simp: type_change_def map_add_def)
next
  case (Cons p m)
  obtain fld t where p: "p = (fld, t)" by (cases p)
  have fresh: "map_of m fld = None" "map_of ch fld = None"
    using Cons.prems by (auto simp: p map_of_eq_None_iff)
  have "distinct (map fst (?step p ch))" "fst ` set m \<inter> fst ` set (?step p ch) = {}"
    using Cons.prems by (auto simp: p AList.distinct_update AList.dom_update split: option.split)
  with Cons.IH [of "?step p ch"] Cons.prems(1)
  have IH: "distinct (map fst (fold ?step m (?step p ch)))"
    "map_of (fold ?step m (?step p ch)) = map_of (?step p ch) ++ type_change (map_of m) (map_of n)"
    by simp_all
  have "map_of (?step p ch) ++ type_change (map_of m) (map_of n) =
      map_of ch ++ type_change (map_of (p # m)) (map_of n)"
    using fresh by (auto simp: p fun_eq_iff map_add_def type_change_def AList.update_conv' split: option.split)
  moreover have "fold ?step (p # m) ch = fold ?step m (?step p ch)" by simp
  ultimately show ?case using IH by (simp only:)
qed

lemma getChangedTypes_spec:
  assumes "distinct (map fst m)"
  shows "distinct (map fst (getChangedTypes m n))"
    and "map_of (getChangedTypes m n) = type_change (map_of m) (map_of n)"
  using getChangedTypes_loop [OF assms, of "[]" n] by (simp_all add: getChangedTypes_def)

lemma noDataTypeChange_version_set:
  assumes "has_schema u" and "has_schema v"
  shows "\<exists>errs. noDataTypeChange_version c u v = Some errs \<and>
    (\<forall>m. m \<in> set errs \<longleftrightarrow> (\<exists>fld ch.
      type_change (recorded_type (version_nodes u)) (recorded_type (version_nodes v)) fld = Some ch \<and>
      m = noDataTypeChange_message c (version_Name v) fld ch))"
proof -
  obtain em where em: "getFieldsAndTypes u = Some em" "distinct (map fst em)" "map_of em = recorded_type (version_nodes u)"
    using getFieldsAndTypes_Some [OF assms(1)] by (auto simp: type_table_def)
  obtain nm where nm: "getFieldsAndTypes v = Some nm" "map_of nm = recorded_type (version_nodes v)"
    using getFieldsAndTypes_Some [OF assms(2)] by (auto simp: type_table_def)
  have "(fld, ch) \<in> set (getChangedTypes em nm) \<longleftrightarrow>
      type_change (recorded_type (version_nodes u)) (recorded_type (version_nodes v)) fld = Some ch" for fld ch
    using getChangedTypes_spec [OF em(2), of nm] em(3) nm(2) by (metis map_of_eq_Some_iff)
  then show ?thesis
    by (force simp: noDataTypeChange_version_def em(1) nm(1))
qed

lemma noDataTypeChange_version_self:
  assumes "has_schema v"
  shows "noDataTypeChange_version c v v = Some []"
proof -
  have "type_change old old fld = None" for old fld by (simp add: type_change_def split: option.split)
  with noDataTypeChange_version_set [OF assms assms, of c] show ?thesis
    by (metis last_in_set option.distinct(1))
qed

interpretation noDataTypeChange: version_comparator noDataTypeChange_Compare noDataTypeChange_Name
    noDataTypeChange_WhyItMatters noDataTypeChange_version "\<lambda>_. True"
proof unfold_locales
  show "\<exists>errs. noDataTypeChange_version k u v = Some errs" if "has_schema u" "has_schema v" for u v k
    using noDataTypeChange_version_set [OF that, of k] by blast
qed (simp_all add: noDataTypeChange_Compare_def noDataTypeChange_version_self)

section \<open>Properties\<close>

text \<open>
  C28. \<open>NoFieldRemoval\<close> reports, for each new version that also exists in the old CRD, the locations
  of the old schema that the new one lost, each once and in the order of their names.
\<close>

theorem noFieldRemoval_reports:
  assumes "crd_ok existing" and "crd_ok new"
  shows "noFieldRemoval_Compare (Some existing) new =
    Some (Inr \<lparr> Name = noFieldRemoval_Name, WhyItMatters = noFieldRemoval_WhyItMatters,
      Errors = concat (map (\<lambda>(u, v). map (noFieldRemoval_message (crd_Name new) (version_Name v))
          (sorted_list_of_set (loc_string ` set (version_nodes u) - loc_string ` set (version_nodes v))))
        (version_pairs existing new)),
      Warnings = [], Infos = [] \<rparr>)"
proof -
  have "(case noFieldRemoval_version (crd_Name new) u v of None \<Rightarrow> [] | Some errs \<Rightarrow> errs) =
      map (noFieldRemoval_message (crd_Name new) (version_Name v))
        (sorted_list_of_set (loc_string ` set (version_nodes u) - loc_string ` set (version_nodes v)))"
    if "(u, v) \<in> set (version_pairs existing new)" for u v
    using that assms version_pairs_existing [OF that]
    by (simp add: noFieldRemoval_version_eq crd_ok_def list_all_iff locations_def sets_List_def)
  then have "check_messages noFieldRemoval_version existing new =
      concat (map (\<lambda>(u, v). map (noFieldRemoval_message (crd_Name new) (version_Name v))
          (sorted_list_of_set (loc_string ` set (version_nodes u) - loc_string ` set (version_nodes v))))
        (version_pairs existing new))"
    unfolding check_messages_def by (intro arg_cong [where f = concat] map_cong) auto
  then show ?thesis by (simp add: noFieldRemoval.compare_some [OF assms])
qed

theorem noFieldRemoval_reports_witness:
  "map_option (map_sum id Errors) (noFieldRemoval_Compare (Some switch_widgets) plain_widgets) =
     Some (Inr [''crd/widgets version/v1 field/^.on may not be removed''])"
proof -
  have "concat (map (\<lambda>(u, v). map (noFieldRemoval_message (crd_Name plain_widgets) (version_Name v))
          (sorted_list_of_set (loc_string ` set (version_nodes u) - loc_string ` set (version_nodes v))))
        (version_pairs switch_widgets plain_widgets)) = [''crd/widgets version/v1 field/^.on may not be removed'']"
    by code_simp
  then show ?thesis
    by (simp add: noFieldRemoval_reports [of switch_widgets plain_widgets])
qed

text \<open>
  C29. \<open>NoEnumRemoval\<close> reports a value exactly when some node at a location of the old version lists
  it, no node at that location of the new version does, and the new version still has an enum
  there; a location whose enum vanished altogether is not reported.
\<close>

theorem noEnumRemoval_reports_iff:
  assumes "crd_ok existing" and "crd_ok new"
  shows "\<exists>r. noEnumRemoval_Compare (Some existing) new = Some (Inr r) \<and> Warnings r = [] \<and> Infos r = [] \<and>
    (\<forall>m. m \<in> set (Errors r) \<longleftrightarrow>
      (\<exists>u v fld e. (u, v) \<in> set (version_pairs existing new) \<and>
         (\<exists>n\<in>set (version_nodes u). loc_string n = fld \<and> e \<in> Raw ` set (Enum (attrs (visit_schema n)))) \<and>
         \<not> (\<exists>n\<in>set (version_nodes v). loc_string n = fld \<and> e \<in> Raw ` set (Enum (attrs (visit_schema n)))) \<and>
         (\<exists>n\<in>set (version_nodes v). loc_string n = fld \<and> Enum (attrs (visit_schema n)) \<noteq> []) \<and>
         m = noEnumRemoval_message (crd_Name new) (version_Name v) fld e))"
proof -
  have removal: "enum_removal u v fld e \<longleftrightarrow>
      (\<exists>n\<in>set (version_nodes u). loc_string n = fld \<and> e \<in> Raw ` set (Enum (attrs (visit_schema n)))) \<and>
      \<not> (\<exists>n\<in>set (version_nodes v). loc_string n = fld \<and> e \<in> Raw ` set (Enum (attrs (visit_schema n)))) \<and>
      (\<exists>n\<in>set (version_nodes v). loc_string n = fld \<and> Enum (attrs (visit_schema n)) \<noteq> [])" for u v fld e
    by (auto simp: enum_removal_def enums_at_def)
  have "(\<exists>errs. noEnumRemoval_version (crd_Name new) u v = Some errs \<and> m \<in> set errs) \<longleftrightarrow>
      (\<exists>fld e. enum_removal u v fld e \<and> m = noEnumRemoval_message (crd_Name new) (version_Name v) fld e)"
    if "(u, v) \<in> set (version_pairs existing new)" for u v m
  proof -
    have "has_schema u" and "has_schema v"
      using assms version_pairs_existing [OF that] by (auto simp: crd_ok_def list_all_iff)
    from noEnumRemoval_version_set [OF this, of "crd_Name new"] show ?thesis by force
  qed
  then have "m \<in> set (check_messages noEnumRemoval_version existing new) \<longleftrightarrow>
      (\<exists>u v fld e. (u, v) \<in> set (version_pairs existing new) \<and> enum_removal u v fld e \<and>
         m = noEnumRemoval_message (crd_Name new) (version_Name v) fld e)" for m
    unfolding check_messages_iff by fastforce
  then show ?thesis
    unfolding noEnumRemoval.compare_some [OF assms] by (simp add: removal conj_assoc)
qed

definition phase_widgets :: "string list \<Rightarrow> CRD" where
  "phase_widgets values = widgets (widget_object [(''phase'', enum_field values)])"

theorem noEnumRemoval_reports_iff_witness:
  "\<exists>u v fld e. (u, v) \<in> set (version_pairs (phase_widgets [''Ready'', ''Failed'']) (phase_widgets [''Ready''])) \<and>
     (\<exists>n\<in>set (version_nodes u). loc_string n = fld \<and> e \<in> Raw ` set (Enum (attrs (visit_schema n)))) \<and>
     ''crd/widgets version/v1 enum/Failed may not be removed for field/^.phase'' =
       noEnumRemoval_message ''widgets'' (version_Name v) fld e"
proof -
  have ok: "crd_ok (phase_widgets vs)" "crd_Name (phase_widgets vs) = ''widgets''" for vs
    by (simp_all add: phase_widgets_def)
  have errors: "noEnumRemoval_Compare (Some (phase_widgets [''Ready'', ''Failed''])) (phase_widgets [''Ready'']) =
    Some (Inr \<lparr> Name = noEnumRemoval_Name, WhyItMatters = noEnumRemoval_WhyItMatters,
      Errors = [''crd/widgets version/v1 enum/Failed may not be removed for field/^.phase''], Warnings = [], Infos = [] \<rparr>)"
    by code_simp
  from reported_iffD [OF noEnumRemoval_reports_iff [OF ok(1) ok(1)] errors,
      of "''crd/widgets version/v1 enum/Failed may not be removed for field/^.phase''"]
  show ?thesis unfolding ok(2) by simp blast
qed

text \<open>
  C30. \<open>NoDataTypeChange\<close> reports a location exactly when both versions have it and the types of the
  nodes visited last there differ, with the two types in the message.
\<close>

theorem noDataTypeChange_reports_iff:
  assumes "crd_ok existing" and "crd_ok new"
  shows "\<exists>r. noDataTypeChange_Compare (Some existing) new = Some (Inr r) \<and> Warnings r = [] \<and> Infos r = [] \<and>
    (\<forall>m. m \<in> set (Errors r) \<longleftrightarrow>
      (\<exists>u v fld t t'. (u, v) \<in> set (version_pairs existing new) \<and>
         recorded_type (version_nodes u) fld = Some t \<and> recorded_type (version_nodes v) fld = Some t' \<and> t \<noteq> t' \<and>
         m = noDataTypeChange_message (crd_Name new) (version_Name v) fld \<lparr> ExistingType = t, NewType = t' \<rparr>))"
proof -
  have change: "type_change old new fld = Some ch \<longleftrightarrow>
      (\<exists>t t'. old fld = Some t \<and> new fld = Some t' \<and> t \<noteq> t' \<and> ch = \<lparr> ExistingType = t, NewType = t' \<rparr>)" for old new fld ch
    by (auto simp: type_change_def split: option.split)
  have "(\<exists>errs. noDataTypeChange_version (crd_Name new) u v = Some errs \<and> m \<in> set errs) \<longleftrightarrow>
      (\<exists>fld ch. type_change (recorded_type (version_nodes u)) (recorded_type (version_nodes v)) fld = Some ch \<and>
         m = noDataTypeChange_message (crd_Name new) (version_Name v) fld ch)"
    if "(u, v) \<in> set (version_pairs existing new)" for u v m
  proof -
    have "has_schema u" and "has_schema v"
      using assms version_pairs_existing [OF that] by (auto simp: crd_ok_def list_all_iff)
    from noDataTypeChange_version_set [OF this, of "crd_Name new"] show ?thesis by force
  qed
  then have "m \<in> set (check_messages noDataTypeChange_version existing new) \<longleftrightarrow>
      (\<exists>u v fld t t'. (u, v) \<in> set (version_pairs existing new) \<and>
         recorded_type (version_nodes u) fld = Some t \<and> recorded_type (version_nodes v) fld = Some t' \<and> t \<noteq> t' \<and>
         m = noDataTypeChange_message (crd_Name new) (version_Name v) fld \<lparr> ExistingType = t, NewType = t' \<rparr>)" for m
    unfolding check_messages_iff change by fastforce
  then show ?thesis
    unfolding noDataTypeChange.compare_some [OF assms] by simp
qed

definition sized_widgets :: "string \<Rightarrow> JSONSchemaProps list \<Rightarrow> CRD" where
  "sized_widgets t any = widgets (widget_object [(''size'',
     JSONSchemaProps (typed t) None [] [] any None [] None [] [] None [])])"

theorem noDataTypeChange_reports_iff_witness:
  "\<exists>u v fld t t'. (u, v) \<in> set (version_pairs (sized_widgets ''string'' []) (sized_widgets ''integer'' [])) \<and>
     recorded_type (version_nodes u) fld = Some t \<and> recorded_type (version_nodes v) fld = Some t' \<and>
     ''crd/widgets version/v1 data type of field/^.size may not be changed from string to integer'' =
       noDataTypeChange_message ''widgets'' (version_Name v) fld \<lparr> ExistingType = t, NewType = t' \<rparr>"
proof -
  have ok: "crd_ok (sized_widgets t any)" "crd_Name (sized_widgets t any) = ''widgets''" for t any
    by (simp_all add: sized_widgets_def)
  have errors: "noDataTypeChange_Compare (Some (sized_widgets ''string'' [])) (sized_widgets ''integer'' []) =
    Some (Inr \<lparr> Name = noDataTypeChange_Name, WhyItMatters = noDataTypeChange_WhyItMatters,
      Errors = [''crd/widgets version/v1 data type of field/^.size may not be changed from string to integer''],
      Warnings = [], Infos = [] \<rparr>)"
    by code_simp
  from reported_iffD [OF noDataTypeChange_reports_iff [OF ok(1) ok(1)] errors,
      of "''crd/widgets version/v1 data type of field/^.size may not be changed from string to integer''"]
  show ?thesis unfolding ok(2) by simp blast
qed

definition types_at :: "CRD \<Rightarrow> string \<Rightarrow> string list" where
  "types_at c fld = concat (map (\<lambda>v. map (\<lambda>n. Type (attrs (visit_schema n)))
     (filter (\<lambda>n. path_String (visit_fld n) = fld) (version_nodes v))) (Versions c))"

text \<open>
  So a branch of \<open>anyOf\<close> hides a change: its nodes are visited after the field, at the same
  location, and a branch without a type overwrites the recorded one. A field that turns from
  string to integer is not reported when both schemas carry such a branch.
\<close>

theorem type_change_hidden_by_anyOf:
  "types_at (sized_widgets ''string'' [leaf_schema zero_attrs]) ''^.properties[size]'' = [''string''] \<and>
   types_at (sized_widgets ''integer'' [leaf_schema zero_attrs]) ''^.properties[size]'' = [''integer''] \<and>
   noDataTypeChange_Compare (Some (sized_widgets ''string'' [leaf_schema zero_attrs]))
     (sized_widgets ''integer'' [leaf_schema zero_attrs]) =
   Some (Inr \<lparr> Name = noDataTypeChange_Name, WhyItMatters = noDataTypeChange_WhyItMatters,
     Errors = [], Warnings = [], Infos = [] \<rparr>)"
  by code_simp

end
