(* ===== verification/Schema_Pool.thy ===== *)
theory Schema_Pool
  imports Schema_Walker
begin

text \<open>
  The traversal once more, now with the pointers a predicate really gets. \<open>schemaHasRecurse\<close> of
  \<open>pkg/manifestcomparators/helpers.go\<close> copies every child into a struct drawn from a \<open>sync.Pool\<close>
  and puts the struct back when the child's walk returns, so one address names many nodes over
  time. \<open>NoNewRequiredFields\<close> keys a map by these addresses. The interface of the pool is the
  locale \<open>schema_pool\<close>; its client lemma is that a predicate which reads only the pointers of
  the node and of its ancestors sees, for each, the node that was visited there.
\<close>

section \<open>The pool\<close>

type_synonym addr = nat

text \<open>
  A \<open>sync.Pool\<close> keeps the structs that were put and may hand out any of them or a new one. Which
  one is the run-time's choice, a function of the number of calls so far and of the contents.
\<close>

type_synonym pool_choice = "nat \<Rightarrow> addr list \<Rightarrow> addr option"

record pool =
  pool_free :: "addr list"
  pool_fresh :: addr
  pool_gets :: nat

definition pool_New :: "pool \<Rightarrow> addr \<times> pool" where
  "pool_New p = (pool_fresh p, p\<lparr>pool_fresh := Suc (pool_fresh p), pool_gets := Suc (pool_gets p)\<rparr>)"

definition pool_Get :: "pool_choice \<Rightarrow> pool \<Rightarrow> addr \<times> pool" where
  "pool_Get pick p =
     (case pick (pool_gets p) (pool_free p) of
        None \<Rightarrow> pool_New p
      | Some a \<Rightarrow>
          if a \<in> set (pool_free p)
          then (a, p\<lparr>pool_free := remove1 a (pool_free p), pool_gets := Suc (pool_gets p)\<rparr>)
          else pool_New p)"

definition pool_Put :: "addr \<Rightarrow> pool \<Rightarrow> pool" where
  "pool_Put a p = p\<lparr>pool_free := a # pool_free p\<rparr>"

text \<open>
  The addresses in the pool are distinct, none of them is in use, and a new struct has an
  address that neither the pool nor a user holds.
\<close>

definition pool_inv :: "addr set \<Rightarrow> pool \<Rightarrow> bool" where
  "pool_inv live p \<longleftrightarrow> distinct (pool_free p) \<and> set (pool_free p) \<inter> live = {} \<and>
     (\<forall>a\<in>set (pool_free p) \<union> live. a < pool_fresh p)"

locale schema_pool =
  fixes get :: "'p \<Rightarrow> addr \<times> 'p"
    and put :: "addr \<Rightarrow> 'p \<Rightarrow> 'p"
    and inv :: "addr set \<Rightarrow> 'p \<Rightarrow> bool"
  assumes get_unused: "inv live p \<Longrightarrow> fst (get p) \<notin> live"
    and get_inv: "inv live p \<Longrightarrow> inv (insert (fst (get p)) live) (snd (get p))"
    and put_inv: "inv (insert a live) p \<Longrightarrow> a \<notin> live \<Longrightarrow> inv live (put a p)"

interpretation sync_pool: schema_pool "pool_Get pick" pool_Put pool_inv for pick
proof unfold_locales
  fix live p
  assume inv: "pool_inv live p"
  then show "fst (pool_Get pick p) \<notin> live"
    by (auto simp: pool_Get_def pool_New_def pool_inv_def split: option.split)
  from inv show "pool_inv (insert (fst (pool_Get pick p)) live) (snd (pool_Get pick p))"
    by (auto simp: pool_Get_def pool_New_def pool_inv_def less_Suc_eq split: option.split)
next
  fix a live p
  assume "pool_inv (insert a live) p" and "a \<notin> live"
  then show "pool_inv live (pool_Put a p)"
    by (auto simp: pool_Put_def pool_inv_def)
qed

section \<open>The traversal with pointers\<close>

text \<open>
  The state of a run: the structs at their addresses, the pool, and the variables the predicate
  captured. A predicate gets pointers and reads the structs; it does not write them.
\<close>

record ('p, 'st) world =
  structs :: "addr \<Rightarrow> JSONSchemaProps"
  schemaPool :: 'p
  captured :: 'st

type_synonym 'st ptr_walker =
  "(addr \<Rightarrow> JSONSchemaProps) \<Rightarrow> addr \<Rightarrow> Path \<Rightarrow> Path \<Rightarrow> addr list \<Rightarrow> 'st \<Rightarrow> (bool \<times> 'st) go"

text \<open>
  \<open>schemaHasRecurse\<close>: get a struct, copy the child into it, walk it, put it back. The argument
  \<open>walk\<close> is the call of \<open>SchemaHas\<close> on the pooled struct.
\<close>

definition schemaHasRecurse ::
  "('p \<Rightarrow> addr \<times> 'p) \<Rightarrow> (addr \<Rightarrow> 'p \<Rightarrow> 'p) \<Rightarrow> JSONSchemaProps \<Rightarrow>
   (addr \<Rightarrow> ('p, 'st) world \<Rightarrow> (bool \<times> ('p, 'st) world) go) \<Rightarrow> ('p, 'st) world \<Rightarrow> (bool \<times> ('p, 'st) world) go" where
  "schemaHasRecurse get put s walk w =
     (let schema = fst (get (schemaPool w));
          w1 = w\<lparr>schemaPool := snd (get (schemaPool w)), structs := (structs w)(schema := s)\<rparr>
      in case walk schema w1 of
           None \<Rightarrow> None
         | Some (found, w2) \<Rightarrow> Some (found, w2\<lparr>schemaPool := put schema (schemaPool w2)\<rparr>))"

lemma schemaHasRecurse_cong [fundef_cong]:
  "get = get' \<Longrightarrow> put = put' \<Longrightarrow> s = s' \<Longrightarrow> w = w' \<Longrightarrow> (\<And>a v. walk a v = walk' a v) \<Longrightarrow>
   schemaHasRecurse get put s walk w = schemaHasRecurse get' put' s' walk' w'"
  by (simp add: schemaHasRecurse_def)

text \<open>\<open>SchemaHas\<close> on the pointer \<open>ptr\<close>, where \<open>s\<close> is the struct stored there when the call starts.\<close>

function SchemaHas_ptr ::
  "('p \<Rightarrow> addr \<times> 'p) \<Rightarrow> (addr \<Rightarrow> 'p \<Rightarrow> 'p) \<Rightarrow> 'st ptr_walker \<Rightarrow> JSONSchemaProps \<Rightarrow> addr \<Rightarrow> Path \<Rightarrow> Path \<Rightarrow>
   addr list \<Rightarrow> ('p, 'st) world \<Rightarrow> (bool \<times> ('p, 'st) world) go" where
  "SchemaHas_ptr get put pred s ptr fldPath simpleLocation ancestry w =
     (case pred (structs w) ptr fldPath simpleLocation ancestry (captured w) of
        None \<Rightarrow> None
      | Some (stop, st) \<Rightarrow>
          if stop then Some (True, w\<lparr>captured := st\<rparr>)
          else range_until
                 (\<lambda>(c, f, l) w. schemaHasRecurse get put c
                    (\<lambda>a w. SchemaHas_ptr get put pred c a f l (ancestry @ [ptr]) w) w)
                 (schema_children s fldPath simpleLocation) (w\<lparr>captured := st\<rparr>))"
  by pat_completeness auto
termination
  by (relation "measure (\<lambda>(get, put, pred, s, ptr, fld, loc, anc, w). size s)")
    (auto dest: schema_children_size)

declare SchemaHas_ptr.simps [simp del]

section \<open>Visits with the paths of their ancestors\<close>

type_synonym trail = "(JSONSchemaProps \<times> Path) list"

record trail_visit =
  at_schema :: JSONSchemaProps
  at_fld :: Path
  at_loc :: Path
  at_trail :: trail

function trail_visits :: "JSONSchemaProps \<Rightarrow> Path \<Rightarrow> Path \<Rightarrow> trail \<Rightarrow> trail_visit list" where
  "trail_visits s fldPath simpleLocation trail =
     \<lparr> at_schema = s, at_fld = fldPath, at_loc = simpleLocation, at_trail = trail \<rparr> #
     concat (map (\<lambda>(c, f, l). trail_visits c f l (trail @ [(s, fldPath)]))
       (schema_children s fldPath simpleLocation))"
  by pat_completeness auto
termination
  by (relation "measure (\<lambda>(s, fld, loc, anc). size s)") (auto dest: schema_children_size)

declare trail_visits.simps [simp del]

definition edge_trails :: "edge list \<Rightarrow> trail \<Rightarrow> trail_visit list" where
  "edge_trails es trail = concat (map (\<lambda>(c, f, l). trail_visits c f l trail) es)"

lemma edge_trails_simps [simp, code]:
  "edge_trails [] trail = []"
  "edge_trails ((c, f, l) # es) trail = trail_visits c f l trail @ edge_trails es trail"
  by (simp_all add: edge_trails_def)

lemma trail_visits_eval [code]:
  "trail_visits s fldPath simpleLocation trail =
     \<lparr> at_schema = s, at_fld = fldPath, at_loc = simpleLocation, at_trail = trail \<rparr> #
     edge_trails (schema_children s fldPath simpleLocation) (trail @ [(s, fldPath)])"
  by (subst trail_visits.simps) (simp add: edge_trails_def)

definition forget_trail :: "trail_visit \<Rightarrow> visit" where
  "forget_trail t = \<lparr> visit_schema = at_schema t, visit_fld = at_fld t, visit_loc = at_loc t,
     visit_anc = map fst (at_trail t) \<rparr>"

lemma forget_trail_visits:
  "map forget_trail (trail_visits s f l tr) = schema_visits s f l (map fst tr)"
proof (induction s f l tr rule: trail_visits.induct)
  case (1 s f l tr)
  then have "map (\<lambda>(c, f', l'). map forget_trail (trail_visits c f' l' (tr @ [(s, f)]))) (schema_children s f l) =
      map (\<lambda>(c, f', l'). schema_visits c f' l' (map fst (tr @ [(s, f)]))) (schema_children s f l)"
    by auto
  then show ?case
    by (subst trail_visits.simps, subst schema_visits.simps)
      (simp add: forget_trail_def map_concat comp_def case_prod_unfold cong: map_cong)
qed

section \<open>What a predicate sees through its pointers\<close>

text \<open>
  The contract of a predicate of this kind. The relation \<open>link st a (s, f)\<close> says that the captured
  variables know the pointer \<open>a\<close> as the node \<open>s\<close> visited at path \<open>f\<close>. Given that the ancestor
  pointers are linked and hold the ancestors, the predicate does not panic or stop, its effect
  on the abstract variables is \<open>step\<close>, it links its own pointer and keeps all other links.
\<close>

locale pointer_predicate =
  fixes pred :: "'st ptr_walker"
    and abs :: "'st \<Rightarrow> 'r"
    and link :: "'st \<Rightarrow> addr \<Rightarrow> JSONSchemaProps \<times> Path \<Rightarrow> bool"
    and step :: "trail_visit \<Rightarrow> 'r \<Rightarrow> 'r"
  assumes pred_step: "\<lbrakk> list_all2 (\<lambda>a n. mem a = fst n \<and> link st a n) ancestry trail;
      ptr \<notin> set ancestry; mem ptr = s \<rbrakk> \<Longrightarrow>
    \<exists>st'. pred mem ptr fldPath loc ancestry st = Some (False, st') \<and>
      abs st' = step \<lparr> at_schema = s, at_fld = fldPath, at_loc = loc, at_trail = trail \<rparr> (abs st) \<and>
      link st' ptr (s, fldPath) \<and> (\<forall>a n. a \<noteq> ptr \<longrightarrow> link st a n \<longrightarrow> link st' a n)"

locale pooled_walk = schema_pool get put inv + pointer_predicate pred abs link step
  for get :: "'p \<Rightarrow> addr \<times> 'p" and put inv and pred :: "'st ptr_walker" and abs :: "'st \<Rightarrow> 'r" and link step
begin

text \<open>
  What a call leaves behind, for the pointers in use and those whose links matter: the pool is
  back in its invariant, the structs in use are untouched, the links hold, and the abstract
  variables have gone through the visits.
\<close>

definition keeps_links :: "addr set \<Rightarrow> 'st \<Rightarrow> 'st \<Rightarrow> bool" where
  "keeps_links linked st st' \<longleftrightarrow> (\<forall>a\<in>linked. \<forall>n. link st a n \<longrightarrow> link st' a n)"

lemma keeps_links_refl [simp]: "keeps_links linked st st"
  by (simp add: keeps_links_def)

lemma keeps_links_trans: "keeps_links A st st' \<Longrightarrow> keeps_links A st' st'' \<Longrightarrow> keeps_links A st st''"
  by (simp add: keeps_links_def)

lemma keeps_links_mono: "keeps_links A st st' \<Longrightarrow> B \<subseteq> A \<Longrightarrow> keeps_links B st st'"
  by (auto simp: keeps_links_def simp del: split_paired_All)

definition returns_well ::
  "addr set \<Rightarrow> addr set \<Rightarrow> trail_visit list \<Rightarrow> ('p, 'st) world \<Rightarrow> (bool \<times> ('p, 'st) world) go \<Rightarrow> bool" where
  "returns_well live linked vs w result \<longleftrightarrow> (\<exists>w'. result = Some (False, w') \<and>
     inv live (schemaPool w') \<and> (\<forall>a\<in>live. structs w' a = structs w a) \<and>
     keeps_links linked (captured w) (captured w') \<and>
     abs (captured w') = fold step vs (abs (captured w)))"

text \<open>The stack of a run: pointers in use that hold their nodes and are linked to them.\<close>

definition stacked :: "addr list \<Rightarrow> trail \<Rightarrow> ('p, 'st) world \<Rightarrow> bool" where
  "stacked as trail w \<longleftrightarrow> list_all2 (\<lambda>a n. structs w a = fst n \<and> link (captured w) a n) as trail"

lemma stacked_keeps:
  assumes "stacked as trail w"
    and "\<And>a. a \<in> set as \<Longrightarrow> structs w' a = structs w a"
    and "keeps_links (set as) (captured w) (captured w')"
  shows "stacked as trail w'"
  using assms(1) unfolding stacked_def
  by (rule list.rel_mono_strong) (use assms(2,3) in \<open>auto simp: keeps_links_def\<close>)

lemma range_returns_well:
  assumes "inv live (schemaPool w)" and "stacked as trail w" and "set as \<subseteq> live"
    and "\<And>x w. x \<in> set xs \<Longrightarrow> inv live (schemaPool w) \<Longrightarrow> stacked as trail w \<Longrightarrow>
       returns_well live live (vs x) w (f x w)"
  shows "returns_well live live (concat (map vs xs)) w (range_until f xs w)"
  using assms
proof (induction xs arbitrary: w)
  case Nil
  then show ?case by (simp add: returns_well_def)
next
  case (Cons x xs)
  from Cons.prems(4) [OF _ Cons.prems(1,2)] obtain w1 where
    w1: "f x w = Some (False, w1)" "inv live (schemaPool w1)"
      "\<forall>a\<in>live. structs w1 a = structs w a"
      "keeps_links live (captured w) (captured w1)"
      "abs (captured w1) = fold step (vs x) (abs (captured w))"
    by (auto simp: returns_well_def)
  have "stacked as trail w1"
    by (rule stacked_keeps [OF Cons.prems(2)])
      (use w1(3) Cons.prems(3) keeps_links_mono [OF w1(4) Cons.prems(3)] in auto)
  from Cons.IH [OF w1(2) this Cons.prems(3)] Cons.prems(4)
  have "returns_well live live (concat (map vs xs)) w1 (range_until f xs w1)" by simp
  with w1 show ?case by (auto simp: returns_well_def intro: keeps_links_trans)
qed

lemma recurse_returns_well:
  assumes "inv live (schemaPool w)"
    and "\<And>a (v :: ('p, 'st) world). a \<notin> live \<Longrightarrow> inv (insert a live) (schemaPool v) \<Longrightarrow> structs v = (structs w)(a := c) \<Longrightarrow>
       captured v = captured w \<Longrightarrow> returns_well (insert a live) live vs v (walk a v)"
  shows "returns_well live live vs w (schemaHasRecurse get put c walk w)"
proof -
  let ?a = "fst (get (schemaPool w))"
  let ?v = "w\<lparr>schemaPool := snd (get (schemaPool w)), structs := (structs w)(?a := c)\<rparr>"
  have unused: "?a \<notin> live" using assms(1) by (rule get_unused)
  have "returns_well (insert ?a live) live vs ?v (walk ?a ?v)"
    by (rule assms(2)) (use unused get_inv [OF assms(1)] in simp_all)
  then obtain w' where w': "walk ?a ?v = Some (False, w')" "inv (insert ?a live) (schemaPool w')"
    "\<forall>b\<in>insert ?a live. structs w' b = structs ?v b"
    "keeps_links live (captured ?v) (captured w')"
    "abs (captured w') = fold step vs (abs (captured ?v))"
    by (auto simp: returns_well_def)
  have "structs w' b = structs w b" if "b \<in> live" for b
    using that w'(3) unused by auto
  with w' show ?thesis
    by (auto simp: returns_well_def schemaHasRecurse_def Let_def intro: put_inv [OF _ unused])
qed

lemma SchemaHas_ptr_returns:
  assumes "inv live (schemaPool w)" and "insert ptr (set ancestry) \<subseteq> live" and "ptr \<notin> set ancestry"
    and "structs w ptr = s" and "stacked ancestry trail w"
  shows "returns_well live (live - {ptr}) (trail_visits s f l trail) w
    (SchemaHas_ptr get put pred s ptr f l ancestry w)"
  using assms
proof (induction s f l trail arbitrary: ptr ancestry w live rule: trail_visits.induct)
  case (1 s f l trail)
  let ?visit = "\<lparr> at_schema = s, at_fld = f, at_loc = l, at_trail = trail \<rparr>"
  let ?trail = "trail @ [(s, f)]"
  obtain st' where st': "pred (structs w) ptr f l ancestry (captured w) = Some (False, st')"
    "abs st' = step ?visit (abs (captured w))" "link st' ptr (s, f)"
    "\<forall>a n. a \<noteq> ptr \<longrightarrow> link (captured w) a n \<longrightarrow> link st' a n"
    using pred_step [OF "1.prems"(5) [unfolded stacked_def] "1.prems"(3,4)] by blast
  let ?w1 = "w\<lparr>captured := st'\<rparr>"
  have kept: "keeps_links (- {ptr}) (captured w) st'"
    using st'(4) by (auto simp: keeps_links_def)
  have "stacked ancestry trail ?w1"
    by (rule stacked_keeps [OF "1.prems"(5)])
      (use "1.prems"(3) keeps_links_mono [OF kept] in auto)
  then have stack: "stacked (ancestry @ [ptr]) ?trail ?w1"
    using "1.prems"(4) st'(3) by (simp add: stacked_def list_all2_appendI)
  have "returns_well live live (concat (map (\<lambda>(c, f', l'). trail_visits c f' l' ?trail) (schema_children s f l))) ?w1
      (range_until (\<lambda>(c, f', l') w. schemaHasRecurse get put c
          (\<lambda>a w. SchemaHas_ptr get put pred c a f' l' (ancestry @ [ptr]) w) w)
        (schema_children s f l) ?w1)"
  proof (rule range_returns_well [OF _ stack])
    show "inv live (schemaPool ?w1)" using "1.prems"(1) by simp
    show "set (ancestry @ [ptr]) \<subseteq> live" using "1.prems"(2) by simp
    fix x and w :: "('p, 'st) world"
    assume x: "x \<in> set (schema_children s f l)" and w: "inv live (schemaPool w)"
      and st: "stacked (ancestry @ [ptr]) ?trail w"
    obtain c f' l' where c: "x = (c, f', l')" by (cases x)
    have "returns_well live live (trail_visits c f' l' ?trail) w (schemaHasRecurse get put c
        (\<lambda>a w. SchemaHas_ptr get put pred c a f' l' (ancestry @ [ptr]) w) w)"
    proof (rule recurse_returns_well [OF w])
      fix a and v :: "('p, 'st) world"
      assume a: "a \<notin> live" and v: "inv (insert a live) (schemaPool v)"
        "structs v = (structs w)(a := c)" "captured v = captured w"
      have "a \<notin> set (ancestry @ [ptr])" using a "1.prems"(2) by auto
      moreover have "stacked (ancestry @ [ptr]) ?trail v"
        by (rule stacked_keeps [OF st]) (use v(2,3) \<open>a \<notin> set (ancestry @ [ptr])\<close> in auto)
      ultimately have "returns_well (insert a live) (insert a live - {a}) (trail_visits c f' l' ?trail) v
          (SchemaHas_ptr get put pred c a f' l' (ancestry @ [ptr]) v)"
        using "1.IH" [OF x [unfolded c] refl refl v(1), of a "ancestry @ [ptr]"] v(2) "1.prems"(2) by auto
      then show "returns_well (insert a live) live (trail_visits c f' l' ?trail) v
          (SchemaHas_ptr get put pred c a f' l' (ancestry @ [ptr]) v)"
        using a by simp
    qed
    then show "returns_well live live (case x of (c, f', l') \<Rightarrow> trail_visits c f' l' ?trail) w
        ((case x of (c, f', l') \<Rightarrow> \<lambda>w. schemaHasRecurse get put c
          (\<lambda>a w. SchemaHas_ptr get put pred c a f' l' (ancestry @ [ptr]) w) w) w)"
      by (simp add: c)
  qed
  with st'(1,2) keeps_links_mono [OF kept, of "live - {ptr}"] show ?case
    by (subst SchemaHas_ptr.simps, subst trail_visits.simps)
      (auto simp: returns_well_def
         intro: keeps_links_trans [OF _ keeps_links_mono [OF _ Diff_subset]])
qed

end

section \<open>A whole walk\<close>

text \<open>
  What survives a walk: the structs and the pool, which is a variable of the package. A walk of
  \<open>version.Schema.OpenAPIV3Schema\<close> starts at the pointer \<open>rootp\<close> of that struct, which never was in
  the pool, with fresh captured variables.
\<close>

record 'p runtime =
  runtime_structs :: "addr \<Rightarrow> JSONSchemaProps"
  runtime_pool :: 'p

definition walk_schema_ptr ::
  "('p \<Rightarrow> addr \<times> 'p) \<Rightarrow> (addr \<Rightarrow> 'p \<Rightarrow> 'p) \<Rightarrow> 'st ptr_walker \<Rightarrow> addr \<Rightarrow> JSONSchemaProps option \<Rightarrow>
   'p runtime \<Rightarrow> 'st \<Rightarrow> ('p runtime \<times> 'st) go" where
  "walk_schema_ptr get put pred rootp schema rt st =
     (case schema of
        None \<Rightarrow> Some (rt, st)
      | Some s \<Rightarrow> do {
          (_, w) \<leftarrow> SchemaHas_ptr get put pred s rootp (NewPath ''^'' []) (NewPath ''^'' []) []
            \<lparr> structs = (runtime_structs rt)(rootp := s), schemaPool = runtime_pool rt, captured = st \<rparr>;
          Some (\<lparr> runtime_structs = structs w, runtime_pool = schemaPool w \<rparr>, captured w)
        })"

definition trail_nodes :: "JSONSchemaProps option \<Rightarrow> trail_visit list" where
  "trail_nodes s = (case s of None \<Rightarrow> [] | Some c \<Rightarrow> trail_visits c (NewPath ''^'' []) (NewPath ''^'' []) [])"

lemma forget_trail_nodes: "map forget_trail (trail_nodes s) = node_list s"
  by (cases s) (simp_all add: trail_nodes_def node_list_def forget_trail_visits)

context pooled_walk
begin

lemma walk_schema_ptr_folds:
  assumes "inv {rootp} (runtime_pool rt)"
  shows "\<exists>rt' st'. walk_schema_ptr get put pred rootp s rt st = Some (rt', st') \<and>
    inv {rootp} (runtime_pool rt') \<and> abs st' = fold step (trail_nodes s) (abs st)"
proof (cases s)
  case None
  with assms show ?thesis by (simp add: walk_schema_ptr_def trail_nodes_def)
next
  case (Some c)
  let ?w = "\<lparr> structs = (runtime_structs rt)(rootp := c), schemaPool = runtime_pool rt, captured = st \<rparr>"
  have "returns_well {rootp} ({rootp} - {rootp}) (trail_visits c (NewPath ''^'' []) (NewPath ''^'' []) []) ?w
      (SchemaHas_ptr get put pred c rootp (NewPath ''^'' []) (NewPath ''^'' []) [] ?w)"
    by (rule SchemaHas_ptr_returns) (use assms in \<open>simp_all add: stacked_def\<close>)
  with Some show ?thesis
    by (auto simp: returns_well_def walk_schema_ptr_def trail_nodes_def)
qed

end

end
