(* ===== verification/New_Required_Fields.thy ===== *)
theory New_Required_Fields
  imports Version_Comparators Schema_Pool Examples
begin

text \<open>
  \<open>comp_no_new_required_fields.go\<close>. The comparator walks the existing schema once and the new
  schema twice. In the last walk it keys a map by the pointers it is handed and looks the
  ancestors of a node up in it, so it is translated over \<open>Schema_Pool\<close>. The second half gives the
  same comparison over visited nodes, proves that the translation computes it whatever the
  pool does, and describes what is reported.
\<close>

section \<open>The last step of a path\<close>

text \<open>
  \<open>lastIndexOrKeyRegexp\<close>, that is \<open>.*\[([^\]]+)\]$\<close>: the leftmost match with the longest \<open>.*\<close>,
  which does not cross a line break. The result is the first group.
\<close>

definition newline :: char where
  "newline = CHR 0x0A"

definition bracket_starts :: "string \<Rightarrow> nat \<Rightarrow> nat list" where
  "bracket_starts b i =
     filter (\<lambda>p. i \<le> p \<and> b ! p = CHR ''['' \<and> newline \<notin> set (take (p - i) (drop i b)) \<and>
       drop (Suc p) b \<noteq> [] \<and> CHR '']'' \<notin> set (drop (Suc p) b)) [0..<length b]"

definition lastIndexOrKey :: "string \<Rightarrow> string option" where
  "lastIndexOrKey s =
     (if s = [] \<or> last s \<noteq> CHR '']'' then None
      else let b = butlast s
           in case find (\<lambda>i. bracket_starts b i \<noteq> []) [0..<length b] of
                None \<Rightarrow> None
              | Some i \<Rightarrow> Some (drop (Suc (last (bracket_starts b i))) b))"

section \<open>Optional fields and ancestors\<close>

text \<open>A lookup in a map of sets, where a missing key gives the nil set.\<close>

definition lookup_set :: "(string \<times> strset) list \<Rightarrow> string \<Rightarrow> strset" where
  "lookup_set m k = (case map_of m k of None \<Rightarrow> {} | Some s \<Rightarrow> s)"

definition optional_array :: "JSONSchemaProps \<Rightarrow> bool" where
  "optional_array s \<longleftrightarrow> Type (attrs s) = ''array'' \<and> (MinLength (attrs s) = None \<or> MinLength (attrs s) = Some 0)"

definition isFieldOptional ::
  "(addr \<Rightarrow> JSONSchemaProps) \<Rightarrow> addr \<Rightarrow> addr list \<Rightarrow> Path option \<Rightarrow> (addr \<Rightarrow> Path option) \<Rightarrow>
   (string \<times> strset) list \<Rightarrow> bool" where
  "isFieldOptional mem s ancestors fldPath newToFldPath newFldPathToRequiredFields =
     (if optional_array (mem s) then True
      else if length ancestors > 0
      then let parentOfField = last ancestors
           in case lastIndexOrKey (ptr_String fldPath) of
                Some lastStep \<Rightarrow>
                  (let parentRequiredFields =
                     lookup_set newFldPathToRequiredFields (ptr_String (newToFldPath parentOfField))
                   in \<not> sets_Has parentRequiredFields lastStep)
              | None \<Rightarrow> False
      else False)"

text \<open>The loop over the ancestors from the parent up to the root; \<open>Suc i\<close> examines index \<open>i\<close>.\<close>

fun ancestor_loop ::
  "(addr \<Rightarrow> JSONSchemaProps) \<Rightarrow> addr list \<Rightarrow> (string \<times> addr) list \<Rightarrow> (addr \<Rightarrow> Path option) \<Rightarrow>
   (string \<times> strset) list \<Rightarrow> nat \<Rightarrow> bool" where
  "ancestor_loop mem ancestors existing newToFldPath req 0 = False"
| "ancestor_loop mem ancestors existing newToFldPath req (Suc i) =
     (let ancestor = ancestors ! i;
          ancestorFldPath = newToFldPath ancestor
      in if \<not> isFieldOptional mem ancestor (take i ancestors) ancestorFldPath newToFldPath req
         then ancestor_loop mem ancestors existing newToFldPath req i
         else if map_of existing (ptr_String ancestorFldPath) \<noteq> None
         then ancestor_loop mem ancestors existing newToFldPath req i
         else if i = 0 then True
         else let parentOfAncestor = ancestors ! (i - 1)
              in case lastIndexOrKey (ptr_String ancestorFldPath) of
                   None \<Rightarrow> ancestor_loop mem ancestors existing newToFldPath req i
                 | Some lastStep \<Rightarrow>
                     (let prevAncestorRequiredFields = lookup_set req (ptr_String (newToFldPath parentOfAncestor))
                      in if \<not> sets_Has prevAncestorRequiredFields lastStep then True
                         else ancestor_loop mem ancestors existing newToFldPath req i))"

definition isAnyAncestorNewAndNullable ::
  "(addr \<Rightarrow> JSONSchemaProps) \<Rightarrow> addr list \<Rightarrow> (string \<times> addr) list \<Rightarrow> (addr \<Rightarrow> Path option) \<Rightarrow>
   (string \<times> strset) list \<Rightarrow> bool" where
  "isAnyAncestorNewAndNullable mem ancestors existing newToFldPath req =
     ancestor_loop mem ancestors existing newToFldPath req (length ancestors)"

section \<open>The three predicates and Compare\<close>

definition noNewRequiredFields_Name :: string where
  "noNewRequiredFields_Name = ''NoNewRequiredFields''"

definition noNewRequiredFields_WhyItMatters :: string where
  "noNewRequiredFields_WhyItMatters =
     ''If new fields are required, then old clients will not function properly.  Even if CRD defaulting is used, '' @
     ''CRD defaulting requires allowing an object with an empty or missing value to then get defaulted.''"

record existing_vars =
  existingRequiredFields :: "(string \<times> strset) list"
  existingFldPathToJSONSchemaProps :: "(string \<times> addr) list"
  fldPathToSimpleLocation :: "(string \<times> string) list"

definition existing_pred :: "existing_vars ptr_walker" where
  "existing_pred mem s fldPath simpleLocation ancestors vars =
     Some (False, vars
       \<lparr> existingRequiredFields := AList.update (path_String fldPath)
           (sets_NewString (Required (attrs (mem s)))) (existingRequiredFields vars),
         existingFldPathToJSONSchemaProps := AList.update (path_String fldPath) s
           (existingFldPathToJSONSchemaProps vars),
         fldPathToSimpleLocation := AList.update (path_String fldPath) (path_String simpleLocation)
           (fldPathToSimpleLocation vars) \<rparr>)"

record new_vars =
  newFldPathToRequiredFields :: "(string \<times> strset) list"
  new_fldPathToSimpleLocation :: "(string \<times> string) list"

definition collect_pred :: "new_vars ptr_walker" where
  "collect_pred mem s fldPath simpleLocation ancestors vars =
     Some (False, vars
       \<lparr> newFldPathToRequiredFields := AList.update (path_String fldPath)
           (sets_NewString (Required (attrs (mem s)))) (newFldPathToRequiredFields vars),
         new_fldPathToSimpleLocation := AList.update (path_String fldPath) (path_String simpleLocation)
           (new_fldPathToSimpleLocation vars) \<rparr>)"

record required_vars =
  newRequiredFields :: strset
  newToFldPath :: "addr \<Rightarrow> Path option"

text \<open>A missing entry of a map of strings reads as the empty string.\<close>

definition lookup_string :: "(string \<times> string) list \<Rightarrow> string \<Rightarrow> string" where
  "lookup_string m k = (case map_of m k of None \<Rightarrow> [] | Some s \<Rightarrow> s)"

definition required_pred ::
  "existing_vars \<Rightarrow> new_vars \<Rightarrow> required_vars ptr_walker" where
  "required_pred ex nw mem s fldPath simpleLocation ancestors vars =
     (let vars = vars\<lparr>newToFldPath := (newToFldPath vars)(s \<mapsto> fldPath)\<rparr>;
          existing = existingFldPathToJSONSchemaProps ex;
          req = newFldPathToRequiredFields nw;
          simple = lookup_string (new_fldPathToSimpleLocation nw) (path_String fldPath)
      in if Type (attrs (mem s)) = ''array'' then
           if MinLength (attrs (mem s)) = None \<or> MinLength (attrs (mem s)) = Some 0 then Some (False, vars)
           else if isAnyAncestorNewAndNullable mem ancestors existing (newToFldPath vars) req
           then Some (False, vars)
           else Some (False, vars\<lparr>newRequiredFields := sets_Insert (newRequiredFields vars) [simple]\<rparr>)
         else if length (Required (attrs (mem s))) = 0 then Some (False, vars)
         else
           let existingRequired = lookup_set (existingRequiredFields ex) (path_String fldPath);
               fieldExistedBefore = (map_of existing (path_String fldPath) \<noteq> None)
           in if \<not> fieldExistedBefore \<and>
                 isFieldOptional mem s ancestors (Some fldPath) (newToFldPath vars) req
              then Some (False, vars)
              else if isAnyAncestorNewAndNullable mem ancestors existing (newToFldPath vars) req
              then Some (False, vars)
              else
                let newRequired = sets_NewString (Required (attrs (mem s)));
                    disallowedRequired = sets_Difference newRequired existingRequired
                in Some (False, vars\<lparr>newRequiredFields :=
                     fold (\<lambda>cur acc. sets_Insert acc [simple @ ''.'' @ cur])
                       (sets_List disallowedRequired) (newRequiredFields vars)\<rparr>))"

definition noNewRequiredFields_message :: "string \<Rightarrow> string \<Rightarrow> string \<Rightarrow> string" where
  "noNewRequiredFields_message crd version newRequiredField =
     ''crd/'' @ crd @ '' version/'' @ version @ '' field/'' @ newRequiredField @ '' is new and may not be required''"

text \<open>The body of the loop of \<open>Compare\<close> for one pair of versions.\<close>

definition noNewRequiredFields_version ::
  "('p \<Rightarrow> addr \<times> 'p) \<Rightarrow> (addr \<Rightarrow> 'p \<Rightarrow> 'p) \<Rightarrow> addr \<Rightarrow> string \<Rightarrow> CRDVersion \<Rightarrow> CRDVersion \<Rightarrow> 'p runtime \<Rightarrow>
   (string list \<times> 'p runtime) go" where
  "noNewRequiredFields_version get put rootp crd existingVersion newVersion rt = do {
     existingSchema \<leftarrow> version_schema existingVersion;
     (rt, ex) \<leftarrow> walk_schema_ptr get put existing_pred rootp existingSchema rt
       \<lparr> existingRequiredFields = [], existingFldPathToJSONSchemaProps = [], fldPathToSimpleLocation = [] \<rparr>;
     newSchema \<leftarrow> version_schema newVersion;
     (rt, nw) \<leftarrow> walk_schema_ptr get put collect_pred rootp newSchema rt
       \<lparr> newFldPathToRequiredFields = [], new_fldPathToSimpleLocation = fldPathToSimpleLocation ex \<rparr>;
     (rt, result) \<leftarrow> walk_schema_ptr get put (required_pred ex nw) rootp newSchema rt
       \<lparr> newRequiredFields = sets_NewString [], newToFldPath = Map.empty \<rparr>;
     Some (map (noNewRequiredFields_message crd (version_Name newVersion))
       (sets_List (newRequiredFields result)), rt)
   }"

definition noNewRequiredFields_Compare_ptr ::
  "('p \<Rightarrow> addr \<times> 'p) \<Rightarrow> (addr \<Rightarrow> 'p \<Rightarrow> 'p) \<Rightarrow> addr \<Rightarrow> 'p runtime \<Rightarrow> compare_fun" where
  "noNewRequiredFields_Compare_ptr get put rootp rt existingCRD newCRD =
     (case existingCRD of
        None \<Rightarrow> Some (Inr \<lparr> Name = noNewRequiredFields_Name, WhyItMatters = noNewRequiredFields_WhyItMatters,
          Errors = [], Warnings = [], Infos = [] \<rparr>)
      | Some existing \<Rightarrow> do {
          (errsToReport, _) \<leftarrow> range_do (\<lambda>newVersion (errsToReport, rt).
            case GetVersionByName (Some existing) (version_Name newVersion) of
              None \<Rightarrow> Some (errsToReport, rt)
            | Some existingVersion \<Rightarrow> do {
                (errs, rt) \<leftarrow> noNewRequiredFields_version get put rootp (crd_Name newCRD) existingVersion newVersion rt;
                Some (errsToReport @ errs, rt)
              }) (Versions newCRD) ([], rt);
          Some (Inr \<lparr> Name = noNewRequiredFields_Name, WhyItMatters = noNewRequiredFields_WhyItMatters,
            Errors = errsToReport, Warnings = [], Infos = [] \<rparr>)
        })"

section \<open>The comparison over visited nodes\<close>

text \<open>
  The same decisions with a trail in place of ancestor pointers, a function in place of the
  table of required fields, and the set of existing paths in place of the pointer table.
\<close>

definition field_optional :: "JSONSchemaProps \<Rightarrow> trail \<Rightarrow> Path \<Rightarrow> (string \<Rightarrow> strset) \<Rightarrow> bool" where
  "field_optional s trail f req \<longleftrightarrow>
     optional_array s \<or>
     (trail \<noteq> [] \<and> (\<exists>k\<in>set_option (lastIndexOrKey (path_String f)). k \<notin> req (path_String (snd (last trail)))))"

definition new_optional_at :: "trail \<Rightarrow> string set \<Rightarrow> (string \<Rightarrow> strset) \<Rightarrow> nat \<Rightarrow> bool" where
  "new_optional_at trail existing req i \<longleftrightarrow>
     field_optional (fst (trail ! i)) (take i trail) (snd (trail ! i)) req \<and>
     path_String (snd (trail ! i)) \<notin> existing \<and>
     (i = 0 \<or> (\<exists>k\<in>set_option (lastIndexOrKey (path_String (snd (trail ! i)))).
        k \<notin> req (path_String (snd (trail ! (i - 1))))))"

definition new_optional_ancestor :: "trail \<Rightarrow> string set \<Rightarrow> (string \<Rightarrow> strset) \<Rightarrow> bool" where
  "new_optional_ancestor trail existing req \<longleftrightarrow> (\<exists>i<length trail. new_optional_at trail existing req i)"

text \<open>What one node adds to the reported fields.\<close>

definition required_at ::
  "(string \<Rightarrow> strset) \<Rightarrow> string set \<Rightarrow> (string \<Rightarrow> strset) \<Rightarrow> (string \<Rightarrow> string) \<Rightarrow> trail_visit \<Rightarrow> strset" where
  "required_at old_req existing req simple t =
     (let s = at_schema t; p = path_String (at_fld t)
      in if Type (attrs s) = ''array''
         then if optional_array s \<or> new_optional_ancestor (at_trail t) existing req then {} else {simple p}
         else if Required (attrs s) = [] then {}
         else if p \<notin> existing \<and> field_optional s (at_trail t) (at_fld t) req then {}
         else if new_optional_ancestor (at_trail t) existing req then {}
         else (\<lambda>cur. simple p @ ''.'' @ cur) ` (set (Required (attrs s)) - old_req p))"

section \<open>The predicates see the visited nodes\<close>

definition path_link :: "required_vars \<Rightarrow> addr \<Rightarrow> JSONSchemaProps \<times> Path \<Rightarrow> bool" where
  "path_link st a n \<longleftrightarrow> newToFldPath st a = Some (snd n)"

definition stack_of :: "(addr \<Rightarrow> JSONSchemaProps) \<Rightarrow> (addr \<Rightarrow> Path option) \<Rightarrow> addr list \<Rightarrow> trail \<Rightarrow> bool" where
  "stack_of mem paths as trail \<longleftrightarrow> list_all2 (\<lambda>a n. mem a = fst n \<and> paths a = Some (snd n)) as trail"

lemma stack_of_nth:
  "stack_of mem paths as trail \<Longrightarrow> i < length trail \<Longrightarrow>
   mem (as ! i) = fst (trail ! i) \<and> paths (as ! i) = Some (snd (trail ! i))"
  by (simp add: stack_of_def list_all2_conv_all_nth)

lemma stack_of_length: "stack_of mem paths as trail \<Longrightarrow> length as = length trail"
  by (simp add: stack_of_def list_all2_lengthD)

lemma stack_of_take: "stack_of mem paths as trail \<Longrightarrow> stack_of mem paths (take i as) (take i trail)"
  by (simp add: stack_of_def list_all2_takeI)

lemma stack_of_last:
  assumes "stack_of mem paths as trail" and "trail \<noteq> []"
  shows "as \<noteq> []" and "paths (last as) = Some (snd (last trail))"
proof -
  from assms show "as \<noteq> []" using stack_of_length by fastforce
  then show "paths (last as) = Some (snd (last trail))"
    using assms stack_of_nth [of mem paths as trail "length trail - 1"] stack_of_length [OF assms(1)]
    by (simp add: last_conv_nth)
qed

lemma isFieldOptional_node:
  assumes "stack_of mem paths as trail" and "mem p = s"
  shows "isFieldOptional mem p as (Some f) paths req \<longleftrightarrow> field_optional s trail f (lookup_set req)"
proof (cases "trail = []")
  case True
  with assms stack_of_length [OF assms(1)] show ?thesis
    by (simp add: isFieldOptional_def field_optional_def)
next
  case False
  with assms stack_of_last [OF assms(1) False] show ?thesis
    by (simp add: isFieldOptional_def field_optional_def ptr_String_def Let_def sets_Has_def split: option.split)
qed

lemma ancestor_loop_nodes:
  assumes "stack_of mem paths as trail" and "n \<le> length trail"
  shows "ancestor_loop mem as existing paths req n \<longleftrightarrow>
    (\<exists>i<n. new_optional_at trail (dom (map_of existing)) (lookup_set req) i)"
  using assms(2)
proof (induction n)
  case 0
  then show ?case by simp
next
  case (Suc n)
  then have n: "n < length trail" by simp
  have at: "mem (as ! n) = fst (trail ! n)" "paths (as ! n) = Some (snd (trail ! n))"
    using stack_of_nth [OF assms(1) n] by simp_all
  have parent: "paths (as ! (n - 1)) = Some (snd (trail ! (n - 1)))"
    using stack_of_nth [OF assms(1), of "n - 1"] n by simp
  have "ancestor_loop mem as existing paths req (Suc n) \<longleftrightarrow>
      new_optional_at trail (dom (map_of existing)) (lookup_set req) n \<or>
      ancestor_loop mem as existing paths req n"
    unfolding ancestor_loop.simps Let_def at isFieldOptional_node [OF stack_of_take [OF assms(1)] at(1)]
      new_optional_at_def parent
    by (auto simp: ptr_String_def sets_Has_def domIff split: option.split)
  with Suc show ?case by (auto simp: less_Suc_eq)
qed

lemma isAnyAncestorNewAndNullable_nodes:
  assumes "stack_of mem paths as trail"
  shows "isAnyAncestorNewAndNullable mem as existing paths req \<longleftrightarrow>
    new_optional_ancestor trail (dom (map_of existing)) (lookup_set req)"
  using ancestor_loop_nodes [OF assms order_refl] stack_of_length [OF assms]
  by (simp add: isAnyAncestorNewAndNullable_def new_optional_ancestor_def)

lemma fold_insert_image: "fold (\<lambda>cur acc. sets_Insert acc [g cur]) xs acc = acc \<union> g ` set xs"
  by (induction xs arbitrary: acc) (auto simp: sets_Insert_def)

lemma sets_List_Required [simp]:
  "set (sets_List (sets_Difference (sets_NewString xs) old)) = set xs - old"
  by (subst sets_List_set) (simp_all add: sets_defs)

lemma sets_Insert_single: "sets_Insert s [x] = s \<union> {x}"
  by (simp add: sets_Insert_def)

interpretation required_walk: pointer_predicate "required_pred ex nw" newRequiredFields path_link
    "\<lambda>t acc. acc \<union> required_at (lookup_set (existingRequiredFields ex))
        (dom (map_of (existingFldPathToJSONSchemaProps ex)))
        (lookup_set (newFldPathToRequiredFields nw)) (lookup_string (new_fldPathToSimpleLocation nw)) t"
  for ex nw
proof unfold_locales
  fix mem :: "addr \<Rightarrow> JSONSchemaProps" and st :: required_vars
    and ancestry trail ptr s fldPath loc
  assume stack: "list_all2 (\<lambda>a n. mem a = fst n \<and> path_link st a n) ancestry trail"
    and ptr: "ptr \<notin> set ancestry" "mem ptr = s"
  let ?paths = "(newToFldPath st)(ptr \<mapsto> fldPath)"
  have st: "stack_of mem ?paths ancestry trail"
    unfolding stack_of_def
    by (rule list.rel_mono_strong [OF stack]) (use ptr(1) in \<open>auto simp: path_link_def\<close>)
  note nodes = isAnyAncestorNewAndNullable_nodes [OF st] isFieldOptional_node [OF st ptr(2)]
  let ?set = "newRequiredFields st \<union>
        required_at (lookup_set (existingRequiredFields ex))
          (dom (map_of (existingFldPathToJSONSchemaProps ex)))
          (lookup_set (newFldPathToRequiredFields nw)) (lookup_string (new_fldPathToSimpleLocation nw))
          \<lparr> at_schema = s, at_fld = fldPath, at_loc = loc, at_trail = trail \<rparr>"
  have "required_pred ex nw mem ptr fldPath loc ancestry st =
      Some (False, st\<lparr>newToFldPath := ?paths, newRequiredFields := ?set\<rparr>)"
  proof (cases "Type (attrs s) = ''array''")
    case True
    then show ?thesis
      by (simp add: required_pred_def required_at_def Let_def nodes ptr(2) optional_array_def sets_Insert_single)
  next
    case False
    then show ?thesis
      by (simp add: required_pred_def required_at_def Let_def nodes ptr(2) fold_insert_image domIff)
  qed
  then show "\<exists>st'. required_pred ex nw mem ptr fldPath loc ancestry st = Some (False, st') \<and>
      newRequiredFields st' = ?set \<and>
      path_link st' ptr (s, fldPath) \<and> (\<forall>a n. a \<noteq> ptr \<longrightarrow> path_link st a n \<longrightarrow> path_link st' a n)"
    by (simp add: path_link_def)
qed


section \<open>The tables of the first two walks\<close>

definition required_table :: "trail_visit list \<Rightarrow> string \<Rightarrow> strset" where
  "required_table vs = fold (\<lambda>t r. r(path_String (at_fld t) := set (Required (attrs (at_schema t))))) vs (\<lambda>_. {})"

definition location_table :: "trail_visit list \<Rightarrow> (string \<Rightarrow> string) \<Rightarrow> string \<Rightarrow> string" where
  "location_table vs = fold (\<lambda>t r. r(path_String (at_fld t) := path_String (at_loc t))) vs"

definition visited_paths :: "trail_visit list \<Rightarrow> string set" where
  "visited_paths vs = (\<lambda>t. path_String (at_fld t)) ` set vs"

lemma lookup_set_update: "lookup_set (AList.update k s m) = (lookup_set m)(k := s)"
  by (rule ext) (simp add: lookup_set_def update_conv')

lemma lookup_string_update: "lookup_string (AList.update k s m) = (lookup_string m)(k := s)"
  by (rule ext) (simp add: lookup_string_def update_conv')

lemmas lookup_updates = lookup_set_update lookup_string_update

lemma lookup_empty [simp]: "lookup_set [] = (\<lambda>_. {})" "lookup_string [] = (\<lambda>_. [])"
  by (auto simp: lookup_set_def lookup_string_def)

type_synonym existing_tables = "(string \<Rightarrow> strset) \<times> string set \<times> (string \<Rightarrow> string)"
type_synonym new_tables = "(string \<Rightarrow> strset) \<times> (string \<Rightarrow> string)"

definition existing_tables :: "existing_vars \<Rightarrow> existing_tables" where
  "existing_tables vars = (lookup_set (existingRequiredFields vars),
     dom (map_of (existingFldPathToJSONSchemaProps vars)), lookup_string (fldPathToSimpleLocation vars))"

definition new_tables :: "new_vars \<Rightarrow> new_tables" where
  "new_tables vars = (lookup_set (newFldPathToRequiredFields vars), lookup_string (new_fldPathToSimpleLocation vars))"

definition note_existing :: "trail_visit \<Rightarrow> existing_tables \<Rightarrow> existing_tables" where
  "note_existing t = (\<lambda>(r, d, l). let p = path_String (at_fld t)
     in (r(p := set (Required (attrs (at_schema t)))), insert p d, l(p := path_String (at_loc t))))"

definition note_new :: "trail_visit \<Rightarrow> new_tables \<Rightarrow> new_tables" where
  "note_new t = (\<lambda>(r, l). let p = path_String (at_fld t)
     in (r(p := set (Required (attrs (at_schema t)))), l(p := path_String (at_loc t))))"

interpretation existing_walk: pointer_predicate existing_pred existing_tables "\<lambda>_ _ _. True" note_existing
  by unfold_locales
    (simp add: existing_pred_def existing_tables_def note_existing_def Let_def lookup_updates sets_NewString_def
      update_conv')

interpretation collect_walk: pointer_predicate collect_pred new_tables "\<lambda>_ _ _. True" note_new
  by unfold_locales
    (simp add: collect_pred_def new_tables_def note_new_def Let_def lookup_updates sets_NewString_def)

lemma fold_note_existing:
  "fold note_existing vs (r, d, l) =
     (fold (\<lambda>t r. r(path_String (at_fld t) := set (Required (attrs (at_schema t))))) vs r,
      d \<union> visited_paths vs, location_table vs l)"
  by (induction vs arbitrary: r d l) (auto simp: note_existing_def Let_def location_table_def visited_paths_def)

lemma fold_note_new:
  "fold note_new vs (r, l) =
     (fold (\<lambda>t r. r(path_String (at_fld t) := set (Required (attrs (at_schema t))))) vs r, location_table vs l)"
  by (induction vs arbitrary: r l) (auto simp: note_new_def Let_def location_table_def)

lemma fold_Un_steps: "fold (\<lambda>t acc. acc \<union> g t) vs acc = acc \<union> \<Union> (g ` set vs)"
  by (induction vs arbitrary: acc) auto

section \<open>The comparison without pointers\<close>

definition required_fields :: "trail_visit list \<Rightarrow> trail_visit list \<Rightarrow> strset" where
  "required_fields old new =
     \<Union> (required_at (required_table old) (visited_paths old) (required_table new)
           (location_table new (location_table old (\<lambda>_. []))) ` set new)"

definition noNewRequiredFields_check :: version_check where
  "noNewRequiredFields_check crd existingVersion newVersion = do {
     existingSchema \<leftarrow> version_schema existingVersion;
     newSchema \<leftarrow> version_schema newVersion;
     Some (map (noNewRequiredFields_message crd (version_Name newVersion))
       (sets_List (required_fields (trail_nodes existingSchema) (trail_nodes newSchema))))
   }"

definition noNewRequiredFields_over_visits :: compare_fun where
  "noNewRequiredFields_over_visits existingCRD newCRD =
     (case existingCRD of
        None \<Rightarrow> Some (Inr \<lparr> Name = noNewRequiredFields_Name, WhyItMatters = noNewRequiredFields_WhyItMatters,
          Errors = [], Warnings = [], Infos = [] \<rparr>)
      | Some existing \<Rightarrow> do {
          errsToReport \<leftarrow> version_loop noNewRequiredFields_check existing newCRD;
          Some (Inr \<lparr> Name = noNewRequiredFields_Name, WhyItMatters = noNewRequiredFields_WhyItMatters,
            Errors = errsToReport, Warnings = [], Infos = [] \<rparr>)
        })"

text \<open>
  The method of the program: the run over pointers, from a pool that starts empty and hands out
  what was put back last. Any other pool gives the same results, as shown below.
\<close>

definition fresh_runtime :: "pool runtime" where
  "fresh_runtime = \<lparr> runtime_structs = \<lambda>_. leaf_schema zero_attrs,
     runtime_pool = \<lparr> pool_free = [], pool_fresh = 1, pool_gets = 0 \<rparr> \<rparr>"

definition last_put :: pool_choice where
  "last_put n free = (if free = [] then None else Some (hd free))"

definition noNewRequiredFields_Compare :: compare_fun where
  "noNewRequiredFields_Compare = noNewRequiredFields_Compare_ptr (pool_Get last_put) pool_Put 0 fresh_runtime"

definition NoNewRequiredFields :: CRDComparator where
  "NoNewRequiredFields = \<lparr> comparator_Name = noNewRequiredFields_Name,
     comparator_Why = noNewRequiredFields_WhyItMatters, Compare = noNewRequiredFields_Compare \<rparr>"


section \<open>The walks compute the comparison, whatever the pool does\<close>

interpretation existing_pool: pooled_walk "pool_Get pick" pool_Put pool_inv existing_pred existing_tables
    "\<lambda>_ _ _. True" note_existing for pick
  by unfold_locales

interpretation collect_pool: pooled_walk "pool_Get pick" pool_Put pool_inv collect_pred new_tables
    "\<lambda>_ _ _. True" note_new for pick
  by unfold_locales

interpretation required_pool: pooled_walk "pool_Get pick" pool_Put pool_inv "required_pred ex nw" newRequiredFields
    path_link "\<lambda>t acc. acc \<union> required_at (lookup_set (existingRequiredFields ex))
        (dom (map_of (existingFldPathToJSONSchemaProps ex)))
        (lookup_set (newFldPathToRequiredFields nw)) (lookup_string (new_fldPathToSimpleLocation nw)) t"
  for pick ex nw
  by unfold_locales

lemma noNewRequiredFields_version_returns:
  assumes pool: "pool_inv {rootp} (runtime_pool rt)"
    and schemas: "version_schema u = Some su" "version_schema v = Some sv"
  shows "\<exists>rt'. noNewRequiredFields_version (pool_Get pick) pool_Put rootp crd u v rt =
      Some (map (noNewRequiredFields_message crd (version_Name v))
        (sets_List (required_fields (trail_nodes su) (trail_nodes sv))), rt') \<and>
    pool_inv {rootp} (runtime_pool rt')"
proof -
  let ?old = "trail_nodes su" and ?new = "trail_nodes sv"
  let ?ex0 = "\<lparr> existingRequiredFields = [], existingFldPathToJSONSchemaProps = [], fldPathToSimpleLocation = [] \<rparr>"
  obtain rt1 ex where ex: "walk_schema_ptr (pool_Get pick) pool_Put existing_pred rootp su rt ?ex0 = Some (rt1, ex)"
      "pool_inv {rootp} (runtime_pool rt1)" "existing_tables ex = fold note_existing ?old (existing_tables ?ex0)"
    using existing_pool.walk_schema_ptr_folds [OF pool] by blast
  have ex_tables: "lookup_set (existingRequiredFields ex) = required_table ?old"
      "dom (map_of (existingFldPathToJSONSchemaProps ex)) = visited_paths ?old"
      "lookup_string (fldPathToSimpleLocation ex) = location_table ?old (\<lambda>_. [])"
    using ex(3) by (simp_all add: existing_tables_def fold_note_existing required_table_def)
  let ?nw0 = "\<lparr> newFldPathToRequiredFields = [], new_fldPathToSimpleLocation = fldPathToSimpleLocation ex \<rparr>"
  obtain rt2 nw where nw: "walk_schema_ptr (pool_Get pick) pool_Put collect_pred rootp sv rt1 ?nw0 = Some (rt2, nw)"
      "pool_inv {rootp} (runtime_pool rt2)" "new_tables nw = fold note_new ?new (new_tables ?nw0)"
    using collect_pool.walk_schema_ptr_folds [OF ex(2)] by blast
  have nw_tables: "lookup_set (newFldPathToRequiredFields nw) = required_table ?new"
      "lookup_string (new_fldPathToSimpleLocation nw) = location_table ?new (location_table ?old (\<lambda>_. []))"
    using nw(3) by (simp_all add: new_tables_def fold_note_new required_table_def ex_tables)
  let ?r0 = "\<lparr> newRequiredFields = sets_NewString [], newToFldPath = Map.empty \<rparr>"
  obtain rt3 r where r: "walk_schema_ptr (pool_Get pick) pool_Put (required_pred ex nw) rootp sv rt2 ?r0 = Some (rt3, r)"
      "pool_inv {rootp} (runtime_pool rt3)" "newRequiredFields r = required_fields ?old ?new"
    using required_pool.walk_schema_ptr_folds [OF nw(2), where pick = pick and ex = ex and nw = nw and st = ?r0 and s = sv]
    by (auto simp: fold_Un_steps ex_tables nw_tables required_fields_def sets_NewString_def)
  show ?thesis
    using ex(1) nw(1) r by (simp add: noNewRequiredFields_version_def schemas)
qed

lemma noNewRequiredFields_version_check:
  assumes "pool_inv {rootp} (runtime_pool rt)"
  shows "map_option fst (noNewRequiredFields_version (pool_Get pick) pool_Put rootp crd u v rt) =
      noNewRequiredFields_check crd u v"
    and "noNewRequiredFields_version (pool_Get pick) pool_Put rootp crd u v rt = Some (errs, rt') \<Longrightarrow>
      pool_inv {rootp} (runtime_pool rt')"
proof -
  have none: "noNewRequiredFields_version (pool_Get pick) pool_Put rootp crd u v rt = None"
    if "version_schema u = None \<or> version_schema v = None"
    using that by (auto simp: noNewRequiredFields_version_def bind_eq_None_conv)
  then show "map_option fst (noNewRequiredFields_version (pool_Get pick) pool_Put rootp crd u v rt) =
      noNewRequiredFields_check crd u v"
    using noNewRequiredFields_version_returns [OF assms, of u _ v _ pick crd]
    by (cases "version_schema u"; cases "version_schema v") (fastforce simp: noNewRequiredFields_check_def)+
  show "pool_inv {rootp} (runtime_pool rt')"
    if "noNewRequiredFields_version (pool_Get pick) pool_Put rootp crd u v rt = Some (errs, rt')"
    using that none noNewRequiredFields_version_returns [OF assms, of u _ v _ pick crd]
    by (cases "version_schema u"; cases "version_schema v") fastforce+
qed


lemma noNewRequiredFields_loop_pool:
  fixes rt :: "pool runtime"
  assumes "pool_inv {rootp} (runtime_pool rt)"
  shows "map_option fst (range_do (\<lambda>newVersion (errsToReport, rt).
            case GetVersionByName (Some existing) (version_Name newVersion) of
              None \<Rightarrow> Some (errsToReport, rt)
            | Some existingVersion \<Rightarrow> do {
                (errs, rt) \<leftarrow> noNewRequiredFields_version (pool_Get pick) pool_Put rootp crd existingVersion newVersion rt;
                Some (errsToReport @ errs, rt)
              }) vs (acc, rt)) =
    range_do (\<lambda>newVersion errsToReport.
       case GetVersionByName (Some existing) (version_Name newVersion) of
         None \<Rightarrow> Some errsToReport
       | Some existingVersion \<Rightarrow> do {
           errs \<leftarrow> noNewRequiredFields_check crd existingVersion newVersion;
           Some (errsToReport @ errs)
         }) vs acc"
  using assms
proof (induction vs arbitrary: acc rt)
  case Nil
  then show ?case by simp
next
  case (Cons v vs)
  show ?case
  proof (cases "GetVersionByName (Some existing) (version_Name v)")
    case None
    with Cons show ?thesis by simp
  next
    case (Some u)
    note check = noNewRequiredFields_version_check [OF Cons.prems, of pick crd u v]
    show ?thesis
    proof (cases "noNewRequiredFields_version (pool_Get pick) pool_Put rootp crd u v rt")
      case None
      with check(1) Some show ?thesis by simp
    next
      case returned: (Some r)
      obtain errs rt' where r: "r = (errs, rt')" by (cases r)
      from returned r check(1) have "noNewRequiredFields_check crd u v = Some errs" by simp
      with returned r Some Cons.IH [OF check(2) [OF returned [unfolded r]]] show ?thesis by simp
    qed
  qed
qed

text \<open>So the result is a function of the two CRDs, though the program runs over pooled pointers.\<close>

lemma noNewRequiredFields_Compare_pool:
  assumes "pool_inv {rootp} (runtime_pool rt)"
  shows "noNewRequiredFields_Compare_ptr (pool_Get pick) pool_Put rootp rt existing new =
    noNewRequiredFields_over_visits existing new"
proof (cases existing)
  case None
  then show ?thesis by (simp add: noNewRequiredFields_Compare_ptr_def noNewRequiredFields_over_visits_def)
next
  case (Some e)
  have drop_state: "(do { (errs, _) \<leftarrow> x; Some (f errs) }) = map_option f (map_option fst x)"
    for x :: "('e \<times> 'f) option" and f :: "'e \<Rightarrow> 'g"
    by (cases x) auto
  show ?thesis
    by (simp only: Some noNewRequiredFields_Compare_ptr_def noNewRequiredFields_over_visits_def option.case
        drop_state noNewRequiredFields_loop_pool [OF assms])
      (simp add: version_loop_def map_conv_bind_option comp_def)
qed

lemma fresh_runtime_inv: "pool_inv {0} (runtime_pool fresh_runtime)"
  by (simp add: fresh_runtime_def pool_inv_def)

lemma noNewRequiredFields_Compare_visits [code]:
  "noNewRequiredFields_Compare existing new = noNewRequiredFields_over_visits existing new"
  unfolding noNewRequiredFields_Compare_def by (rule noNewRequiredFields_Compare_pool [OF fresh_runtime_inv])

section \<open>What is reported\<close>

lemma finite_required_at [simp]: "finite (required_at old_req existing req simple t)"
  by (simp add: required_at_def Let_def)

lemma finite_required_fields [simp]: "finite (required_fields old new)"
  by (simp add: required_fields_def)

text \<open>
  The tables are written once per visited node, so what a path maps to is the last node of that
  path. The nodes of one path agree when they require the same fields.
\<close>

definition paths_agree :: "trail_visit list \<Rightarrow> bool" where
  "paths_agree vs \<longleftrightarrow> (\<forall>t\<in>set vs. \<forall>t'\<in>set vs. path_String (at_fld t) = path_String (at_fld t') \<longrightarrow>
     set (Required (attrs (at_schema t))) = set (Required (attrs (at_schema t'))))"

lemma required_table_snoc:
  "required_table (vs @ [t]) = (required_table vs)(path_String (at_fld t) := set (Required (attrs (at_schema t))))"
  by (simp add: required_table_def)

lemma required_table_last:
  "required_table vs p =
    (let xs = filter (\<lambda>t. path_String (at_fld t) = p) vs
     in if xs = [] then {} else set (Required (attrs (at_schema (last xs)))))"
proof (induction vs rule: rev_induct)
  case Nil
  then show ?case by (simp add: required_table_def)
next
  case (snoc t vs)
  then show ?case by (simp add: required_table_snoc Let_def)
qed

lemma required_table_agree:
  assumes "paths_agree vs" and "t \<in> set vs"
  shows "required_table vs (path_String (at_fld t)) = set (Required (attrs (at_schema t)))"
proof -
  let ?same = "filter (\<lambda>t'. path_String (at_fld t') = path_String (at_fld t)) vs"
  from assms(2) have ne: "?same \<noteq> []" by (auto simp: filter_empty_conv)
  then have "last ?same \<in> set ?same" by (rule last_in_set)
  then have "set (Required (attrs (at_schema (last ?same)))) = set (Required (attrs (at_schema t)))"
    using assms unfolding paths_agree_def by (metis (mono_tags, lifting) mem_Collect_eq set_filter)
  moreover from ne have "required_table vs (path_String (at_fld t)) = set (Required (attrs (at_schema (last ?same))))"
    by (simp add: required_table_last Let_def)
  ultimately show ?thesis by simp
qed

definition required_settled :: "CRDVersion \<Rightarrow> bool" where
  "required_settled v \<longleftrightarrow> (\<forall>s\<in>set_option (version_schema v). paths_agree (trail_nodes s) \<and>
     (\<forall>t\<in>set (trail_nodes s). Type (attrs (at_schema t)) = ''array'' \<longrightarrow> optional_array (at_schema t)))"

lemma required_at_self:
  assumes "Type (attrs (at_schema t)) = ''array'' \<longrightarrow> optional_array (at_schema t)"
    and "old_req (path_String (at_fld t)) = set (Required (attrs (at_schema t)))"
  shows "required_at old_req existing req simple t = {}"
  using assms by (simp add: required_at_def Let_def)

lemma required_fields_self:
  assumes "paths_agree vs" and "\<forall>t\<in>set vs. Type (attrs (at_schema t)) = ''array'' \<longrightarrow> optional_array (at_schema t)"
  shows "required_fields vs vs = {}"
  using assms by (simp add: required_fields_def required_at_self required_table_agree)

interpretation noNewRequiredFields: version_comparator noNewRequiredFields_Compare noNewRequiredFields_Name
    noNewRequiredFields_WhyItMatters noNewRequiredFields_check required_settled
proof unfold_locales
  show "noNewRequiredFields_Compare existing new =
      (case existing of
         None \<Rightarrow> Some (Inr \<lparr> Name = noNewRequiredFields_Name, WhyItMatters = noNewRequiredFields_WhyItMatters,
           Errors = [], Warnings = [], Infos = [] \<rparr>)
       | Some e \<Rightarrow> do {
           errs \<leftarrow> version_loop noNewRequiredFields_check e new;
           Some (Inr \<lparr> Name = noNewRequiredFields_Name, WhyItMatters = noNewRequiredFields_WhyItMatters,
             Errors = errs, Warnings = [], Infos = [] \<rparr>)
         })" for existing new
    unfolding noNewRequiredFields_Compare_visits by (rule noNewRequiredFields_over_visits_def)
  show "\<exists>errs. noNewRequiredFields_check k u v = Some errs" if "has_schema u" "has_schema v" for u v k
    using version_schema_ok [OF that(1)] version_schema_ok [OF that(2)]
    by (auto simp: noNewRequiredFields_check_def)
  show "noNewRequiredFields_check k v v = Some []" if "has_schema v" "required_settled v" for v k
    using version_schema_ok [OF that(1)] that(2)
    by (auto simp: noNewRequiredFields_check_def required_settled_def required_fields_self)
qed


lemma noNewRequiredFields_messages_iff:
  assumes "crd_ok e" and "crd_ok n"
  shows "m \<in> set (check_messages noNewRequiredFields_check e n) \<longleftrightarrow>
    (\<exists>u v su sv t fld. (u, v) \<in> set (version_pairs e n) \<and> version_schema u = Some su \<and> version_schema v = Some sv \<and>
       t \<in> set (trail_nodes sv) \<and>
       fld \<in> required_at (required_table (trail_nodes su)) (visited_paths (trail_nodes su))
         (required_table (trail_nodes sv))
         (location_table (trail_nodes sv) (location_table (trail_nodes su) (\<lambda>_. []))) t \<and>
       m = noNewRequiredFields_message (crd_Name n) (version_Name v) fld)"
proof -
  have check: "(\<exists>errs. noNewRequiredFields_check (crd_Name n) u v = Some errs \<and> m \<in> set errs) \<longleftrightarrow>
      (\<exists>su sv. version_schema u = Some su \<and> version_schema v = Some sv \<and>
        (\<exists>fld\<in>required_fields (trail_nodes su) (trail_nodes sv).
           m = noNewRequiredFields_message (crd_Name n) (version_Name v) fld))" for u v
    by (cases "version_schema u"; cases "version_schema v") (auto simp: noNewRequiredFields_check_def)
  show ?thesis
    by (simp only: check_messages_iff check required_fields_def UN_iff split_paired_Bex_Sigma)
      (simp add: Bex_def case_prod_unfold, blast)
qed

text \<open>A node below an optional new ancestor is never reported.\<close>

lemma required_at_new_optional:
  "new_optional_ancestor (at_trail t) existing req \<Longrightarrow> required_at old_req existing req simple t = {}"
  by (simp add: required_at_def Let_def)

text \<open>
  An object that was there before, with all its ancestors, may not require a field it did not
  require: every such field is reported.
\<close>

lemma required_at_existing:
  assumes "Type (attrs (at_schema t)) \<noteq> ''array''" and "r \<in> set (Required (attrs (at_schema t)))"
    and "r \<notin> old_req (path_String (at_fld t))" and "path_String (at_fld t) \<in> existing"
    and "\<forall>(_, f)\<in>set (at_trail t). path_String f \<in> existing"
  shows "simple (path_String (at_fld t)) @ ''.'' @ r \<in> required_at old_req existing req simple t"
proof -
  have "path_String (snd (at_trail t ! i)) \<in> existing" if "i < length (at_trail t)" for i
    using assms(5) nth_mem [OF that] by (auto simp: case_prod_unfold)
  then have "\<not> new_optional_ancestor (at_trail t) existing req"
    by (auto simp: new_optional_ancestor_def new_optional_at_def)
  with assms show ?thesis by (auto simp: required_at_def Let_def)
qed

text \<open>The key of the last step, for a path that ends in \<open>[k]\<close>.\<close>

lemma lastIndexOrKey_key:
  assumes k: "k \<noteq> []" "CHR '']'' \<notin> set k" "CHR ''['' \<notin> set k" and w: "newline \<notin> set w"
  shows "lastIndexOrKey (w @ ''['' @ k @ '']'') = Some k"
proof -
  let ?b = "w @ CHR ''['' # k"
  have split: "[0..<length ?b] = [0..<length w] @ length w # [Suc (length w)..<length ?b]"
    using upt_add_eq_append [of 0 "length w" "Suc (length k)"] upt_conv_Cons [of "length w" "length w + Suc (length k)"]
    by simp
  have after: "p \<notin> set (bracket_starts ?b 0)" if "length w < p" "p < length ?b" for p
  proof -
    from that have "?b ! p = k ! (p - Suc (length w))" by (simp add: nth_append nth_Cons')
    moreover have "k ! (p - Suc (length w)) \<in> set k" using that by (intro nth_mem) simp
    ultimately show ?thesis using k(3) by (auto simp: bracket_starts_def)
  qed
  have later: "filter (\<lambda>p. p \<in> set (bracket_starts ?b 0)) [Suc (length w)..<length ?b] = []"
    unfolding filter_empty_conv set_upt using after by simp
  have here: "length w \<in> set (bracket_starts ?b 0)"
    using k w by (simp add: bracket_starts_def)
  have "bracket_starts ?b 0 = filter (\<lambda>p. p \<in> set (bracket_starts ?b 0)) [0..<length ?b]"
    unfolding bracket_starts_def by (intro filter_cong) auto
  also have "\<dots> = filter (\<lambda>p. p \<in> set (bracket_starts ?b 0)) [0..<length w] @ [length w]"
    by (simp only: split filter_append filter.simps here later if_True)
  finally have starts: "last (bracket_starts ?b 0) = length w" "bracket_starts ?b 0 \<noteq> []"
    by (metis last_snoc, metis snoc_eq_iff_butlast)
  have "[0..<length ?b] = 0 # [1..<length ?b]" by (simp add: upt_conv_Cons del: upt_Suc)
  then have "find (\<lambda>i. bracket_starts ?b i \<noteq> []) [0..<length ?b] = Some 0"
    using starts(2) by simp
  with starts show ?thesis
    by (simp add: lastIndexOrKey_def butlast_append Let_def)
qed

section \<open>Which requirements are allowed\<close>

text \<open>
  A node of the new schema, against the visits of both schemas. An array may have a minimum
  length only below a new optional node. Another node may require what it required before, and
  anything when it is new and optional or lies below a new optional node.
\<close>

definition requirement_allowed :: "trail_visit list \<Rightarrow> trail_visit list \<Rightarrow> trail_visit \<Rightarrow> bool" where
  "requirement_allowed old new t \<longleftrightarrow>
     (let s = at_schema t; p = path_String (at_fld t);
          below_new = new_optional_ancestor (at_trail t) (visited_paths old) (required_table new)
      in if Type (attrs s) = ''array'' then optional_array s \<or> below_new
         else set (Required (attrs s)) \<subseteq> required_table old p \<or>
           (p \<notin> visited_paths old \<and> field_optional s (at_trail t) (at_fld t) (required_table new)) \<or> below_new)"

lemma required_at_empty_iff:
  "required_at (required_table old) (visited_paths old) (required_table new) simple t = {} \<longleftrightarrow>
   requirement_allowed old new t"
  by (auto simp: required_at_def requirement_allowed_def Let_def)

lemma required_fields_empty_iff:
  "required_fields old new = {} \<longleftrightarrow> (\<forall>t\<in>set new. requirement_allowed old new t)"
  by (simp add: required_fields_def required_at_empty_iff)

text \<open>The two lists of visits of a pair of versions.\<close>

definition version_trails :: "CRDVersion \<Rightarrow> trail_visit list" where
  "version_trails v = (case Schema v of None \<Rightarrow> [] | Some val \<Rightarrow> trail_nodes (OpenAPIV3Schema val))"

lemma noNewRequiredFields_check_trails:
  assumes "has_schema u" and "has_schema v"
  shows "noNewRequiredFields_check k u v = Some (map (noNewRequiredFields_message k (version_Name v))
    (sets_List (required_fields (version_trails u) (version_trails v))))"
  using assms
  by (auto simp: noNewRequiredFields_check_def version_schema_def has_schema_def version_trails_def)

lemma noNewRequiredFields_pair:
  assumes "crd_ok e" and "crd_ok n" and "(u, v) \<in> set (version_pairs e n)"
  shows "noNewRequiredFields_check k u v = Some (map (noNewRequiredFields_message k (version_Name v))
    (sets_List (required_fields (version_trails u) (version_trails v))))"
  by (rule noNewRequiredFields_check_trails)
    (use assms version_pairs_existing [OF assms(3)] in \<open>auto simp: crd_ok_def list_all_iff\<close>)

text \<open>The ancestors of a visit are visits themselves.\<close>

lemma trail_paths_visited:
  assumes "t \<in> set (trail_visits s f l tr)" and "n \<in> set (at_trail t)"
  shows "n \<in> set tr \<or> path_String (snd n) \<in> visited_paths (trail_visits s f l tr)"
  using assms
proof (induction s f l tr rule: trail_visits.induct)
  case (1 s f l tr)
  let ?root = "\<lparr> at_schema = s, at_fld = f, at_loc = l, at_trail = tr \<rparr>"
  have visits: "set (trail_visits s f l tr) = insert ?root
      (\<Union>(c, f', l')\<in>set (schema_children s f l). set (trail_visits c f' l' (tr @ [(s, f)])))"
    by (subst trail_visits.simps) (simp add: case_prod_unfold)
  then have root: "path_String f \<in> visited_paths (trail_visits s f l tr)"
    by (force simp: visited_paths_def)
  from "1.prems"(1) consider "t = ?root"
    | c f' l' where "(c, f', l') \<in> set (schema_children s f l)" "t \<in> set (trail_visits c f' l' (tr @ [(s, f)]))"
    unfolding visits by auto
  then show ?case
  proof cases
    case 1
    with "1.prems"(2) show ?thesis by simp
  next
    case (2 c f' l')
    have "visited_paths (trail_visits c f' l' (tr @ [(s, f)])) \<subseteq> visited_paths (trail_visits s f l tr)"
      unfolding visited_paths_def visits using 2(1) by auto
    with "1.IH" [OF 2(1) refl refl 2(2) "1.prems"(2)] root show ?thesis by auto
  qed
qed

lemma no_new_ancestor_self:
  assumes "t \<in> set (version_trails v)"
  shows "\<not> new_optional_ancestor (at_trail t) (visited_paths (version_trails v)) req"
proof -
  have "\<exists>s. version_trails v = trail_visits s (NewPath ''^'' []) (NewPath ''^'' []) []"
    using assms by (auto simp: version_trails_def trail_nodes_def split: option.splits)
  then obtain s where s: "version_trails v = trail_visits s (NewPath ''^'' []) (NewPath ''^'' []) []" ..
  have "path_String (snd (at_trail t ! i)) \<in> visited_paths (version_trails v)" if "i < length (at_trail t)" for i
    using trail_paths_visited [OF assms [unfolded s] nth_mem [OF that]] by (simp add: s)
  then show ?thesis by (auto simp: new_optional_ancestor_def new_optional_at_def)
qed

section \<open>Properties\<close>

text \<open>
  C8. The comparator runs over structs that the walk takes from a pool and gives back, and keys a
  map by their addresses. Whatever the pool held before, as long as it holds no address twice nor
  that of the root, and whichever struct it hands out, new or put back before, the result is that
  of the comparison over visited nodes, where no address occurs: a reused address never stands for
  two ancestors at once. The comparator of the registry, over a fresh pool, is one such run.
\<close>

theorem noNewRequiredFields_pool_independent:
  assumes "pool_inv {rootp} (runtime_pool rt)"
  shows "noNewRequiredFields_Compare_ptr (pool_Get pick) pool_Put rootp rt existing new =
      noNewRequiredFields_over_visits existing new \<and>
    noNewRequiredFields_Compare existing new = noNewRequiredFields_over_visits existing new"
  using noNewRequiredFields_Compare_pool [OF assms] noNewRequiredFields_Compare_visits by simp

theorem noNewRequiredFields_pool_independent_witness:
  "noNewRequiredFields_Compare_ptr (pool_Get (\<lambda>_ _. None)) pool_Put 0
     fresh_runtime (Some plain_widgets) switch_widgets =
   noNewRequiredFields_over_visits (Some plain_widgets) switch_widgets"
  using noNewRequiredFields_pool_independent [OF fresh_runtime_inv] by blast

text \<open>
  C9. Nothing is reported exactly when every node of every new version that existed before has an
  allowed requirement.
\<close>

theorem noNewRequiredFields_accepts_iff:
  assumes "crd_ok existing" and "crd_ok new"
  shows "accepts (noNewRequiredFields_Compare (Some existing) new) \<longleftrightarrow>
    (\<forall>(u, v)\<in>set (version_pairs existing new). \<forall>t\<in>set (version_trails v).
       requirement_allowed (version_trails u) (version_trails v) t)"
proof -
  have "(\<forall>m. m \<notin> set (check_messages noNewRequiredFields_check existing new)) \<longleftrightarrow>
      (\<forall>(u, v)\<in>set (version_pairs existing new). required_fields (version_trails u) (version_trails v) = {})"
    unfolding check_messages_iff
    using noNewRequiredFields_pair [OF assms, of _ _ "crd_Name new"] by (fastforce simp: case_prod_unfold)
  then have "check_messages noNewRequiredFields_check existing new = [] \<longleftrightarrow>
      (\<forall>(u, v)\<in>set (version_pairs existing new). required_fields (version_trails u) (version_trails v) = {})"
    by (metis last_in_set list.set(1) empty_iff)
  then show ?thesis
    by (simp add: accepts_def no_messages_def noNewRequiredFields.compare_some [OF assms] required_fields_empty_iff)
qed

text \<open>An object \<open>top\<close> that requires \<open>thingy\<close>, itself required by the root or not.\<close>

definition wrapped_widgets :: "string list \<Rightarrow> CRD" where
  "wrapped_widgets required = widgets (object_schema (requiring required)
     [(''name'', string_field), (''top'', object_schema (requiring [''thingy'']) [(''thingy'', string_field)])])"

theorem noNewRequiredFields_accepts_iff_witness:
  "accepts (noNewRequiredFields_Compare (Some plain_widgets) (wrapped_widgets [])) \<and>
   \<not> accepts (noNewRequiredFields_Compare (Some plain_widgets) (wrapped_widgets [''top'']))"
proof -
  have ok: "crd_ok (wrapped_widgets r)" for r by (simp add: wrapped_widgets_def)
  have allowed: "\<forall>(u, v)\<in>set (version_pairs plain_widgets (wrapped_widgets [])). \<forall>t\<in>set (version_trails v).
       requirement_allowed (version_trails u) (version_trails v) t"
    by code_simp
  have forbidden: "\<not> (\<forall>(u, v)\<in>set (version_pairs plain_widgets (wrapped_widgets [''top''])). \<forall>t\<in>set (version_trails v).
       requirement_allowed (version_trails u) (version_trails v) t)"
    by code_simp
  show ?thesis
    using allowed forbidden noNewRequiredFields_accepts_iff [OF crd_ok_examples(1) ok, of "[]"]
      noNewRequiredFields_accepts_iff [OF crd_ok_examples(1) ok, of "[''top'']"] by blast
qed

text \<open>
  C31. In particular, when an object was there before with all its ancestors and now requires a
  field that its path did not require, the error about that field is reported.
\<close>

theorem newly_required_field_reported:
  assumes "crd_ok existing" and "crd_ok new" and "(u, v) \<in> set (version_pairs existing new)"
    and "t \<in> set (version_trails v)" and "Type (attrs (at_schema t)) \<noteq> ''array''"
    and "r \<in> set (Required (attrs (at_schema t)))"
    and "r \<notin> required_table (version_trails u) (path_String (at_fld t))"
    and "path_String (at_fld t) \<in> visited_paths (version_trails u)"
    and "\<forall>(_, f)\<in>set (at_trail t). path_String f \<in> visited_paths (version_trails u)"
  shows "\<exists>res. noNewRequiredFields_Compare (Some existing) new = Some (Inr res) \<and>
    noNewRequiredFields_message (crd_Name new) (version_Name v)
      (location_table (version_trails v) (location_table (version_trails u) (\<lambda>_. [])) (path_String (at_fld t)) @ ''.'' @ r)
      \<in> set (Errors res)"
proof -
  let ?fld = "location_table (version_trails v) (location_table (version_trails u) (\<lambda>_. [])) (path_String (at_fld t)) @ ''.'' @ r"
  have "?fld \<in> required_fields (version_trails u) (version_trails v)"
    unfolding required_fields_def
    by (rule UN_I [OF assms(4)]) (rule required_at_existing; use assms(5-9) in simp)
  then have "noNewRequiredFields_message (crd_Name new) (version_Name v) ?fld
      \<in> set (check_messages noNewRequiredFields_check existing new)"
    unfolding check_messages_iff
    using assms(3) noNewRequiredFields_pair [OF assms(1-3), of "crd_Name new"] by fastforce
  then show ?thesis by (simp add: noNewRequiredFields.compare_some [OF assms(1,2)])
qed

text \<open>The root of the plain CRD, now requiring its name.\<close>

definition named_widgets :: CRD where
  "named_widgets = widgets (object_schema (requiring [''name'']) [(''name'', string_field)])"

theorem newly_required_field_reported_witness:
  "\<exists>res. noNewRequiredFields_Compare (Some plain_widgets) named_widgets = Some (Inr res) \<and>
     ''crd/widgets version/v1 field/^.name is new and may not be required'' \<in> set (Errors res)"
proof -
  let ?u = "hd (Versions plain_widgets)" and ?v = "hd (Versions named_widgets)"
  let ?t = "hd (version_trails ?v)"
  have facts: "(?u, ?v) \<in> set (version_pairs plain_widgets named_widgets)" "?t \<in> set (version_trails ?v)"
    "Type (attrs (at_schema ?t)) \<noteq> ''array''" "''name'' \<in> set (Required (attrs (at_schema ?t)))"
    "''name'' \<notin> required_table (version_trails ?u) (path_String (at_fld ?t))"
    "path_String (at_fld ?t) \<in> visited_paths (version_trails ?u)"
    "\<forall>(_, f)\<in>set (at_trail ?t). path_String f \<in> visited_paths (version_trails ?u)"
    by code_simp+
  have message: "noNewRequiredFields_message (crd_Name named_widgets) (version_Name ?v)
      (location_table (version_trails ?v) (location_table (version_trails ?u) (\<lambda>_. [])) (path_String (at_fld ?t)) @ ''.'' @ ''name'') =
    ''crd/widgets version/v1 field/^.name is new and may not be required''"
    by code_simp
  have ok: "crd_ok named_widgets" by (simp add: named_widgets_def)
  show ?thesis
    using newly_required_field_reported [OF crd_ok_examples(1) ok facts] by (simp only: message)
qed

text \<open>
  C32. A CRD with an array whose \<open>minLength\<close> is positive is reported against itself: the array check
  does not ask whether the existing version has the same minimum.
\<close>

theorem unchanged_array_reported:
  assumes "crd_ok c" and "unique_versions c" and "v \<in> set (Versions c)" and "t \<in> set (version_trails v)"
    and "Type (attrs (at_schema t)) = ''array''" and "\<not> optional_array (at_schema t)"
  shows "\<not> accepts (noNewRequiredFields_Compare (Some c) c)"
proof -
  have pair: "(v, v) \<in> set (version_pairs c c)"
    using assms(2,3) by (simp add: version_pairs_iff unique_versions_def GetVersionByName_self)
  have "\<not> requirement_allowed (version_trails v) (version_trails v) t"
    using assms(5,6) no_new_ancestor_self [OF assms(4)] by (simp add: requirement_allowed_def Let_def)
  then have "required_fields (version_trails v) (version_trails v) \<noteq> {}"
    using assms(4) unfolding required_fields_empty_iff by blast
  then obtain fld where "fld \<in> required_fields (version_trails v) (version_trails v)" by blast
  then have "noNewRequiredFields_message (crd_Name c) (version_Name v) fld \<in> set (check_messages noNewRequiredFields_check c c)"
    unfolding check_messages_iff
    using pair noNewRequiredFields_pair [OF assms(1,1) pair, of "crd_Name c"] by fastforce
  then show ?thesis
    by (auto simp: accepts_def no_messages_def noNewRequiredFields.compare_some [OF assms(1,1)])
qed

definition tagged_widgets :: CRD where
  "tagged_widgets = widgets (widget_object [(''tags'', list_field (Some 1) string_field)])"

theorem unchanged_array_reported_witness:
  "\<not> accepts (noNewRequiredFields_Compare (Some tagged_widgets) tagged_widgets)"
proof (rule unchanged_array_reported)
  let ?v = "hd (Versions tagged_widgets)"
  show "crd_ok tagged_widgets" by (simp add: tagged_widgets_def)
  show "unique_versions tagged_widgets" "?v \<in> set (Versions tagged_widgets)"
    "version_trails ?v ! 1 \<in> set (version_trails ?v)"
    "Type (attrs (at_schema (version_trails ?v ! 1))) = ''array''" "\<not> optional_array (at_schema (version_trails ?v ! 1))"
    by code_simp+
qed

text \<open>
  The step of a path that is compared with the required fields of the parent is the key in its
  last brackets, for every key without brackets on a path without line breaks.
\<close>

theorem lastIndexOrKey_of_property:
  assumes "k \<noteq> []" and "CHR '']'' \<notin> set k" and "CHR ''['' \<notin> set k" and "newline \<notin> set (path_String p)"
  shows "lastIndexOrKey (path_String (Key (Child p ''properties'' []) k)) = Some k"
proof -
  have "newline \<notin> set (path_String (Child p ''properties'' []))"
    using assms(4) by (simp add: path_String_Child newline_def)
  from lastIndexOrKey_key [OF assms(1-3) this] show ?thesis by (simp only: path_String_Key)
qed

end
