(* ===== verification/CEL_Context.thy ===== *)
theory CEL_Context
  imports CRD_Types
begin

text \<open>
  The cost bookkeeping of \<open>apiextensions-apiserver\<close> that \<open>MustNotExceedCostBudget\<close> calls
  (\<open>pkg/apis/apiextensions/validation/cel_validation.go\<close>): the schema context with its maximum
  cardinality, the lazily built type information, and the total cost. The conversion of schemas
  to structural schemas and CEL types, and the CEL compiler, are the parameter \<open>cel_env\<close>.
\<close>

section \<open>Saturating arithmetic\<close>

definition MaxUint :: uint64 where
  "MaxUint = - 1"

definition multiplyWithOverflowGuard :: "uint64 \<Rightarrow> uint64 \<Rightarrow> uint64" where
  "multiplyWithOverflowGuard baseCost cardinality =
     (if baseCost = 0 then 0
      else if MaxUint div baseCost < cardinality then MaxUint
      else baseCost * cardinality)"

lemma unat_MaxUint: "unat MaxUint = 2 ^ 64 - 1"
  by (simp add: MaxUint_def unsigned_minus_1_eq_mask mask_eq_exp_minus_1)

lemma unat_le_MaxUint: "unat (x :: uint64) \<le> 2 ^ 64 - 1"
  using unsigned_less [where ?'a = nat and w = x] by simp

text \<open>The guard computes the product in the natural numbers, cut off at the largest word.\<close>

lemma multiplyWithOverflowGuard_eq:
  "unat (multiplyWithOverflowGuard a b) = min (unat a * unat b) (2 ^ 64 - 1)"
proof (cases "a = 0")
  case True
  then show ?thesis by (simp add: multiplyWithOverflowGuard_def)
next
  case False
  then have a: "0 < unat a" by (simp add: unat_gt_0)
  have guard: "MaxUint div a < b \<longleftrightarrow> 2 ^ 64 - 1 < unat a * unat b"
  proof -
    have "MaxUint div a < b \<longleftrightarrow> (2 ^ 64 - 1) div unat a < unat b"
      by (simp only: word_less_nat_alt unat_div_distrib unat_MaxUint)
    also have "\<dots> \<longleftrightarrow> 2 ^ 64 - 1 < unat b * unat a"
      using a by (simp only: div_less_iff_less_mult)
    finally show ?thesis by (simp add: mult.commute)
  qed
  show ?thesis
  proof (cases "2 ^ 64 - 1 < unat a * unat b")
    case True
    with False guard show ?thesis by (simp add: multiplyWithOverflowGuard_def unat_MaxUint)
  next
    case small: False
    then have "unat (a * b) = unat a * unat b" by (simp add: unat_mult_lem [symmetric])
    with False guard small show ?thesis by (simp add: multiplyWithOverflowGuard_def)
  qed
qed

section \<open>Maximum cardinality\<close>

definition zeroIfNegative :: "int64 \<Rightarrow> int64" where
  "zeroIfNegative v = (if sint v < 0 then 0 else v)"

text \<open>The factor by which a schema multiplies its children; \<open>None\<close> is unbounded.\<close>

definition extractMaxElements :: "JSONSchemaProps \<Rightarrow> uint64 option" where
  "extractMaxElements schema =
     (if Type (attrs schema) = ''object'' then
        if AdditionalProperties schema \<noteq> None then
          (case MaxProperties (attrs schema) of
             Some m \<Rightarrow> Some (zeroIfNegative m)
           | None \<Rightarrow> None)
        else Some 1
      else if Type (attrs schema) = ''array'' then
        (case MaxItems (attrs schema) of
           Some m \<Rightarrow> Some (zeroIfNegative m)
         | None \<Rightarrow> None)
      else Some 1)"

text \<open>
  \<open>CELSchemaContext\<close>: whether a rule applies here or above, the parent, the property name of the
  accessor, the schema and the maximum cardinality. The cached type information is recomputed,
  and the pointer to the total cost is passed where it is read.
\<close>

datatype CELSchemaContext =
  CELSchemaContext
    (withinValidationRuleScope: bool)
    (context_parent: "CELSchemaContext option")
    (typeInfoAccessor: string)
    (jsonSchema: JSONSchemaProps)
    (MaxCardinality: "uint64 option")

text \<open>\<open>len(schema.XValidations)\<close>.\<close>

definition rules_of :: "JSONSchemaProps \<Rightarrow> ValidationRule list" where
  "rules_of s = (case XValidations (attrs s) of None \<Rightarrow> [] | Some rs \<Rightarrow> rs)"

definition RootCELContext :: "JSONSchemaProps \<Rightarrow> CELSchemaContext" where
  "RootCELContext schema = CELSchemaContext (length (rules_of schema) > 0) None [] schema (Some 1)"

definition childContext :: "CELSchemaContext \<Rightarrow> JSONSchemaProps \<Rightarrow> string \<Rightarrow> CELSchemaContext" where
  "childContext c child accessor =
     CELSchemaContext
       (if length (rules_of child) > 0 then True else withinValidationRuleScope c)
       (Some c) accessor child
       (case MaxCardinality c of
          None \<Rightarrow> None
        | Some cardinality \<Rightarrow>
            (case extractMaxElements (jsonSchema c) of
               None \<Rightarrow> None
             | Some maxElements \<Rightarrow> Some (multiplyWithOverflowGuard cardinality maxElements)))"

definition ChildPropertyContext :: "CELSchemaContext option \<Rightarrow> JSONSchemaProps \<Rightarrow> string \<Rightarrow> CELSchemaContext option" where
  "ChildPropertyContext c propSchema propertyName =
     (case c of None \<Rightarrow> None | Some ctx \<Rightarrow> Some (childContext ctx propSchema propertyName))"

section \<open>Type information\<close>

record CelError =
  celError_Type :: string
  celError_Detail :: string

record CompilationResult =
  cr_Error :: "CelError option"
  cr_MaxCost :: uint64
  cr_MaxCardinality :: uint64
  cr_hasMessageExpression :: bool
  cr_MessageExpressionError :: "CelError option"
  cr_MessageExpressionMaxCost :: uint64

text \<open>
  What the checker calls outside the repository: the conversion of a schema to the internal type
  (its error, or nil; the fields are the same), structural schemas and CEL declaration types,
  the lookup of a property's type in its parent's, the CEL compiler with the per-call limit and
  the base environment, and the JSON text of a rule in an error.
\<close>

record ('str, 'decl) cel_env =
  convert_error :: "JSONSchemaProps \<Rightarrow> gerror option"
  NewStructural :: "JSONSchemaProps \<Rightarrow> gerror + 'str"
  SchemaDeclType :: "'str \<Rightarrow> bool \<Rightarrow> 'decl option"
  MaxElements :: "'decl \<Rightarrow> int"
  accessProperty :: "'str \<times> 'decl \<Rightarrow> string \<Rightarrow> ('str \<times> 'decl) option"
  cel_Compile :: "'str \<times> 'decl \<Rightarrow> gerror + CompilationResult list"
  rule_JSON :: "ValidationRule \<Rightarrow> string"

text \<open>The conversion through a pointer: it reads the struct, so nil is a panic.\<close>

definition Convert :: "('str, 'decl) cel_env \<Rightarrow> JSONSchemaProps option \<Rightarrow> (gerror + JSONSchemaProps) go" where
  "Convert env s =
     (case s of
        None \<Rightarrow> None
      | Some c \<Rightarrow> Some (case convert_error env c of Some err \<Rightarrow> Inl err | None \<Rightarrow> Inr c))"

definition defaultConverter :: "('str, 'decl) cel_env \<Rightarrow> JSONSchemaProps \<Rightarrow> bool \<Rightarrow> gerror + ('str \<times> 'decl)" where
  "defaultConverter env schema isRoot =
     (case NewStructural env schema of
        Inl err \<Rightarrow> Inl err
      | Inr structural \<Rightarrow>
          (case SchemaDeclType env structural isRoot of
             None \<Rightarrow> Inl ''unable to convert structural schema to CEL declarations''
           | Some declType \<Rightarrow> Inr (structural, declType)))"

definition converted :: "('str, 'decl) cel_env \<Rightarrow> JSONSchemaProps \<Rightarrow> bool \<Rightarrow> gerror + ('str \<times> 'decl) option" where
  "converted env schema isRoot =
     (case defaultConverter env schema isRoot of Inl err \<Rightarrow> Inl err | Inr ti \<Rightarrow> Inr (Some ti))"

fun TypeInfo :: "('str, 'decl) cel_env \<Rightarrow> CELSchemaContext \<Rightarrow> gerror + ('str \<times> 'decl) option" where
  "TypeInfo env (CELSchemaContext scope None acc schema cardinality) =
     (if \<not> scope then Inr None else converted env schema True)"
| "TypeInfo env (CELSchemaContext scope (Some p) acc schema cardinality) =
     (if \<not> scope then Inr None
      else case TypeInfo env p of
             Inl parentErr \<Rightarrow> Inl parentErr
           | Inr None \<Rightarrow> converted env schema (XEmbeddedResource (attrs schema))
           | Inr (Some parentTypeInfo) \<Rightarrow>
               (case accessProperty env parentTypeInfo acc of
                  Some ti \<Rightarrow> Inr (Some ti)
                | None \<Rightarrow> converted env schema (XEmbeddedResource (attrs schema))))"

section \<open>Total cost\<close>

record RuleCost =
  cost_Path :: Path
  Cost :: uint64

record TotalCost =
  Total :: uint64
  MostExpensive :: "RuleCost list"

definition StaticEstimatedCostLimit :: uint64 where
  "StaticEstimatedCostLimit = 10000000"

definition StaticEstimatedCRDCostLimit :: uint64 where
  "StaticEstimatedCRDCostLimit = 100000000"

definition zero_cost :: TotalCost where
  "zero_cost = \<lparr> Total = 0, MostExpensive = [] \<rparr>"

text \<open>Sorting in descending order; equal costs keep their order, as for slices this short.\<close>

definition sort_costs :: "RuleCost list \<Rightarrow> RuleCost list" where
  "sort_costs rs = sort_key (\<lambda>r. - int (unat (Cost r))) rs"

definition ObserveExpressionCost :: "TotalCost \<Rightarrow> Path \<Rightarrow> uint64 \<Rightarrow> TotalCost" where
  "ObserveExpressionCost c path cost =
     (let c = (if MaxUint - Total c < cost then c\<lparr>Total := MaxUint\<rparr> else c\<lparr>Total := Total c + cost\<rparr>)
      in if cost < StaticEstimatedCRDCostLimit div 100 then c
         else let sorted_costs = sort_costs (MostExpensive c @ [\<lparr> cost_Path = path, Cost = cost \<rparr>])
              in c\<lparr>MostExpensive := (if length sorted_costs > 4 then take 4 sorted_costs else sorted_costs)\<rparr>)"

section \<open>Lemmas\<close>

lemma ObserveExpressionCost_Total:
  "unat (Total (ObserveExpressionCost c path cost)) = min (unat (Total c) + unat cost) (2 ^ 64 - 1)"
proof -
  have le: "Total c \<le> MaxUint"
    by (simp add: MaxUint_def)
  have guard: "MaxUint - Total c < cost \<longleftrightarrow> 2 ^ 64 - 1 < unat (Total c) + unat cost"
    using unat_le_MaxUint [of "Total c"]
    by (auto simp: word_less_nat_alt unat_sub [OF le] unat_MaxUint)
  show ?thesis
  proof (cases "2 ^ 64 - 1 < unat (Total c) + unat cost")
    case True
    with guard show ?thesis by (simp add: ObserveExpressionCost_def Let_def unat_MaxUint)
  next
    case False
    then have "unat (Total c + cost) = unat (Total c) + unat cost"
      by (simp add: unat_add_lem [symmetric])
    with False guard show ?thesis by (simp add: ObserveExpressionCost_def Let_def)
  qed
qed

lemma observed_Total:
  "unat (Total (fold (\<lambda>(p, k) c. ObserveExpressionCost c p k) costs c)) =
   min (unat (Total c) + (\<Sum>(p, k)\<leftarrow>costs. unat k)) (2 ^ 64 - 1)"
proof (induction costs arbitrary: c)
  case Nil
  then show ?case using unat_le_MaxUint [of "Total c"] by simp
next
  case (Cons pk costs)
  obtain p k where pk: "pk = (p, k)" by (cases pk)
  show ?case by (simp add: pk Cons ObserveExpressionCost_Total min_def)
qed

text \<open>Four entries at most, the most expensive first.\<close>

definition most_expensive_ok :: "TotalCost \<Rightarrow> bool" where
  "most_expensive_ok c \<longleftrightarrow> length (MostExpensive c) \<le> 4 \<and>
     sorted (map (\<lambda>r. - int (unat (Cost r))) (MostExpensive c)) \<and>
     list_all (\<lambda>r. StaticEstimatedCRDCostLimit div 100 \<le> Cost r) (MostExpensive c)"

lemma ObserveExpressionCost_ok:
  assumes "most_expensive_ok c"
  shows "most_expensive_ok (ObserveExpressionCost c path cost)"
proof -
  let ?new = "MostExpensive c @ [\<lparr> cost_Path = path, Cost = cost \<rparr>]"
  let ?sorted = "sort_costs ?new"
  have "sorted (map (\<lambda>r. - int (unat (Cost r))) ?sorted)"
    by (simp add: sort_costs_def del: map_append)
  then have taken: "sorted (map (\<lambda>r. - int (unat (Cost r))) (take n ?sorted))" for n
    by (simp add: sorted_wrt_take take_map [symmetric])
  have limits: "list_all (\<lambda>r. StaticEstimatedCRDCostLimit div 100 \<le> Cost r) (take n ?sorted)"
    if "\<not> cost < StaticEstimatedCRDCostLimit div 100" for n
  proof -
    have "set (take n ?sorted) \<subseteq> insert \<lparr> cost_Path = path, Cost = cost \<rparr> (set (MostExpensive c))"
      using set_take_subset [of n ?sorted] by (auto simp: sort_costs_def)
    with assms that show ?thesis by (auto simp: most_expensive_ok_def list_all_iff)
  qed
  show ?thesis
    using assms taken [of 4] taken [of "length ?sorted"] limits [of 4] limits [of "length ?sorted"]
    by (auto simp: ObserveExpressionCost_def most_expensive_ok_def Let_def)
qed

text \<open>The cardinality of a chain of contexts, and its value in the natural numbers.\<close>

fun context_chain :: "CELSchemaContext \<Rightarrow> JSONSchemaProps list \<Rightarrow> CELSchemaContext" where
  "context_chain c [] = c"
| "context_chain c (s # ss) = context_chain (childContext c s (ID (attrs s))) ss"

fun element_product :: "JSONSchemaProps list \<Rightarrow> nat option" where
  "element_product [] = Some 1"
| "element_product (s # ss) =
     (case (extractMaxElements s, element_product ss) of
        (Some m, Some n) \<Rightarrow> Some (unat m * n)
      | _ \<Rightarrow> None)"

lemma saturated_step: "min (min (a * b) M * n) M = min (a * (b * n)) (M :: nat)"
proof (cases "a * b \<le> M")
  case True
  then show ?thesis by (simp add: min_def mult.assoc)
next
  case False
  then have "M \<le> a * b" by simp
  show ?thesis
  proof (cases n)
    case (Suc k)
    have "M \<le> M * n" and "M \<le> a * b * n"
      using Suc \<open>M \<le> a * b\<close> by (simp_all add: trans_le_add1)
    then have "min (M * n) M = M" and "min (a * b * n) M = M" by (simp_all only: min_absorb2)
    with \<open>M \<le> a * b\<close> show ?thesis by (simp only: min_absorb2 mult.assoc)
  qed simp
qed

lemma context_chain_cardinality:
  assumes "MaxCardinality c = Some cardinality" and "ancestors \<noteq> [] \<longrightarrow> jsonSchema c = hd ancestors"
  shows "map_option unat (MaxCardinality (context_chain c (tl (ancestors @ [s])))) =
    map_option (\<lambda>n. min (unat cardinality * n) (2 ^ 64 - 1)) (element_product ancestors)"
  using assms
proof (induction ancestors arbitrary: c cardinality)
  case Nil
  then show ?case using unat_le_MaxUint [of cardinality] by simp
next
  case (Cons a ancestors)
  have none: "MaxCardinality (context_chain c ss) = None" if "MaxCardinality c = None" for c ss
    using that by (induction ss arbitrary: c) (simp_all add: childContext_def)
  show ?case
  proof (cases "extractMaxElements a")
    case None
    with Cons.prems have "MaxCardinality (childContext c x k) = None" for x k
      by (simp add: childContext_def)
    with None none show ?thesis by (cases ancestors) simp_all
  next
    case (Some m)
    let ?x = "hd (ancestors @ [s])"
    let ?c = "childContext c ?x (ID (attrs ?x))"
    have cardinality: "MaxCardinality ?c = Some (multiplyWithOverflowGuard cardinality m)"
      using Some Cons.prems by (simp add: childContext_def)
    have json: "ancestors \<noteq> [] \<longrightarrow> jsonSchema ?c = hd ancestors"
      by (cases ancestors) (simp_all add: childContext_def)
    have chain: "context_chain c (tl ((a # ancestors) @ [s])) = context_chain ?c (tl (ancestors @ [s]))"
      by (cases ancestors) simp_all
    show ?thesis
      unfolding chain Cons.IH [OF cardinality json]
      using Some by (cases "element_product ancestors")
        (simp_all add: multiplyWithOverflowGuard_eq saturated_step)
  qed
qed

section \<open>Properties\<close>

text \<open>
  C34. The total cost saturates at the largest \<open>uint64\<close> however many costs are observed, and the list of
  the most expensive rules keeps at most four entries, the most expensive first, each at least one
  percent of the limit.
\<close>

theorem observed_costs_accumulate:
  "unat (Total (fold (\<lambda>(p, k) c. ObserveExpressionCost c p k) costs zero_cost)) =
     min (\<Sum>(p, k)\<leftarrow>costs. unat k) (2 ^ 64 - 1) \<and>
   most_expensive_ok (fold (\<lambda>(p, k) c. ObserveExpressionCost c p k) costs zero_cost)"
proof -
  have "most_expensive_ok c \<Longrightarrow> most_expensive_ok (fold (\<lambda>(p, k) c. ObserveExpressionCost c p k) costs c)" for c
    by (induction costs arbitrary: c) (auto simp: ObserveExpressionCost_ok)
  moreover have "most_expensive_ok zero_cost" by (simp add: most_expensive_ok_def zero_cost_def)
  ultimately show ?thesis
    using observed_Total [of costs zero_cost] by (simp add: zero_cost_def)
qed

end
