(* ===== verification/Go_Format.thy ===== *)
theory Go_Format
  imports Go_Prelude
begin

text \<open>
  The formatting verbs that the commands use on strings: \<open>%q\<close>, that is \<open>strconv.Quote\<close>, its
  inverse \<open>strconv.Unquote\<close>, and \<open>strings.TrimSpace\<close> and \<open>strings.SplitN\<close>. Strings are byte
  sequences. Bytes from 128 on are copied, as \<open>Quote\<close> does with printable characters; the
  program quotes only comparator names, which are ASCII. White space is that of Unicode, by its
  encodings.
\<close>

definition hex_digit :: "nat \<Rightarrow> char" where
  "hex_digit d = ''0123456789abcdef'' ! d"

definition hex_value :: "char \<Rightarrow> nat option" where
  "hex_value c = (let i = length (takeWhile (\<lambda>x. x \<noteq> c) ''0123456789abcdef'') in if i < 16 then Some i else None)"

definition byte_value :: "char \<Rightarrow> nat" where
  "byte_value c = of_char c"

definition quote_char :: "char \<Rightarrow> string" where
  "quote_char c =
     (if c = CHR 0x22 \<or> c = CHR 0x5C then [CHR 0x5C, c]
      else if 32 \<le> byte_value c \<and> byte_value c \<noteq> 127 then [c]
      else if c = CHR 0x07 then [CHR 0x5C, CHR ''a'']
      else if c = CHR 0x08 then [CHR 0x5C, CHR ''b'']
      else if c = CHR 0x0C then [CHR 0x5C, CHR ''f'']
      else if c = CHR 0x0A then [CHR 0x5C, CHR ''n'']
      else if c = CHR 0x0D then [CHR 0x5C, CHR ''r'']
      else if c = CHR 0x09 then [CHR 0x5C, CHR ''t'']
      else if c = CHR 0x0B then [CHR 0x5C, CHR ''v'']
      else [CHR 0x5C, CHR ''x'', hex_digit (byte_value c div 16), hex_digit (byte_value c mod 16)])"

definition Quote :: "string \<Rightarrow> string" where
  "Quote s = CHR 0x22 # concat (map quote_char s) @ [CHR 0x22]"

text \<open>A string whose quoted form is the string between quotes: a name of letters, for instance.\<close>

definition plain_char :: "char \<Rightarrow> bool" where
  "plain_char c \<longleftrightarrow> 32 \<le> byte_value c \<and> byte_value c \<noteq> 127 \<and> c \<noteq> CHR 0x22 \<and> c \<noteq> CHR 0x5C"

lemma quote_plain: "list_all plain_char s \<Longrightarrow> Quote s = CHR 0x22 # s @ [CHR 0x22]"
proof -
  have "list_all plain_char s \<Longrightarrow> concat (map quote_char s) = s"
    by (induction s) (auto simp: quote_char_def plain_char_def)
  then show "list_all plain_char s \<Longrightarrow> Quote s = CHR 0x22 # s @ [CHR 0x22]"
    by (simp add: Quote_def)
qed

text \<open>
  The part of \<open>strconv.Unquote\<close> that reads what \<open>Quote\<close> writes: a double-quoted string with the
  escapes above. The result is \<open>None\<close> for the syntax error.
\<close>

definition escape_value :: "char \<Rightarrow> char option" where
  "escape_value c =
     (if c = CHR 0x22 \<or> c = CHR 0x5C then Some c
      else if c = CHR ''a'' then Some (CHR 0x07)
      else if c = CHR ''b'' then Some (CHR 0x08)
      else if c = CHR ''f'' then Some (CHR 0x0C)
      else if c = CHR ''n'' then Some (CHR 0x0A)
      else if c = CHR ''r'' then Some (CHR 0x0D)
      else if c = CHR ''t'' then Some (CHR 0x09)
      else if c = CHR ''v'' then Some (CHR 0x0B)
      else None)"

fun unquote_chars :: "string \<Rightarrow> string option" where
  "unquote_chars [] = None"
| "unquote_chars [c] = (if c = CHR 0x22 then Some [] else None)"
| "unquote_chars (c # d # s) =
     (if c = CHR 0x22 \<or> c = CHR 0x0A then None
      else if c = CHR 0x5C then
        (if d = CHR ''x'' then
           (case s of
              h # l # s' \<Rightarrow> do { i \<leftarrow> hex_value h; j \<leftarrow> hex_value l; r \<leftarrow> unquote_chars s';
                                 Some (char_of (16 * i + j :: nat) # r) }
            | _ \<Rightarrow> None)
         else do { e \<leftarrow> escape_value d; r \<leftarrow> unquote_chars s; Some (e # r) })
      else do { r \<leftarrow> unquote_chars (d # s); Some (c # r) })"

definition Unquote :: "string \<Rightarrow> string option" where
  "Unquote s = (case s of [] \<Rightarrow> None | c # s' \<Rightarrow> if c = CHR 0x22 then unquote_chars s' else None)"

lemma hex_value_digit: "d < 16 \<Longrightarrow> hex_value (hex_digit d) = Some d"
proof -
  have "list_all (\<lambda>d. hex_value (hex_digit d) = Some d) [0..<16]"
    by (simp add: hex_value_def hex_digit_def upt_rec)
  then show "d < 16 \<Longrightarrow> hex_value (hex_digit d) = Some d" by (simp add: list_all_iff)
qed

lemma unquote_quote_char:
  assumes "s \<noteq> []"
  shows "unquote_chars (quote_char c @ s) = map_option ((#) c) (unquote_chars s)"
proof -
  obtain d s' where s: "s = d # s'" using assms by (cases s) auto
  have byte: "byte_value c < 256" by (simp add: byte_value_def)
  have hex: "hex_value (hex_digit (byte_value c div 16)) = Some (byte_value c div 16)"
    "hex_value (hex_digit (byte_value c mod 16)) = Some (byte_value c mod 16)"
    using byte by (simp_all add: hex_value_digit)
  have char: "char_of (byte_value c) = c" by (simp add: byte_value_def)
  have undo: "char_of (byte_value c) = c" "char_of (16 * (byte_value c div 16) + byte_value c mod 16) = c"
    "byte_value c = 127 \<Longrightarrow> char_of (127 :: nat) = c"
    using char by (simp_all add: byte_value_def)
  have nl: "byte_value (CHR 0x0A) = 10" by (simp add: byte_value_def)
  show ?thesis
    unfolding quote_char_def
    by (cases "unquote_chars s") (auto simp: s escape_value_def hex undo nl)
qed

lemma unquote_chars_quoted: "unquote_chars (concat (map quote_char s) @ [CHR 0x22]) = Some s"
  by (induction s) (simp_all add: unquote_quote_char)

lemma Unquote_Quote: "Unquote (Quote s) = Some s"
  by (simp add: Unquote_def Quote_def unquote_chars_quoted)

lemma Quote_inject [simp]: "Quote s = Quote t \<longleftrightarrow> s = t"
  by (metis Unquote_Quote option.inject)

text \<open>Quoting puts no colon into a name.\<close>

lemma colon_hex_digit: "d < 16 \<Longrightarrow> CHR '':'' \<noteq> hex_digit d"
proof -
  have "list_all (\<lambda>d. CHR '':'' \<noteq> hex_digit d) [0..<16]" by (simp add: hex_digit_def upt_rec)
  then show "d < 16 \<Longrightarrow> CHR '':'' \<noteq> hex_digit d" by (simp add: list_all_iff)
qed

lemma notin_set_if: "(P \<Longrightarrow> x \<notin> set a) \<Longrightarrow> (\<not> P \<Longrightarrow> x \<notin> set b) \<Longrightarrow> x \<notin> set (if P then a else b)"
  by simp

lemma colon_quote_char:
  assumes "CHR '':'' \<noteq> c"
  shows "CHR '':'' \<notin> set (quote_char c)"
proof -
  have byte: "byte_value c < 256" by (simp add: byte_value_def)
  then have digits: "CHR '':'' \<noteq> hex_digit (byte_value c div 16)" "CHR '':'' \<noteq> hex_digit (byte_value c mod 16)"
    by (auto intro!: colon_hex_digit simp: div_less_iff_less_mult)
  show ?thesis
    unfolding quote_char_def using assms digits by (intro notin_set_if) simp_all
qed

lemma colon_Quote:
  assumes "CHR '':'' \<notin> set n"
  shows "CHR '':'' \<notin> set (Quote n)"
proof -
  have "CHR '':'' \<notin> set (quote_char c)" if "c \<in> set n" for c
    by (rule colon_quote_char) (use that assms in metis)
  then have "CHR '':'' \<notin> set (concat (map quote_char n))" unfolding set_concat set_map by blast
  then show ?thesis unfolding Quote_def by simp
qed

section \<open>Trimming and splitting\<close>

text \<open>
  The white space of \<open>unicode.IsSpace\<close> as byte sequences: that of ASCII and the UTF-8 encodings
  of U+0085, U+00A0, U+1680, U+2000 to U+200A, U+2028, U+2029, U+202F, U+205F and U+3000. A byte
  that begins or ends none of them is no white space, also when it is not valid UTF-8.
\<close>

definition space_codes :: "string list" where
  "space_codes =
     [[CHR 0x09], [CHR 0x0A], [CHR 0x0B], [CHR 0x0C], [CHR 0x0D], [CHR 0x20],
      [CHR 0xC2, CHR 0x85], [CHR 0xC2, CHR 0xA0], [CHR 0xE1, CHR 0x9A, CHR 0x80],
      [CHR 0xE2, CHR 0x80, CHR 0x80], [CHR 0xE2, CHR 0x80, CHR 0x81], [CHR 0xE2, CHR 0x80, CHR 0x82],
      [CHR 0xE2, CHR 0x80, CHR 0x83], [CHR 0xE2, CHR 0x80, CHR 0x84], [CHR 0xE2, CHR 0x80, CHR 0x85],
      [CHR 0xE2, CHR 0x80, CHR 0x86], [CHR 0xE2, CHR 0x80, CHR 0x87], [CHR 0xE2, CHR 0x80, CHR 0x88],
      [CHR 0xE2, CHR 0x80, CHR 0x89], [CHR 0xE2, CHR 0x80, CHR 0x8A], [CHR 0xE2, CHR 0x80, CHR 0xA8],
      [CHR 0xE2, CHR 0x80, CHR 0xA9], [CHR 0xE2, CHR 0x80, CHR 0xAF], [CHR 0xE2, CHR 0x81, CHR 0x9F],
      [CHR 0xE3, CHR 0x80, CHR 0x80]]"

lemma prefix_shorter: "prefix w s \<Longrightarrow> w \<noteq> [] \<Longrightarrow> length s - length w < length s"
  by (cases w; cases s) auto

text \<open>Strip any of the given sequences from the front, as long as there is one.\<close>

function strip_codes :: "string list \<Rightarrow> string \<Rightarrow> string" where
  "strip_codes codes s =
     (case find (\<lambda>w. w \<noteq> [] \<and> prefix w s) codes of
        None \<Rightarrow> s
      | Some w \<Rightarrow> strip_codes codes (drop (length w) s))"
  by pat_completeness auto
termination
  by (relation "measure (\<lambda>(codes, s). length s)") (auto simp: find_Some_iff intro: prefix_shorter)

declare strip_codes.simps [simp del]

definition TrimSpace :: "string \<Rightarrow> string" where
  "TrimSpace s = rev (strip_codes (map rev space_codes) (rev (strip_codes space_codes s)))"

text \<open>A string that \<open>TrimSpace\<close> does not change: no white space begins or ends it.\<close>

definition trimmed :: "string \<Rightarrow> bool" where
  "trimmed s \<longleftrightarrow> list_all (\<lambda>w. \<not> prefix w s \<and> \<not> suffix w s) space_codes"

lemma strip_codes_none: "\<forall>w\<in>set codes. \<not> prefix w s \<Longrightarrow> strip_codes codes s = s"
proof -
  assume "\<forall>w\<in>set codes. \<not> prefix w s"
  then have "find (\<lambda>w. w \<noteq> [] \<and> prefix w s) codes = None" by (auto simp: find_None_iff)
  then show "strip_codes codes s = s" by (simp add: strip_codes.simps)
qed

lemma strip_trimmed:
  "trimmed s \<Longrightarrow> strip_codes space_codes s = s"
  "trimmed s \<Longrightarrow> strip_codes (map rev space_codes) (rev s) = rev s"
  by (simp_all add: trimmed_def list_all_iff strip_codes_none suffix_to_prefix)

lemma TrimSpace_trimmed: "trimmed s \<Longrightarrow> TrimSpace s = s"
  by (simp add: TrimSpace_def strip_trimmed)

lemma TrimSpace_space: "trimmed s \<Longrightarrow> TrimSpace (CHR '' '' # s) = s"
proof -
  assume s: "trimmed s"
  have "find (\<lambda>w. w \<noteq> [] \<and> prefix w (CHR '' '' # s)) space_codes = Some '' ''"
    by (simp add: space_codes_def)
  then have "strip_codes space_codes (CHR '' '' # s) = strip_codes space_codes s"
    by (subst strip_codes.simps) simp
  with s show "TrimSpace (CHR '' '' # s) = s" by (simp add: TrimSpace_def strip_trimmed)
qed

text \<open>What begins and ends with no byte of white space is trimmed.\<close>

lemma trimmed_ends:
  assumes "hd s \<notin> set (map hd space_codes)" and "last s \<notin> set (map last space_codes)" and "s \<noteq> []"
  shows "trimmed s"
proof -
  have nonempty: "w \<noteq> []" if "w \<in> set space_codes" for w
    using that by (auto simp: space_codes_def)
  have "\<not> prefix w s \<and> \<not> suffix w s" if "w \<in> set space_codes" for w
    using that nonempty [OF that] assms by (auto simp: prefix_def suffix_def)
  then show ?thesis by (simp add: trimmed_def list_all_iff)
qed

lemma TrimSpace_unicode:
  "TrimSpace (CHR 0xC2 # CHR 0xA0 # ''size'' @ [CHR 0x09, CHR 0xE3, CHR 0x80, CHR 0x80]) = ''size''"
  by code_simp

text \<open>\<open>strings.SplitN\<close> with a separator of one character: at most \<open>n\<close> parts.\<close>

fun SplitN :: "string \<Rightarrow> char \<Rightarrow> nat \<Rightarrow> string list" where
  "SplitN s sep 0 = []"
| "SplitN s sep (Suc 0) = [s]"
| "SplitN s sep (Suc (Suc n)) =
     (if sep \<in> set s then takeWhile (\<lambda>c. c \<noteq> sep) s # SplitN (tl (dropWhile (\<lambda>c. c \<noteq> sep) s)) sep (Suc n)
      else [s])"

lemma SplitN_at:
  "sep \<notin> set a \<Longrightarrow> SplitN (a @ sep # b) sep (Suc (Suc n)) = a # SplitN b sep (Suc n)"
  by (simp add: takeWhile_append dropWhile_append)

fun join_with :: "string \<Rightarrow> string list \<Rightarrow> string" where
  "join_with sep [] = []"
| "join_with sep [s] = s"
| "join_with sep (s # t # rest) = s @ sep @ join_with sep (t # rest)"

end
