(* ===== verification/Go_Float.thy ===== *)
theory Go_Float
  imports Go_Prelude
begin

text \<open>
  The \<open>float64\<close> arithmetic of the cost messages: a \<open>uint64\<close> converted to \<open>float64\<close>, a quotient,
  a comparison, and the verbs \<open>%f\<close> and \<open>%.1f\<close>. A finite non-negative \<open>float64\<close> is the exact
  fraction it stands for, a numerator and a denominator. The numbers here lie between \<open>2 ^ - 64\<close>
  and \<open>2 ^ 64\<close>, or are zero, so no result is subnormal or infinite. The lemmas say that rounding is
  monotone and exact on what is representable, bound its error, and decide the comparisons of a
  quotient with the two thresholds of the cost messages.
\<close>

type_synonym float64 = "nat \<times> nat"

fun bit_length :: "nat \<Rightarrow> nat" where
  "bit_length n = (if n = 0 then 0 else Suc (bit_length (n div 2)))"

declare bit_length.simps [simp del]

text \<open>The integer nearest to \<open>n / d\<close>, the even one of two.\<close>

definition half_even :: "nat \<Rightarrow> nat \<Rightarrow> nat" where
  "half_even n d =
     (let q = n div d; r = n mod d
      in if 2 * r < d then q else if d < 2 * r then Suc q else if even q then q else Suc q)"

text \<open>\<open>n / (d * 2 ^ e)\<close> as a fraction.\<close>

definition scale_down :: "nat \<Rightarrow> nat \<Rightarrow> int \<Rightarrow> nat \<times> nat" where
  "scale_down n d e = (if 0 \<le> e then (n, d * 2 ^ nat e) else (n * 2 ^ nat (- e), d))"

definition float_exponent :: "nat \<Rightarrow> nat \<Rightarrow> int" where
  "float_exponent n d =
     (let e = int (bit_length n) - int (bit_length d) - 53; (n', d') = scale_down n d e
      in if 2 ^ 53 * d' \<le> n' then e + 1 else e)"

text \<open>The \<open>float64\<close> nearest to \<open>n / d\<close>: a significand of 53 bits, rounded to even.\<close>

definition float_of_ratio :: "nat \<Rightarrow> nat \<Rightarrow> float64" where
  "float_of_ratio n d =
     (if n = 0 then (0, 1)
      else let e = float_exponent n d; (n', d') = scale_down n d e; m = half_even n' d'
           in if 0 \<le> e then (m * 2 ^ nat e, 1) else (m, 2 ^ nat (- e)))"

definition float_of_uint64 :: "uint64 \<Rightarrow> float64" where
  "float_of_uint64 x = float_of_ratio (unat x) 1"

definition float_div :: "float64 \<Rightarrow> float64 \<Rightarrow> float64" where
  "float_div x y = float_of_ratio (fst x * snd y) (snd x * fst y)"

definition float_less :: "float64 \<Rightarrow> float64 \<Rightarrow> bool" where
  "float_less x y \<longleftrightarrow> fst x * snd y < fst y * snd x"

text \<open>The verb \<open>%.<p>f\<close>; \<open>%f\<close> has six decimals.\<close>

definition fmt_fixed :: "nat \<Rightarrow> float64 \<Rightarrow> string" where
  "fmt_fixed p x =
     (let k = half_even (fst x * 10 ^ p) (snd x); i = nat_digits (k div 10 ^ p); r = nat_digits (k mod 10 ^ p)
      in i @ ''.'' @ replicate (p - length r) (CHR ''0'') @ r)"

section \<open>Lemmas\<close>

lemma half_even_error:
  assumes "0 < d"
  shows "2 * (half_even n d * d) \<le> 2 * n + d" and "2 * n \<le> 2 * (half_even n d * d) + d"
proof -
  have n: "n = n div d * d + n mod d" by simp
  have "n mod d < d" using assms by simp
  then show "2 * (half_even n d * d) \<le> 2 * n + d" and "2 * n \<le> 2 * (half_even n d * d) + d"
    unfolding half_even_def Let_def
    by (smt (verit) n add_mult_distrib add_mult_distrib2 mult_Suc mult.commute add.commute add.left_commute
        linorder_not_less nat_less_le add_le_mono le_add1 le_add2 mult_2)+
qed

lemma half_even_exact: "0 < d \<Longrightarrow> half_even (k * d) d = k"
  by (simp add: half_even_def Let_def)

lemma bit_length_bounds: "0 < n \<Longrightarrow> 2 ^ (bit_length n - 1) \<le> n \<and> n < 2 ^ bit_length n"
proof (induction n rule: bit_length.induct)
  case (1 n)
  show ?case
  proof (cases "n = 1")
    case True
    have "bit_length 1 = 1" by (subst bit_length.simps, subst bit_length.simps) simp
    with True show ?thesis by simp
  next
    case False
    with "1.prems" have half: "0 < n div 2" by simp
    with 1 have IH: "2 ^ (bit_length (n div 2) - 1) \<le> n div 2" "n div 2 < 2 ^ bit_length (n div 2)"
      by auto
    have len: "bit_length n = Suc (bit_length (n div 2))"
      using "1.prems" by (subst bit_length.simps) simp
    have pos: "0 < bit_length (n div 2)" using half by (subst bit_length.simps) simp
    from IH(1) have "2 * 2 ^ (bit_length (n div 2) - 1) \<le> n" by linarith
    then have "2 ^ bit_length (n div 2) \<le> n"
      using pos by (simp flip: power_Suc)
    moreover from IH(2) have "n < 2 * 2 ^ bit_length (n div 2)" by linarith
    ultimately show ?thesis by (simp add: len)
  qed
qed

definition float_value :: "float64 \<Rightarrow> real" where
  "float_value x = real (fst x) / real (snd x)"

lemma half_even_between: "n div d \<le> half_even n d \<and> half_even n d \<le> Suc (n div d)"
  by (simp add: half_even_def Let_def)

lemma half_even_mono_bounds:
  assumes "0 < d"
  shows "k * d \<le> n \<Longrightarrow> k \<le> half_even n d" and "n \<le> k * d \<Longrightarrow> half_even n d \<le> k"
proof -
  show "k \<le> half_even n d" if "k * d \<le> n"
    using div_le_mono [OF that, of d] half_even_between [of n d] assms by simp
  show "half_even n d \<le> k" if "n \<le> k * d"
  proof (cases "n = k * d")
    case True
    then show ?thesis using half_even_exact [OF assms] by simp
  next
    case False
    with that have "n < k * d" by simp
    then have "n div d < k" using assms by (simp add: div_less_iff_less_mult)
    with half_even_between [of n d] show ?thesis by linarith
  qed
qed

lemma scale_down_pos: "0 < d \<Longrightarrow> 0 < snd (scale_down n d e)"
  by (simp add: scale_down_def)

lemma scale_down_value:
  "real (fst (scale_down n d e)) / real (snd (scale_down n d e)) = real n / real d / 2 powi e"
  by (simp add: scale_down_def power_int_def field_simps)

text \<open>The significand of the result lies between \<open>2 ^ 52\<close> and \<open>2 ^ 53\<close>.\<close>

lemma bit_length_pos: "0 < n \<Longrightarrow> 0 < bit_length n"
  by (subst bit_length.simps) simp

lemma bit_length_real:
  assumes "0 < n"
  shows "2 ^ bit_length n \<le> 2 * real n" and "real n < 2 ^ bit_length n"
proof -
  have "2 ^ bit_length n = 2 * (2 :: nat) ^ (bit_length n - 1)"
    using bit_length_pos [OF assms] by (cases "bit_length n") simp_all
  then have "(2 :: nat) ^ bit_length n \<le> 2 * n" "n < (2 :: nat) ^ bit_length n"
    using bit_length_bounds [OF assms] by simp_all
  then have "real ((2 :: nat) ^ bit_length n) \<le> real (2 * n)" "real n < real ((2 :: nat) ^ bit_length n)"
    by (simp_all only: of_nat_le_iff of_nat_less_iff)
  then show "2 ^ bit_length n \<le> 2 * real n" and "real n < 2 ^ bit_length n" by simp_all
qed

lemma two_powi_diff: "2 powi (int a - int b - int c) = (2 ^ a / 2 ^ b / 2 ^ c :: real)"
  by (simp add: power_int_diff)

lemma ratio_bounds:
  assumes "0 < n" and "0 < d"
  shows "2 ^ bit_length n / 2 ^ bit_length d < 2 * (real n / real d)"
    and "real n / real d < 2 * (2 ^ bit_length n / 2 ^ bit_length d)"
proof -
  have "2 ^ bit_length n / 2 ^ bit_length d \<le> 2 * real n / 2 ^ bit_length d"
    using bit_length_real [OF assms(1)] by (intro divide_right_mono) simp_all
  also have "\<dots> < 2 * real n / real d"
    using bit_length_real [OF assms(2)] assms by (intro divide_strict_left_mono) simp_all
  finally show "2 ^ bit_length n / 2 ^ bit_length d < 2 * (real n / real d)" by simp
  have "real n / real d < 2 ^ bit_length n / real d"
    using bit_length_real [OF assms(1)] assms(2) by (intro divide_strict_right_mono) simp_all
  also have "\<dots> \<le> 2 ^ bit_length n / (2 ^ bit_length d / 2)"
    using bit_length_real [OF assms(2)] assms(2) by (intro divide_left_mono) simp_all
  finally show "real n / real d < 2 * (2 ^ bit_length n / 2 ^ bit_length d)" by (simp add: mult.commute)
qed

lemma float_exponent_normal:
  assumes "0 < n" and "0 < d"
  shows "2 ^ 52 \<le> real n / real d / 2 powi float_exponent n d \<and> real n / real d / 2 powi float_exponent n d < 2 ^ 53"
proof -
  let ?e = "int (bit_length n) - int (bit_length d) - 53"
  let ?q = "real n / real d"
  obtain n' d' where sd: "scale_down n d ?e = (n', d')" by (cases "scale_down n d ?e")
  have d': "0 < d'" using scale_down_pos [OF assms(2), of n ?e] sd by simp
  have v: "real n' / real d' = ?q / 2 powi ?e" using scale_down_value [of n d ?e] sd by simp
  have e: "2 powi ?e = (2 ^ bit_length n / 2 ^ bit_length d / 2 ^ 53 :: real)"
    using two_powi_diff [of "bit_length n" "bit_length d" 53] by simp
  have up: "?q < 2 ^ 54 * 2 powi ?e" and low: "2 ^ 52 * 2 powi ?e < ?q"
    unfolding e using ratio_bounds [OF assms] by simp_all
  have step: "2 powi (?e + 1) = 2 * (2 powi ?e :: real)" by (subst power_int_add_1) simp_all
  have pos: "0 < (2 powi ?e :: real)" by simp
  have "2 ^ 53 * d' \<le> n' \<longleftrightarrow> 2 ^ 53 * real d' \<le> real n'"
    by (metis of_nat_le_iff of_nat_mult of_nat_numeral of_nat_power)
  also have "\<dots> \<longleftrightarrow> 2 ^ 53 \<le> real n' / real d'" using d' by (simp add: field_simps)
  also have "\<dots> \<longleftrightarrow> 2 ^ 53 * 2 powi ?e \<le> ?q" unfolding v by (rule pos_le_divide_eq [OF pos])
  finally have choice: "float_exponent n d = (if 2 ^ 53 * 2 powi ?e \<le> ?q then ?e + 1 else ?e)"
    by (simp add: float_exponent_def Let_def sd)
  show ?thesis
  proof (cases "2 ^ 53 * 2 powi ?e \<le> ?q")
    case True
    with choice have e: "float_exponent n d = ?e + 1" by simp
    have pos2: "0 < 2 * (2 powi ?e :: real)" using pos by simp
    show ?thesis unfolding e step pos_le_divide_eq [OF pos2] pos_divide_less_eq [OF pos2] using True up by simp
  next
    case False
    with choice have e: "float_exponent n d = ?e" by simp
    show ?thesis unfolding e pos_le_divide_eq [OF pos] pos_divide_less_eq [OF pos] using False low by simp
  qed
qed

text \<open>What a float can be: a significand of at most 53 bits times a power of two.\<close>

definition representable :: "real \<Rightarrow> bool" where
  "representable x \<longleftrightarrow> (\<exists>m k. x = real m * 2 powi k \<and> m < 2 ^ 53)"

lemma float_of_ratio_value:
  assumes "0 < n" and "0 < d"
  defines "e \<equiv> float_exponent n d"
  shows "\<exists>n' d'. 0 < d' \<and> real n' / real d' = real n / real d / 2 powi e \<and>
    float_value (float_of_ratio n d) = real (half_even n' d') * 2 powi e"
proof -
  obtain n' d' where sd: "scale_down n d e = (n', d')" by (cases "scale_down n d e")
  have "float_value (float_of_ratio n d) = real (half_even n' d') * 2 powi e"
    using assms by (simp add: float_of_ratio_def Let_def sd [unfolded e_def] float_value_def power_int_def field_simps)
  with sd scale_down_pos [OF assms(2), of n e] scale_down_value [of n d e] show ?thesis by auto
qed

lemma shift_exponent:
  assumes "e \<le> k"
  shows "real m * 2 powi k = real (m * 2 ^ nat (k - e)) * 2 powi e"
proof -
  have "2 powi k = (2 powi (k - e) * 2 powi e :: real)" by (simp flip: power_int_add)
  moreover have "2 powi (k - e) = (2 ^ nat (k - e) :: real)" using assms by (simp add: power_int_def)
  ultimately show ?thesis by simp
qed

lemma representableE:
  assumes "representable x"
  obtains m k where "x = real m * 2 powi k" and "real m < 2 ^ 53"
proof -
  from assms obtain m k where x: "x = real m * 2 powi k" "m < 2 ^ 53" by (auto simp: representable_def)
  from x(2) have "real m < real (2 ^ 53)" by (simp only: of_nat_less_iff)
  with that [OF x(1)] show thesis by simp
qed

lemma two_powi_le: "k < e \<Longrightarrow> 2 ^ 53 * 2 powi k \<le> (2 ^ 52 * 2 powi e :: real)"
proof -
  assume "k < e"
  then have "2 powi k \<le> (2 powi (e - 1) :: real)" by (intro power_int_increasing) simp_all
  also have "\<dots> = 2 powi e / 2" by (simp add: power_int_diff)
  finally show ?thesis by simp
qed

text \<open>Rounding keeps the order with everything representable.\<close>

lemma float_of_ratio_ge:
  assumes "0 < n" and "0 < d" and "representable x" and "x \<le> real n / real d"
  shows "x \<le> float_value (float_of_ratio n d)"
proof -
  let ?e = "float_exponent n d"
  have pos: "0 < (2 powi ?e :: real)" by simp
  obtain n' d' where v: "0 < d'" "real n' / real d' = real n / real d / 2 powi ?e"
    "float_value (float_of_ratio n d) = real (half_even n' d') * 2 powi ?e"
    using float_of_ratio_value [OF assms(1,2)] by blast
  have below: "real j * 2 powi ?e \<le> float_value (float_of_ratio n d)" if "real j \<le> real n' / real d'" for j
  proof -
    have "real (j * d') \<le> real n'" using that v(1) by (simp add: pos_le_divide_eq)
    then have "j * d' \<le> n'" by (simp only: of_nat_le_iff)
    then have "j \<le> half_even n' d'" using half_even_mono_bounds [OF v(1)] by blast
    then show ?thesis unfolding v(3) using pos by simp
  qed
  obtain m k where x: "x = real m * 2 powi k" "real m < 2 ^ 53" using representableE [OF assms(3)] .
  show ?thesis
  proof (cases "?e \<le> k")
    case True
    note eq = x(1) [unfolded shift_exponent [OF True]]
    have "real (m * 2 ^ nat (k - ?e)) \<le> real n' / real d'"
      unfolding v(2) pos_le_divide_eq [OF pos] using assms(4) unfolding eq .
    then show ?thesis unfolding eq by (rule below)
  next
    case False
    have "x \<le> 2 ^ 53 * 2 powi k" unfolding x(1) using x(2) by (intro mult_right_mono) simp_all
    also have "\<dots> \<le> real (2 ^ 52) * 2 powi ?e" using two_powi_le [of k ?e] False by simp
    also have "\<dots> \<le> float_value (float_of_ratio n d)"
      by (rule below) (use float_exponent_normal [OF assms(1,2)] v(2) in simp)
    finally show ?thesis .
  qed
qed

lemma float_of_ratio_le:
  assumes "0 < n" and "0 < d" and "representable x" and "real n / real d \<le> x"
  shows "float_value (float_of_ratio n d) \<le> x"
proof -
  let ?e = "float_exponent n d"
  have pos: "0 < (2 powi ?e :: real)" by simp
  obtain n' d' where v: "0 < d'" "real n' / real d' = real n / real d / 2 powi ?e"
    "float_value (float_of_ratio n d) = real (half_even n' d') * 2 powi ?e"
    using float_of_ratio_value [OF assms(1,2)] by blast
  obtain m k where x: "x = real m * 2 powi k" "real m < 2 ^ 53" using representableE [OF assms(3)] .
  have low: "2 ^ 52 * 2 powi ?e \<le> real n / real d"
    using float_exponent_normal [OF assms(1,2)] pos_le_divide_eq [OF pos] by blast
  have "?e \<le> k"
  proof (rule ccontr)
    assume "\<not> ?e \<le> k"
    have "x < 2 ^ 53 * 2 powi k" unfolding x(1) using x(2) by (intro mult_strict_right_mono) simp_all
    also have "\<dots> \<le> 2 ^ 52 * 2 powi ?e" using two_powi_le [of k ?e] \<open>\<not> ?e \<le> k\<close> by simp
    finally show False using low assms(4) by linarith
  qed
  note eq = x(1) [unfolded shift_exponent [OF this]]
  have "real n' / real d' \<le> real (m * 2 ^ nat (k - ?e))"
    unfolding v(2) pos_divide_le_eq [OF pos] using assms(4) unfolding eq .
  then have "real n' \<le> real (m * 2 ^ nat (k - ?e) * d')" using v(1) by (simp add: pos_divide_le_eq)
  then have "n' \<le> m * 2 ^ nat (k - ?e) * d'" by (simp only: of_nat_le_iff)
  then have "half_even n' d' \<le> m * 2 ^ nat (k - ?e)" using half_even_mono_bounds [OF v(1)] by blast
  then have "real (half_even n' d') \<le> real (m * 2 ^ nat (k - ?e))" by (simp only: of_nat_le_iff)
  then show ?thesis unfolding v(3) eq by (rule mult_right_mono) simp
qed

text \<open>The rounding error is at most half a unit in the last place.\<close>

lemma float_of_ratio_error:
  assumes "0 < n" and "0 < d"
  shows "\<bar>float_value (float_of_ratio n d) - real n / real d\<bar> \<le> real n / real d / 2 ^ 53"
proof -
  let ?e = "float_exponent n d"
  have pos: "0 < (2 powi ?e :: real)" by simp
  obtain n' d' where v: "0 < d'" "real n' / real d' = real n / real d / 2 powi ?e"
    "float_value (float_of_ratio n d) = real (half_even n' d') * 2 powi ?e"
    using float_of_ratio_value [OF assms] by blast
  have "real (2 * (half_even n' d' * d')) \<le> real (2 * n' + d')" "real (2 * n') \<le> real (2 * (half_even n' d' * d') + d')"
    using half_even_error [OF v(1), of n'] by (simp_all only: of_nat_le_iff)
  then have "real (half_even n' d') - real n' / real d' \<le> 1 / 2" "real n' / real d' - real (half_even n' d') \<le> 1 / 2"
    using v(1) by (simp_all add: field_simps)
  then have "\<bar>real (half_even n' d') - real n' / real d'\<bar> \<le> 1 / 2" by linarith
  then have "\<bar>real (half_even n' d') - real n' / real d'\<bar> * 2 powi ?e \<le> 1 / 2 * 2 powi ?e"
    by (rule mult_right_mono) simp
  moreover have "\<bar>real (half_even n' d') - real n' / real d'\<bar> * 2 powi ?e =
      \<bar>float_value (float_of_ratio n d) - real n / real d\<bar>"
    unfolding v(2,3) using pos by (simp add: abs_mult_pos left_diff_distrib)
  moreover have "1 / 2 * 2 powi ?e \<le> real n / real d / 2 ^ 53"
  proof -
    have "2 ^ 52 * 2 powi ?e \<le> real n / real d"
      using float_exponent_normal [OF assms] pos_le_divide_eq [OF pos] by blast
    then show ?thesis by simp
  qed
  ultimately show ?thesis by (simp only: order_trans)
qed

section \<open>Quotients of integers against a threshold\<close>

lemma float_of_ratio_pos: "0 < snd (float_of_ratio n d)"
  by (simp add: float_of_ratio_def Let_def split: prod.split)

lemma float_less_value: "0 < snd x \<Longrightarrow> 0 < snd y \<Longrightarrow> float_less x y \<longleftrightarrow> float_value x < float_value y"
proof -
  assume "0 < snd x" "0 < snd y"
  then have "float_value x < float_value y \<longleftrightarrow> real (fst x * snd y) < real (fst y * snd x)"
    by (simp add: float_value_def divide_less_eq less_divide_eq field_simps)
  then show ?thesis by (simp only: float_less_def of_nat_less_iff)
qed

lemma float_div_value:
  "0 < snd x \<Longrightarrow> 0 < snd y \<Longrightarrow> real (fst x * snd y) / real (snd x * fst y) = float_value x / float_value y"
  by (simp add: float_value_def)

lemma representable_scaled: "m < 2 ^ 53 \<Longrightarrow> representable (real m / 2 ^ k)"
  unfolding representable_def by (intro exI [of _ m] exI [of _ "- int k"]) (simp add: power_int_minus field_simps)

lemma representable_nat: "m < 2 ^ 53 \<Longrightarrow> representable (real m)"
  using representable_scaled [of m 0] by simp

text \<open>An integer below \<open>2 ^ 53\<close> is converted exactly, and bounds what is converted.\<close>

lemma float_of_nat_bounds:
  assumes "0 < n" and "m < 2 ^ 53"
  shows "m \<le> n \<Longrightarrow> real m \<le> float_value (float_of_ratio n 1)"
    and "n \<le> m \<Longrightarrow> float_value (float_of_ratio n 1) \<le> real m"
  using float_of_ratio_ge [OF assms(1) _ representable_nat [OF assms(2)], of 1]
    float_of_ratio_le [OF assms(1) _ representable_nat [OF assms(2)], of 1] by simp_all

lemma float_of_nat_exact: "0 < n \<Longrightarrow> n < 2 ^ 53 \<Longrightarrow> float_value (float_of_ratio n 1) = real n"
  using float_of_nat_bounds [of n n] by (simp add: antisym)

lemma float_div_bounds:
  assumes "0 < snd x" "0 < snd y" "0 < fst x" "0 < fst y" and "representable q"
  shows "q \<le> float_value x / float_value y \<Longrightarrow> q \<le> float_value (float_div x y)"
    and "float_value x / float_value y \<le> q \<Longrightarrow> float_value (float_div x y) \<le> q"
  using float_of_ratio_ge [of "fst x * snd y" "snd x * fst y" q] float_of_ratio_le [of "fst x * snd y" "snd x * fst y" q]
    assms float_div_value [OF assms(1,2)] by (simp_all add: float_div_def)

lemma float_of_ratio_positive: "0 < n \<Longrightarrow> 0 < float_value (float_of_ratio n 1) \<and> 0 < fst (float_of_ratio n 1)"
  using float_of_nat_bounds(1) [of n 1] by (auto simp: float_value_def intro: gr0I)

lemma quotient_over_100:
  assumes "0 < n" and "0 < l" and "l \<le> 2 ^ 46"
  shows "float_less (100, 1) (float_div (float_of_ratio n 1) (float_of_ratio l 1)) \<longleftrightarrow> 100 * l < n"
proof -
  let ?x = "float_of_ratio n 1" and ?y = "float_of_ratio l 1"
  have l: "float_value ?y = real l" using assms by (intro float_of_nat_exact) simp_all
  have pos: "0 < real l" using assms(2) by simp
  note bounds = float_div_bounds [of ?x ?y, OF float_of_ratio_pos float_of_ratio_pos]
  have fst: "0 < fst ?x" "0 < fst ?y" using assms float_of_ratio_positive by blast+
  have less: "float_less (100, 1) (float_div ?x ?y) \<longleftrightarrow> 100 < float_value (float_div ?x ?y)"
    using float_less_value [of "(100, 1)" "float_div ?x ?y"] by (simp add: float_div_def float_of_ratio_pos float_value_def)
  show ?thesis
  proof
    assume "100 * l < n"
    then have "real (100 * l + 1) \<le> float_value ?x" using assms by (intro float_of_nat_bounds) simp_all
    then have "100 + 1 / real l \<le> float_value ?x / real l"
      unfolding pos_le_divide_eq [OF pos] using pos by (simp add: distrib_right)
    moreover have "1 / 2 ^ 46 \<le> 1 / real l"
    proof (rule divide_left_mono)
      have "real l \<le> real (2 ^ 46)" using assms(3) by (simp only: of_nat_le_iff)
      then show "real l \<le> 2 ^ 46" by simp
    qed (use pos in simp_all)
    ultimately have "100 + 1 / 2 ^ 46 \<le> float_value ?x / float_value ?y" unfolding l by linarith
    moreover have "100 + 1 / 2 ^ 46 = real (100 * 2 ^ 46 + 1) / 2 ^ 46" by simp
    ultimately have "real (100 * 2 ^ 46 + 1) / 2 ^ 46 \<le> float_value ?x / float_value ?y" by simp
    then have "real (100 * 2 ^ 46 + 1) / 2 ^ 46 \<le> float_value (float_div ?x ?y)"
      by (intro bounds fst representable_scaled) simp_all
    then show "float_less (100, 1) (float_div ?x ?y)" unfolding less by simp
  next
    assume over: "float_less (100, 1) (float_div ?x ?y)"
    show "100 * l < n"
    proof (rule ccontr)
      assume "\<not> 100 * l < n"
      then have "float_value ?x \<le> real (100 * l)" using assms by (intro float_of_nat_bounds) simp_all
      then have "float_value ?x / float_value ?y \<le> 100" unfolding l using pos by (simp add: pos_divide_le_eq)
      then have "float_value (float_div ?x ?y) \<le> 100"
        using bounds(2) [OF fst representable_nat [of 100]] by simp
      with over less show False by simp
    qed
  qed
qed

lemma quotient_below_1_5:
  assumes "0 < n" and "0 < l" and "l \<le> 2 ^ 46"
  shows "float_less (float_div (float_of_ratio n 1) (float_of_ratio l 1)) (3, 2) \<longleftrightarrow> 2 * n < 3 * l"
proof -
  let ?x = "float_of_ratio n 1" and ?y = "float_of_ratio l 1"
  have l: "float_value ?y = real l" using assms by (intro float_of_nat_exact) simp_all
  have pos: "0 < real l" using assms(2) by simp
  note bounds = float_div_bounds [of ?x ?y, OF float_of_ratio_pos float_of_ratio_pos]
  have fst: "0 < fst ?x" "0 < fst ?y" using assms float_of_ratio_positive by blast+
  have less: "float_less (float_div ?x ?y) (3, 2) \<longleftrightarrow> float_value (float_div ?x ?y) < 3 / 2"
    using float_less_value [of "float_div ?x ?y" "(3, 2)"] by (simp add: float_div_def float_of_ratio_pos float_value_def)
  show ?thesis
  proof
    assume below: "2 * n < 3 * l"
    then have n: "float_value ?x = real n" using assms by (intro float_of_nat_exact) simp_all
    have "real (2 * n + 1) \<le> real (3 * l)" using below by (simp only: of_nat_le_iff)
    then have "real n / real l \<le> 3 / 2 - 1 / (2 * real l)" using pos by (simp add: field_simps)
    moreover have "1 / 2 ^ 52 \<le> 1 / (2 * real l)"
    proof (rule divide_left_mono)
      have "2 * l \<le> 2 ^ 52" using assms(3) by simp
      then have "real (2 * l) \<le> real (2 ^ 52)" by (simp only: of_nat_le_iff)
      then show "2 * real l \<le> 2 ^ 52" by simp
    qed (use pos in simp_all)
    ultimately have "float_value ?x / float_value ?y \<le> 3 / 2 - 1 / 2 ^ 52" unfolding l n by linarith
    also have "\<dots> = real (3 * 2 ^ 51 - 1) / 2 ^ 52" by simp
    finally have "float_value ?x / float_value ?y \<le> real (3 * 2 ^ 51 - 1) / 2 ^ 52" .
    then have "float_value (float_div ?x ?y) \<le> real (3 * 2 ^ 51 - 1) / 2 ^ 52"
      by (intro bounds fst representable_scaled) simp_all
    then show "float_less (float_div ?x ?y) (3, 2)" unfolding less by simp
  next
    assume below: "float_less (float_div ?x ?y) (3, 2)"
    show "2 * n < 3 * l"
    proof (rule ccontr)
      assume "\<not> 2 * n < 3 * l"
      then have "real (3 * l) \<le> real (2 * n)" by (simp only: of_nat_le_iff)
      then have "real (3 * l) / 2 ^ 1 \<le> real n / real 1" by simp
      then have "real (3 * l) / 2 ^ 1 \<le> float_value ?x"
        using assms by (intro float_of_ratio_ge representable_scaled) simp_all
      then have "3 / 2 \<le> float_value ?x / float_value ?y" unfolding l using pos by (simp add: field_simps)
      then have "3 / 2 \<le> float_value (float_div ?x ?y)"
        using bounds(1) [OF fst representable_scaled [of 3 1]] by simp
      with below less show False by simp
    qed
  qed
qed

lemma quotient_error:
  assumes "0 < n" and "0 < l" and "l < 2 ^ 53"
  shows "\<bar>float_value (float_div (float_of_ratio n 1) (float_of_ratio l 1)) - real n / real l\<bar> \<le> real n / real l / 2 ^ 51"
proof -
  let ?x = "float_of_ratio n 1" and ?y = "float_of_ratio l 1"
  let ?v = "float_value ?x" and ?q = "float_value (float_div ?x ?y)"
  have l: "float_value ?y = real l" using assms by (intro float_of_nat_exact) simp_all
  have pos: "0 < real l" using assms(2) by simp
  have "\<bar>?q - ?v / real l\<bar> \<le> ?v / real l / 2 ^ 53"
    using float_of_ratio_error [of "fst ?x * snd ?y" "snd ?x * fst ?y"] float_of_ratio_pos
      float_of_ratio_positive [OF assms(1)] float_of_ratio_positive [OF assms(2)]
      float_div_value [of ?x ?y] l by (simp add: float_div_def)
  moreover have v: "\<bar>?v - real n\<bar> \<le> real n / 2 ^ 53" using float_of_ratio_error [OF assms(1), of 1] by simp
  from divide_right_mono [OF v, of "real l"] have "\<bar>?v / real l - real n / real l\<bar> \<le> real n / 2 ^ 53 / real l"
    by (simp only: diff_divide_distrib [symmetric] abs_divide abs_of_nat of_nat_0_le_iff)
  moreover have "?v / real l \<le> 2 * real n / real l"
  proof (rule divide_right_mono)
    have "real n / 2 ^ 53 \<le> real n" by (simp add: divide_le_eq)
    with v show "?v \<le> 2 * real n" by linarith
  qed (use pos in simp)
  moreover have "real n / 2 ^ 53 / real l = real n / real l / 2 ^ 53" by simp
  ultimately show ?thesis by simp
qed

text \<open>What is printed of a quotient.\<close>

lemma half_even_near:
  assumes "0 < d" and "\<bar>real n / real d - real k\<bar> < 1 / 2"
  shows "half_even n d = k"
proof -
  have b: "real (2 * (half_even n d * d)) \<le> real (2 * n + d)" "real (2 * n) \<le> real (2 * (half_even n d * d) + d)"
    using half_even_error [OF assms(1), of n] by (simp_all only: of_nat_le_iff)
  have "real (half_even n d) - real n / real d \<le> 1 / 2" "real n / real d - real (half_even n d) \<le> 1 / 2"
    using assms(1) b by (simp_all add: field_simps)
  then have "\<bar>real (half_even n d) - real k\<bar> < 1" using assms(2) by linarith
  then show ?thesis by linarith
qed

lemma fmt_fixed_near:
  assumes "0 < snd x" and "\<bar>float_value x * 10 ^ p - real k\<bar> < 1 / 2"
  shows "fmt_fixed p x = nat_digits (k div 10 ^ p) @ ''.'' @
    (let r = nat_digits (k mod 10 ^ p) in replicate (p - length r) (CHR ''0'') @ r)"
proof -
  have "half_even (fst x * 10 ^ p) (snd x) = k"
    using assms by (intro half_even_near) (simp_all add: float_value_def)
  then show ?thesis by (simp add: fmt_fixed_def Let_def)
qed

text \<open>A quotient that is clearly nearest to \<open>k\<close> in units of the last decimal is printed as \<open>k\<close>.\<close>

lemma fmt_fixed_quotient:
  assumes "0 < n" and "0 < l" and "l < 2 ^ 53"
    and "\<bar>real n / real l * 10 ^ p - real k\<bar> + real n / real l * 10 ^ p / 2 ^ 51 < 1 / 2"
  shows "fmt_fixed p (float_div (float_of_ratio n 1) (float_of_ratio l 1)) = nat_digits (k div 10 ^ p) @ ''.'' @
    (let r = nat_digits (k mod 10 ^ p) in replicate (p - length r) (CHR ''0'') @ r)"
proof (rule fmt_fixed_near)
  let ?q = "float_div (float_of_ratio n 1) (float_of_ratio l 1)" and ?r = "real n / real l"
  show "0 < snd ?q" by (simp add: float_div_def float_of_ratio_pos)
  have "\<bar>float_value ?q - ?r\<bar> * 10 ^ p \<le> ?r / 2 ^ 51 * 10 ^ p"
    by (rule mult_right_mono [OF quotient_error [OF assms(1-3)]]) simp
  moreover have "\<bar>float_value ?q - ?r\<bar> * 10 ^ p = \<bar>float_value ?q * 10 ^ p - ?r * 10 ^ p\<bar>"
    by (simp only: left_diff_distrib [symmetric] abs_mult) simp
  ultimately have "\<bar>float_value ?q * 10 ^ p - ?r * 10 ^ p\<bar> \<le> ?r * 10 ^ p / 2 ^ 51" by simp
  moreover have "\<bar>a - b\<bar> \<le> e \<Longrightarrow> \<bar>b - c\<bar> + e < h \<Longrightarrow> \<bar>a - c\<bar> < h" for a b c e h :: real by linarith
  ultimately show "\<bar>float_value ?q * 10 ^ p - real k\<bar> < 1 / 2" using assms(4) by blast
qed

end
