(* ===== verification/Cost_Budget.thy ===== *)
theory Cost_Budget
  imports Comparators CEL_Context Go_Format Go_Float Examples
begin

text \<open>
  \<open>comp_must_not_exceed_cost_budget.go\<close>: the estimated cost of the CEL rules of a schema. The
  context of each rule is rebuilt from the ancestors of its node, the cost of the rule is its
  raw cost times the cardinality, and a rule or a whole CRD beyond its limit is an error.
\<close>

section \<open>Messages\<close>

text \<open>\<open>field.Error.Error()\<close> for the four kinds of error in use; \<open>Invalid\<close> prints the bad value.\<close>

definition field_error :: "Path \<Rightarrow> string \<Rightarrow> string \<Rightarrow> string" where
  "field_error fld body detail =
     path_String fld @ '': '' @ body @ (if length detail \<noteq> 0 then '': '' @ detail else [])"

definition field_Forbidden :: "Path \<Rightarrow> string \<Rightarrow> string" where
  "field_Forbidden fld detail = field_error fld ''Forbidden'' detail"

definition field_Required :: "Path \<Rightarrow> string \<Rightarrow> string" where
  "field_Required fld detail = field_error fld ''Required value'' detail"

definition field_InternalError :: "Path \<Rightarrow> string \<Rightarrow> string" where
  "field_InternalError fld err = field_error fld ''Internal error'' err"

definition field_Invalid :: "('str, 'decl) cel_env \<Rightarrow> Path \<Rightarrow> ValidationRule \<Rightarrow> string \<Rightarrow> string" where
  "field_Invalid env fld rule detail = field_error fld (''Invalid value: '' @ rule_JSON env rule) detail"

definition fmt_uint64 :: "uint64 \<Rightarrow> string" where
  "fmt_uint64 x = nat_digits (unat x)"

definition fmt_int64 :: "int64 \<Rightarrow> string" where
  "fmt_int64 x = itoa (sint x)"

definition getExpressionCost :: "CompilationResult \<Rightarrow> CELSchemaContext \<Rightarrow> uint64" where
  "getExpressionCost cr cardinalityCost =
     (case MaxCardinality cardinalityCost of
        Some c \<Rightarrow> multiplyWithOverflowGuard (cr_MaxCost cr) c
      | None \<Rightarrow> multiplyWithOverflowGuard (cr_MaxCost cr) (cr_MaxCardinality cr))"

definition getCostErrorMessage :: "string \<Rightarrow> uint64 \<Rightarrow> uint64 \<Rightarrow> string" where
  "getCostErrorMessage costName expressionCost costLimit =
     (let exceedFactor = float_div (float_of_uint64 expressionCost) (float_of_uint64 costLimit);
          factor = (if float_less (100, 1) exceedFactor then ''more than 100x''
                    else if float_less exceedFactor (3, 2) then fmt_fixed 6 exceedFactor @ ''x''
                    else fmt_fixed 1 exceedFactor @ ''x'')
      in costName @ '' exceeds budget by factor of '' @ factor @
         '' (try simplifying the rule(s), or adding maxItems, maxProperties, and maxLength where arrays, maps, and strings are declared)'')"

section \<open>The context of a node\<close>

fun extractCELContext_loop ::
  "('str, 'decl) cel_env \<Rightarrow> JSONSchemaProps list \<Rightarrow> CELSchemaContext option \<Rightarrow> gerror + CELSchemaContext option" where
  "extractCELContext_loop env [] celContext = Inr celContext"
| "extractCELContext_loop env (s # schemas) celContext =
     (case convert_error env s of
        Some err \<Rightarrow> Inl (''failed to convert schema: '' @ err)
      | None \<Rightarrow>
          (case celContext of
             None \<Rightarrow> extractCELContext_loop env schemas (Some (RootCELContext s))
           | Some _ \<Rightarrow> extractCELContext_loop env schemas (ChildPropertyContext celContext s (ID (attrs s)))))"

definition extractCELContext ::
  "('str, 'decl) cel_env \<Rightarrow> JSONSchemaProps list \<Rightarrow> gerror + CELSchemaContext option" where
  "extractCELContext env schemas = extractCELContext_loop env schemas None"

section \<open>Unbounded parents\<close>

text \<open>\<open>strings.Split\<close> at a character, \<open>TrimPrefix\<close>, \<open>TrimSuffix\<close> and \<open>Replace\<close> of all.\<close>

fun split_at :: "char \<Rightarrow> string \<Rightarrow> string list" where
  "split_at sep [] = [[]]"
| "split_at sep (c # s) =
     (if c = sep then [] # split_at sep s
      else case split_at sep s of [] \<Rightarrow> [[c]] | p # ps \<Rightarrow> (c # p) # ps)"

definition TrimPrefix :: "string \<Rightarrow> string \<Rightarrow> string" where
  "TrimPrefix s pre = (if prefix pre s then drop (length pre) s else s)"

definition TrimSuffix :: "string \<Rightarrow> string \<Rightarrow> string" where
  "TrimSuffix s suf = (if suffix suf s then take (length s - length suf) s else s)"

text \<open>\<open>strings.Replace(s, "-1", "*", -1)\<close>\<close>

fun replace_minus_one :: "string \<Rightarrow> string" where
  "replace_minus_one [] = []"
| "replace_minus_one [c] = [c]"
| "replace_minus_one (c # d # s) =
     (if c = CHR ''-'' \<and> d = CHR ''1'' then CHR ''*'' # replace_minus_one s
      else c # replace_minus_one (d # s))"

definition getCleanPathParts :: "Path \<Rightarrow> string list" where
  "getCleanPathParts fldPath =
     map (\<lambda>part. if prefix ''properties['' part then TrimPrefix (TrimSuffix part '']'') ''properties['' else part)
       (split_at (CHR ''.'') (path_String fldPath))"

definition isUnboundedCardinality :: "JSONSchemaProps \<Rightarrow> bool" where
  "isUnboundedCardinality schema =
     (if Type (attrs schema) = ''object'' then AdditionalProperties schema \<noteq> None \<and> MaxProperties (attrs schema) = None
      else if Type (attrs schema) = ''array'' then MaxItems (attrs schema) = None
      else False)"

fun unbounded_loop ::
  "('str, 'decl) cel_env \<Rightarrow> (JSONSchemaProps \<times> string) list \<Rightarrow> Path option \<Rightarrow> string list \<Rightarrow> string list" where
  "unbounded_loop env [] path unboundedParents = unboundedParents"
| "unbounded_loop env ((s, part) # rest) path unboundedParents =
     (if convert_error env s \<noteq> None then unbounded_loop env rest path unboundedParents
      else
        let path = (case path of
              None \<Rightarrow> NewPath part []
            | Some p \<Rightarrow> if part = ''items'' then Index p (-1) else Child p part [])
        in unbounded_loop env rest (Some path)
             (if isUnboundedCardinality s then unboundedParents @ [replace_minus_one (path_String path)]
              else unboundedParents))"

definition getUnboundedParentFields ::
  "('str, 'decl) cel_env \<Rightarrow> JSONSchemaProps list \<Rightarrow> Path \<Rightarrow> gerror + string list" where
  "getUnboundedParentFields env ancestry fldPath =
     (let cleanPathParts = getCleanPathParts fldPath
      in if length ancestry + 1 \<noteq> length cleanPathParts then Inl ''ancestry and field path do not match''
         else Inr (unbounded_loop env (zip ancestry cleanPathParts) None []))"

section \<open>inspectSchema\<close>

definition getDeclType :: "('str, 'decl) cel_env \<Rightarrow> JSONSchemaProps \<Rightarrow> bool \<Rightarrow> gerror + 'decl" where
  "getDeclType env schema isRoot =
     (case NewStructural env schema of
        Inl err \<Rightarrow> Inl err
      | Inr structural \<Rightarrow>
          (case SchemaDeclType env structural isRoot of
             None \<Rightarrow> Inl ''unable to convert structural schema to CEL declarations''
           | Some declType \<Rightarrow> Inr declType))"

text \<open>The infos and the warnings.\<close>

definition inspectSchema ::
  "('str, 'decl) cel_env \<Rightarrow> JSONSchemaProps \<Rightarrow> Path \<Rightarrow> bool \<Rightarrow> gerror + string list \<times> string list" where
  "inspectSchema env schema simpleLocation isRoot =
     (case getDeclType env schema isRoot of
        Inl err \<Rightarrow> Inl err
      | Inr typeInfo \<Rightarrow> Inr
          (if Type (attrs schema) = ''string'' then
             if length (Enum (attrs schema)) > 0 then ([], [])
             else (case MaxLength (attrs schema) of
                 None \<Rightarrow> ([], [path_String simpleLocation @
                   '': String has unbounded maxLength. It will be considered to have length '' @
                   itoa (MaxElements env typeInfo) @
                   ''. Consider adding a maxLength constraint to reduce the raw rule cost.''])
               | Some m \<Rightarrow> ([path_String simpleLocation @ '': String has maxLength of '' @ fmt_int64 m @ ''.''], []))
           else if Type (attrs schema) = ''array'' then
             (case MaxItems (attrs schema) of
                None \<Rightarrow> ([], [path_String simpleLocation @
                  '': Array has unbounded maxItems. It will be considered to have '' @
                  itoa (MaxElements env typeInfo) @
                  '' items. Consider adding a maxItems constraint to reduce the raw rule cost.''])
              | Some m \<Rightarrow> ([path_String simpleLocation @ '': Array has maxItems of '' @ fmt_int64 m @ ''.''], []))
           else ([], [])))"

section \<open>Validate\<close>

definition budget_Name :: string where
  "budget_Name = ''MustNotExceedCostBudget''"

definition budget_WhyItMatters :: string where
  "budget_WhyItMatters = ''''"

record budget_vars =
  budget_errs :: "string list"
  budget_warnings :: "string list"
  budget_infos :: "string list"
  rootTotalCost :: TotalCost

definition add_err :: "string \<Rightarrow> budget_vars \<Rightarrow> budget_vars" where
  "add_err m vars = vars\<lparr>budget_errs := budget_errs vars @ [m]\<rparr>"

definition add_warning :: "string \<Rightarrow> budget_vars \<Rightarrow> budget_vars" where
  "add_warning m vars = vars\<lparr>budget_warnings := budget_warnings vars @ [m]\<rparr>"

definition add_info :: "string \<Rightarrow> budget_vars \<Rightarrow> budget_vars" where
  "add_info m vars = vars\<lparr>budget_infos := budget_infos vars @ [m]\<rparr>"

text \<open>The note on the cardinality of the field that precedes the cost of each rule.\<close>

definition note_cardinality ::
  "('str, 'decl) cel_env \<Rightarrow> CELSchemaContext \<Rightarrow> CompilationResult \<Rightarrow> JSONSchemaProps list \<Rightarrow> Path \<Rightarrow> Path \<Rightarrow>
   budget_vars \<Rightarrow> budget_vars" where
  "note_cardinality env celContext cr ancestry fldPath simpleLocation vars =
     (case MaxCardinality celContext of
        None \<Rightarrow>
          (let result = getUnboundedParentFields env ancestry fldPath;
               unboundedParents = (case result of Inl _ \<Rightarrow> [] | Inr ps \<Rightarrow> ps);
               vars = (case result of Inl err \<Rightarrow> add_err err vars | Inr _ \<Rightarrow> vars)
           in add_warning (path_String simpleLocation @
                '': Field has unbounded cardinality. At least one, variable parent field does not have a maxItems or maxProperties constraint: '' @
                join_with '','' unboundedParents @ ''. Falling back to CEL calculated worst case of '' @
                fmt_uint64 (cr_MaxCardinality cr) @ '' executions.'') vars)
      | Some c \<Rightarrow>
          (let msg = path_String simpleLocation @ '': Field has a maximum cardinality of '' @ fmt_uint64 c @ ''.''
           in add_info (if c > 1
                then msg @ '' This is the calculated, worst case number of times the rule will be evaluated.''
                else msg) vars))"

text \<open>The percentage: the product with 100 wraps around, as a \<open>uint64\<close>.\<close>

definition budget_percentage :: "uint64 \<Rightarrow> string" where
  "budget_percentage expressionCost =
     fmt_fixed 2 (float_div (float_of_uint64 (expressionCost * 100)) (float_of_uint64 StaticEstimatedCostLimit)) @ ''%''"

definition nth_rule :: "JSONSchemaProps \<Rightarrow> nat \<Rightarrow> ValidationRule go" where
  "nth_rule schema i = (if i < length (rules_of schema) then Some (rules_of schema ! i) else None)"

text \<open>The body of the loop over the compilation results.\<close>

definition rule_step ::
  "('str, 'decl) cel_env \<Rightarrow> JSONSchemaProps \<Rightarrow> CELSchemaContext \<Rightarrow> JSONSchemaProps list \<Rightarrow> Path \<Rightarrow> Path \<Rightarrow>
   nat \<times> CompilationResult \<Rightarrow> budget_vars \<Rightarrow> budget_vars go" where
  "rule_step env schema celContext ancestry fldPath simpleLocation = (\<lambda>(i, cr) vars. do {
     let vars = note_cardinality env celContext cr ancestry fldPath simpleLocation vars;
     let expressionCost = getExpressionCost cr celContext;
     let vars = (if expressionCost > StaticEstimatedCostLimit
       then add_err (field_Forbidden fldPath
              (getCostErrorMessage ''estimated rule cost'' expressionCost StaticEstimatedCostLimit)) vars
       else vars);
     let vars = vars\<lparr>rootTotalCost := ObserveExpressionCost (rootTotalCost vars) fldPath expressionCost\<rparr>;
     vars \<leftarrow> (case cr_Error cr of
         Some err \<Rightarrow>
           if celError_Type err = ''RuleRequired''
           then Some (add_err (field_Required fldPath (celError_Detail err)) vars)
           else do {
             rule \<leftarrow> nth_rule schema i;
             Some (add_err (field_Invalid env fldPath rule (celError_Detail err)) vars)
           }
       | None \<Rightarrow> Some (add_info (path_String simpleLocation @ '': Rule '' @ nat_digits i @ '' raw cost is '' @
           fmt_uint64 (cr_MaxCost cr) @ ''. Estimated total cost of '' @ fmt_uint64 expressionCost @
           ''. The maximum allowable value is '' @ fmt_uint64 StaticEstimatedCostLimit @ ''. Rule is '' @
           budget_percentage expressionCost @ '' of allowed budget.'') vars));
     (case cr_MessageExpressionError cr of
        Some err \<Rightarrow> do {
          rule \<leftarrow> nth_rule schema i;
          Some (add_err (field_Invalid env fldPath rule (celError_Detail err)) vars)
        }
      | None \<Rightarrow>
          if cr_hasMessageExpression cr \<and> cr_MessageExpressionMaxCost cr > StaticEstimatedCostLimit
          then Some (add_err (field_Forbidden fldPath (getCostErrorMessage ''estimated messageExpression cost''
                 (cr_MessageExpressionMaxCost cr) StaticEstimatedCostLimit)) vars)
          else Some vars)
   })"

definition budget_pred :: "('str, 'decl) cel_env \<Rightarrow> budget_vars walker" where
  "budget_pred env s fldPath simpleLocation ancestry vars =
     (case convert_error env s of
        Some err \<Rightarrow> Some (False, add_err err vars)
      | None \<Rightarrow>
          if XValidations (attrs s) = None then Some (False, vars)
          else
            let vars = (case inspectSchema env s simpleLocation (length ancestry = 0) of
                   Inl err \<Rightarrow> add_err err vars
                 | Inr (infos, warnings) \<Rightarrow>
                     vars\<lparr>budget_infos := budget_infos vars @ infos,
                          budget_warnings := budget_warnings vars @ warnings\<rparr>)
            in case extractCELContext env (ancestry @ [s]) of
                 Inl err \<Rightarrow> Some (False, add_err err vars)
               | Inr None \<Rightarrow> Some (False, vars)
               | Inr (Some celContext) \<Rightarrow>
                   (case TypeInfo env celContext of
                      Inl err \<Rightarrow> Some (False, add_err err vars)
                    | Inr None \<Rightarrow> Some (False, vars)
                    | Inr (Some typeInfo) \<Rightarrow>
                        (case cel_Compile env typeInfo of
                           Inl err \<Rightarrow> Some (False, add_err (field_InternalError fldPath
                             (''failed to compile x-kubernetes-validations rules: '' @ err)) vars)
                         | Inr compResults \<Rightarrow> do {
                             vars \<leftarrow> range_do (rule_step env s celContext ancestry fldPath simpleLocation)
                               (enumerate 0 compResults) vars;
                             Some (False, vars)
                           })))"

definition budget_Validate :: "('str, 'decl) cel_env \<Rightarrow> validate_fun" where
  "budget_Validate env crd = do {
     vars \<leftarrow> range_do (\<lambda>newVersion vars. do {
       openAPISchema \<leftarrow> version_schema newVersion;
       conversion \<leftarrow> Convert env openAPISchema;
       case conversion of
         Inl err \<Rightarrow> Some (add_err err vars)
       | Inr _ \<Rightarrow> do {
           (_, vars) \<leftarrow> walk_schema (budget_pred env) openAPISchema (vars\<lparr>rootTotalCost := zero_cost\<rparr>);
           Some (if Total (rootTotalCost vars) > StaticEstimatedCRDCostLimit
             then add_err (field_Forbidden (NewPath ''^'' []) (getCostErrorMessage ''total CRD cost''
                    (Total (rootTotalCost vars)) StaticEstimatedCRDCostLimit)) vars
             else vars)
         }
     }) (Versions crd) \<lparr> budget_errs = [], budget_warnings = [], budget_infos = [], rootTotalCost = zero_cost \<rparr>;
     Some (Inr \<lparr> Name = budget_Name, WhyItMatters = budget_WhyItMatters,
       Errors = budget_errs vars, Warnings = budget_warnings vars, Infos = budget_infos vars \<rparr>)
   }"

definition budget_Compare :: "('str, 'decl) cel_env \<Rightarrow> compare_fun" where
  "budget_Compare env existingCRD newCRD = RatchetCompare (budget_Validate env) existingCRD newCRD"

definition MustNotExceedCostBudget :: "('str, 'decl) cel_env \<Rightarrow> CRDComparator" where
  "MustNotExceedCostBudget env = \<lparr> comparator_Name = budget_Name, comparator_Why = budget_WhyItMatters,
     Compare = budget_Compare env \<rparr>"


section \<open>What a node contributes\<close>

text \<open>The messages of a node and the costs it observes, in order.\<close>

record budget_report =
  report_errs :: "string list"
  report_warnings :: "string list"
  report_infos :: "string list"
  report_costs :: "(Path \<times> uint64) list"

definition no_report :: budget_report where
  "no_report = \<lparr> report_errs = [], report_warnings = [], report_infos = [], report_costs = [] \<rparr>"

definition join_report :: "budget_report \<Rightarrow> budget_report \<Rightarrow> budget_report" where
  "join_report a b = \<lparr> report_errs = report_errs a @ report_errs b,
     report_warnings = report_warnings a @ report_warnings b, report_infos = report_infos a @ report_infos b,
     report_costs = report_costs a @ report_costs b \<rparr>"

definition join_reports :: "budget_report list \<Rightarrow> budget_report" where
  "join_reports rs = foldr join_report rs no_report"

definition apply_report :: "budget_report \<Rightarrow> budget_vars \<Rightarrow> budget_vars" where
  "apply_report r vars =
     \<lparr> budget_errs = budget_errs vars @ report_errs r, budget_warnings = budget_warnings vars @ report_warnings r,
       budget_infos = budget_infos vars @ report_infos r,
       rootTotalCost = fold (\<lambda>(p, k) c. ObserveExpressionCost c p k) (report_costs r) (rootTotalCost vars) \<rparr>"

lemma apply_join_report: "apply_report (join_report a b) vars = apply_report b (apply_report a vars)"
  by (simp add: apply_report_def join_report_def)

lemma apply_no_report [simp]: "apply_report no_report vars = vars"
  by (simp add: apply_report_def no_report_def)

lemma join_reports_simps [simp]:
  "join_reports [] = no_report"
  "join_reports (r # rs) = join_report r (join_reports rs)"
  by (simp_all add: join_reports_def)

lemma join_reports_sel:
  "report_errs (join_reports rs) = concat (map report_errs rs)"
  "report_warnings (join_reports rs) = concat (map report_warnings rs)"
  "report_infos (join_reports rs) = concat (map report_infos rs)"
  "report_costs (join_reports rs) = concat (map report_costs rs)"
  by (induction rs) (simp_all add: join_report_def no_report_def)

text \<open>A loop whose iterations panic or apply a report.\<close>

lemma range_do_reports:
  assumes "\<And>x vars. x \<in> set xs \<Longrightarrow> f x vars = (if safe x then Some (apply_report (rep x) vars) else None)"
  shows "range_do f xs vars = (if list_all safe xs then Some (apply_report (join_reports (map rep xs)) vars) else None)"
  using assms by (induction xs arbitrary: vars) (auto simp: apply_join_report)

lemma range_until_reports:
  assumes "\<And>x vars. x \<in> set xs \<Longrightarrow> f x vars = (if safe x then Some (False, apply_report (rep x) vars) else None)"
  shows "range_until f xs vars =
    (if list_all safe xs then Some (False, apply_report (join_reports (map rep xs)) vars) else None)"
  using assms by (induction xs arbitrary: vars) (auto simp: apply_join_report)

text \<open>
  One rule. Its index is out of range of the schema's rules only if the compiler returns more
  results than there are rules.
\<close>

definition rule_safe :: "JSONSchemaProps \<Rightarrow> nat \<times> CompilationResult \<Rightarrow> bool" where
  "rule_safe schema = (\<lambda>(i, cr). i < length (rules_of schema) \<or>
     (\<forall>err\<in>set_option (cr_Error cr). celError_Type err = ''RuleRequired'') \<and> cr_MessageExpressionError cr = None)"

definition cardinality_report ::
  "('str, 'decl) cel_env \<Rightarrow> CELSchemaContext \<Rightarrow> CompilationResult \<Rightarrow> visit \<Rightarrow> budget_report" where
  "cardinality_report env celContext cr v =
     (case MaxCardinality celContext of
        None \<Rightarrow>
          (let result = getUnboundedParentFields env (visit_anc v) (visit_fld v)
           in no_report
                \<lparr> report_errs := (case result of Inl err \<Rightarrow> [err] | Inr _ \<Rightarrow> []),
                  report_warnings := [loc_string v @
                    '': Field has unbounded cardinality. At least one, variable parent field does not have a maxItems or maxProperties constraint: '' @
                    join_with '','' (case result of Inl _ \<Rightarrow> [] | Inr ps \<Rightarrow> ps) @
                    ''. Falling back to CEL calculated worst case of '' @ fmt_uint64 (cr_MaxCardinality cr) @ '' executions.''] \<rparr>)
      | Some c \<Rightarrow> no_report
          \<lparr> report_infos := [loc_string v @ '': Field has a maximum cardinality of '' @ fmt_uint64 c @ ''.'' @
              (if c > 1 then '' This is the calculated, worst case number of times the rule will be evaluated.'' else [])] \<rparr>)"

definition over_limit_errs :: "Path \<Rightarrow> string \<Rightarrow> uint64 \<Rightarrow> string list" where
  "over_limit_errs fld what cost =
     (if cost > StaticEstimatedCostLimit
      then [field_Forbidden fld (getCostErrorMessage what cost StaticEstimatedCostLimit)] else [])"

definition compile_errs ::
  "('str, 'decl) cel_env \<Rightarrow> JSONSchemaProps \<Rightarrow> Path \<Rightarrow> nat \<Rightarrow> CelError option \<Rightarrow> string list" where
  "compile_errs env schema fld i err =
     (case err of
        None \<Rightarrow> []
      | Some e \<Rightarrow>
          if celError_Type e = ''RuleRequired'' then [field_Required fld (celError_Detail e)]
          else [field_Invalid env fld (rules_of schema ! i) (celError_Detail e)])"

definition cost_infos :: "visit \<Rightarrow> nat \<Rightarrow> CompilationResult \<Rightarrow> uint64 \<Rightarrow> string list" where
  "cost_infos v i cr cost =
     (if cr_Error cr = None
      then [loc_string v @ '': Rule '' @ nat_digits i @ '' raw cost is '' @
           fmt_uint64 (cr_MaxCost cr) @ ''. Estimated total cost of '' @ fmt_uint64 cost @
           ''. The maximum allowable value is '' @ fmt_uint64 StaticEstimatedCostLimit @ ''. Rule is '' @
           budget_percentage cost @ '' of allowed budget.'']
      else [])"

definition message_errs ::
  "('str, 'decl) cel_env \<Rightarrow> JSONSchemaProps \<Rightarrow> Path \<Rightarrow> nat \<Rightarrow> CompilationResult \<Rightarrow> string list" where
  "message_errs env schema fld i cr =
     (case cr_MessageExpressionError cr of
        Some e \<Rightarrow> [field_Invalid env fld (rules_of schema ! i) (celError_Detail e)]
      | None \<Rightarrow> if cr_hasMessageExpression cr
          then over_limit_errs fld ''estimated messageExpression cost'' (cr_MessageExpressionMaxCost cr) else [])"

definition rule_report ::
  "('str, 'decl) cel_env \<Rightarrow> CELSchemaContext \<Rightarrow> visit \<Rightarrow> nat \<times> CompilationResult \<Rightarrow> budget_report" where
  "rule_report env celContext v = (\<lambda>(i, cr).
     let cost = getExpressionCost cr celContext; schema = visit_schema v; fld = visit_fld v
     in join_report (cardinality_report env celContext cr v)
          \<lparr> report_errs = over_limit_errs fld ''estimated rule cost'' cost @
              compile_errs env schema fld i (cr_Error cr) @ message_errs env schema fld i cr,
            report_warnings = [], report_infos = cost_infos v i cr cost, report_costs = [(fld, cost)] \<rparr>)"

lemma note_cardinality_eq:
  "note_cardinality env celContext cr (visit_anc v) (visit_fld v) (visit_loc v) vars =
   apply_report (cardinality_report env celContext cr v) vars"
  by (simp add: note_cardinality_def cardinality_report_def apply_report_def no_report_def add_err_def
      add_warning_def add_info_def loc_string_def Let_def split: option.split sum.split)

lemma rule_step_eq:
  "rule_step env (visit_schema v) celContext (visit_anc v) (visit_fld v) (visit_loc v) icr vars =
   (if rule_safe (visit_schema v) icr then Some (apply_report (rule_report env celContext v icr) vars) else None)"
proof -
  obtain i cr where icr: "icr = (i, cr)" by (cases icr)
  show ?thesis
    unfolding icr rule_step_def rule_report_def Let_def prod.case note_cardinality_eq apply_join_report
    by (cases "cr_Error cr"; cases "cr_MessageExpressionError cr")
      (auto simp: rule_safe_def nth_rule_def apply_report_def add_err_def add_info_def over_limit_errs_def
        compile_errs_def message_errs_def cost_infos_def loc_string_def)
qed


section \<open>The rules of a node\<close>

text \<open>
  The compiled rules of a node with their context, or the message of the step that failed; nothing
  for a node without type information.
\<close>

definition compiled_rules ::
  "('str, 'decl) cel_env \<Rightarrow> visit \<Rightarrow> gerror + (CELSchemaContext \<times> CompilationResult list) option" where
  "compiled_rules env v =
     (case extractCELContext env (visit_anc v @ [visit_schema v]) of
        Inl err \<Rightarrow> Inl err
      | Inr None \<Rightarrow> Inr None
      | Inr (Some celContext) \<Rightarrow>
          (case TypeInfo env celContext of
             Inl err \<Rightarrow> Inl err
           | Inr None \<Rightarrow> Inr None
           | Inr (Some typeInfo) \<Rightarrow>
               (case cel_Compile env typeInfo of
                  Inl err \<Rightarrow> Inl (field_InternalError (visit_fld v)
                    (''failed to compile x-kubernetes-validations rules: '' @ err))
                | Inr compResults \<Rightarrow> Inr (Some (celContext, compResults)))))"

text \<open>A node whose rules are looked at.\<close>

definition has_rules :: "('str, 'decl) cel_env \<Rightarrow> visit \<Rightarrow> bool" where
  "has_rules env v \<longleftrightarrow> convert_error env (visit_schema v) = None \<and> XValidations (attrs (visit_schema v)) \<noteq> None"

definition rules_with_index ::
  "('str, 'decl) cel_env \<Rightarrow> visit \<Rightarrow> (CELSchemaContext \<times> nat \<times> CompilationResult) list" where
  "rules_with_index env v =
     (if has_rules env v
      then (case compiled_rules env v of
              Inr (Some (celContext, crs)) \<Rightarrow> map (\<lambda>icr. (celContext, icr)) (enumerate 0 crs)
            | _ \<Rightarrow> [])
      else [])"

definition inspect_report :: "('str, 'decl) cel_env \<Rightarrow> visit \<Rightarrow> budget_report" where
  "inspect_report env v =
     (case inspectSchema env (visit_schema v) (visit_loc v) (length (visit_anc v) = 0) of
        Inl err \<Rightarrow> no_report\<lparr>report_errs := [err]\<rparr>
      | Inr (infos, warnings) \<Rightarrow> no_report\<lparr>report_infos := infos, report_warnings := warnings\<rparr>)"

definition node_report :: "('str, 'decl) cel_env \<Rightarrow> visit \<Rightarrow> budget_report" where
  "node_report env v =
     (case convert_error env (visit_schema v) of
        Some err \<Rightarrow> no_report\<lparr>report_errs := [err]\<rparr>
      | None \<Rightarrow>
          if XValidations (attrs (visit_schema v)) = None then no_report
          else join_report (inspect_report env v)
            (case compiled_rules env v of
               Inl err \<Rightarrow> no_report\<lparr>report_errs := [err]\<rparr>
             | Inr _ \<Rightarrow> join_reports (map (\<lambda>(ctx, icr). rule_report env ctx v icr) (rules_with_index env v))))"

definition node_safe :: "('str, 'decl) cel_env \<Rightarrow> visit \<Rightarrow> bool" where
  "node_safe env v \<longleftrightarrow> list_all (\<lambda>(ctx, icr). rule_safe (visit_schema v) icr) (rules_with_index env v)"

lemma apply_single:
  "add_err m vars = apply_report (no_report\<lparr>report_errs := [m]\<rparr>) vars"
  by (simp add: add_err_def apply_report_def no_report_def)

lemma budget_pred_visit:
  "visit_run (budget_pred env) v vars =
   (if node_safe env v then Some (False, apply_report (node_report env v) vars) else None)"
proof (cases "has_rules env v")
  case False
  then have "rules_with_index env v = []" by (simp add: rules_with_index_def)
  with False show ?thesis
    by (auto simp: visit_run_def budget_pred_def node_safe_def node_report_def has_rules_def apply_single
        split: option.splits)
next
  case True
  let ?vars = "apply_report (inspect_report env v) vars"
  have rules: "convert_error env (visit_schema v) = None" "\<exists>rs. XValidations (attrs (visit_schema v)) = Some rs"
    using True by (auto simp: has_rules_def)
  have inspected: "(case inspectSchema env (visit_schema v) (visit_loc v) (length (visit_anc v) = 0) of
        Inl err \<Rightarrow> add_err err vars
      | Inr (infos, warnings) \<Rightarrow>
          vars\<lparr>budget_infos := budget_infos vars @ infos, budget_warnings := budget_warnings vars @ warnings\<rparr>) = ?vars"
    by (simp add: inspect_report_def apply_report_def no_report_def add_err_def split: sum.split prod.split)
  have run: "visit_run (budget_pred env) v vars =
      (case compiled_rules env v of
         Inl err \<Rightarrow> Some (False, add_err err ?vars)
       | Inr None \<Rightarrow> Some (False, ?vars)
       | Inr (Some (celContext, crs)) \<Rightarrow> do {
           vars \<leftarrow> range_do (rule_step env (visit_schema v) celContext (visit_anc v) (visit_fld v) (visit_loc v))
             (enumerate 0 crs) ?vars;
           Some (False, vars)
         })"
    unfolding visit_run_def budget_pred_def rules(1) option.case Let_def inspected compiled_rules_def
    using rules(2) by (auto split: sum.split option.split)
  show ?thesis
  proof (cases "\<exists>ctx crs. compiled_rules env v = Inr (Some (ctx, crs))")
    case False
    then have "rules_with_index env v = []"
      by (auto simp: rules_with_index_def split: sum.split option.split)
    with False rules show ?thesis
      unfolding run
      by (auto simp: node_safe_def node_report_def apply_join_report apply_single split: sum.split option.split)
  next
    case compiled: True
    then obtain ctx crs where c: "compiled_rules env v = Inr (Some (ctx, crs))" by blast
    have index: "rules_with_index env v = map (\<lambda>icr. (ctx, icr)) (enumerate 0 crs)"
      by (simp add: rules_with_index_def True c)
    have safe: "node_safe env v \<longleftrightarrow> list_all (rule_safe (visit_schema v)) (enumerate 0 crs)"
      by (simp add: node_safe_def index list.pred_map comp_def)
    have report: "node_report env v =
        join_report (inspect_report env v) (join_reports (map (rule_report env ctx v) (enumerate 0 crs)))"
      using rules by (auto simp: node_report_def c index comp_def)
    have "range_do (rule_step env (visit_schema v) ctx (visit_anc v) (visit_fld v) (visit_loc v)) (enumerate 0 crs) ?vars =
        (if node_safe env v
         then Some (apply_report (join_reports (map (rule_report env ctx v) (enumerate 0 crs))) ?vars) else None)"
      unfolding safe by (rule range_do_reports) (rule rule_step_eq)
    then show ?thesis
      unfolding run c report by (simp add: apply_join_report)
  qed
qed

section \<open>What Validate returns\<close>

definition version_report :: "('str, 'decl) cel_env \<Rightarrow> CRDVersion \<Rightarrow> budget_report" where
  "version_report env v =
     (case (case Schema v of None \<Rightarrow> None | Some val \<Rightarrow> OpenAPIV3Schema val) of
        None \<Rightarrow> no_report
      | Some s \<Rightarrow>
          (case convert_error env s of
             Some err \<Rightarrow> no_report\<lparr>report_errs := [err]\<rparr>
           | None \<Rightarrow> join_reports (map (node_report env) (version_nodes v))))"

definition version_cost :: "budget_report \<Rightarrow> TotalCost" where
  "version_cost r = fold (\<lambda>(p, k) c. ObserveExpressionCost c p k) (report_costs r) zero_cost"

definition total_errs :: "budget_report \<Rightarrow> string list" where
  "total_errs r =
     (if Total (version_cost r) > StaticEstimatedCRDCostLimit
      then [field_Forbidden (NewPath ''^'' []) (getCostErrorMessage ''total CRD cost'' (Total (version_cost r))
              StaticEstimatedCRDCostLimit)]
      else [])"

definition version_safe :: "('str, 'decl) cel_env \<Rightarrow> CRDVersion \<Rightarrow> bool" where
  "version_safe env v \<longleftrightarrow>
     (\<exists>s. version_schema v = Some (Some s) \<and>
        (convert_error env s = None \<longrightarrow> list_all (node_safe env) (version_nodes v)))"

lemma version_safe_code [code]:
  "version_safe env v \<longleftrightarrow>
     (case version_schema v of
        Some (Some s) \<Rightarrow> convert_error env s = None \<longrightarrow> list_all (node_safe env) (version_nodes v)
      | _ \<Rightarrow> False)"
  by (simp add: version_safe_def split: option.split)

definition budget_ok :: "('str, 'decl) cel_env \<Rightarrow> CRD \<Rightarrow> bool" where
  "budget_ok env c \<longleftrightarrow> list_all (version_safe env) (Versions c)"

text \<open>The body of the loop over the versions.\<close>

definition budget_version_step ::
  "('str, 'decl) cel_env \<Rightarrow> CRDVersion \<Rightarrow> budget_vars \<Rightarrow> budget_vars go" where
  "budget_version_step env = (\<lambda>newVersion vars. do {
       openAPISchema \<leftarrow> version_schema newVersion;
       conversion \<leftarrow> Convert env openAPISchema;
       case conversion of
         Inl err \<Rightarrow> Some (add_err err vars)
       | Inr _ \<Rightarrow> do {
           (_, vars) \<leftarrow> walk_schema (budget_pred env) openAPISchema (vars\<lparr>rootTotalCost := zero_cost\<rparr>);
           Some (if Total (rootTotalCost vars) > StaticEstimatedCRDCostLimit
             then add_err (field_Forbidden (NewPath ''^'' []) (getCostErrorMessage ''total CRD cost''
                    (Total (rootTotalCost vars)) StaticEstimatedCRDCostLimit)) vars
             else vars)
         }
     })"

definition messages_of :: "budget_vars \<Rightarrow> string list \<times> string list \<times> string list" where
  "messages_of vars = (budget_errs vars, budget_warnings vars, budget_infos vars)"

lemma budget_version_step_eq:
  "map_option messages_of (budget_version_step env v vars) =
   (if version_safe env v
    then Some (budget_errs vars @ report_errs (version_report env v) @ total_errs (version_report env v),
               budget_warnings vars @ report_warnings (version_report env v),
               budget_infos vars @ report_infos (version_report env v))
    else None)"
proof (cases "\<exists>s. version_schema v = Some (Some s)")
  case False
  then have "budget_version_step env v vars = None"
    by (cases "version_schema v") (auto simp: budget_version_step_def Convert_def)
  moreover from False have "\<not> version_safe env v"
    by (auto simp: version_safe_def)
  ultimately show ?thesis by simp
next
  case True
  then obtain s where s: "version_schema v = Some (Some s)" by blast
  then have nodes: "version_nodes v = node_list (Some s)"
    and schema: "(case Schema v of None \<Rightarrow> None | Some val \<Rightarrow> OpenAPIV3Schema val) = Some s"
    by (auto simp: version_schema_def version_nodes_def split: option.splits)
  show ?thesis
  proof (cases "convert_error env s")
    case (Some err)
    then show ?thesis
      using s schema
      by (auto simp: budget_version_step_def Convert_def version_safe_def version_report_def messages_of_def
          add_err_def no_report_def total_errs_def version_cost_def zero_cost_def)
  next
    case None
    have walk: "walk_schema (budget_pred env) (Some s) (vars\<lparr>rootTotalCost := zero_cost\<rparr>) =
        (if list_all (node_safe env) (version_nodes v)
         then Some (False, apply_report (version_report env v) (vars\<lparr>rootTotalCost := zero_cost\<rparr>)) else None)"
      unfolding walk_schema_visits nodes [symmetric] version_report_def schema option.case None
      by (rule range_until_reports) (rule budget_pred_visit)
    have safe: "version_safe env v \<longleftrightarrow> list_all (node_safe env) (version_nodes v)"
      using s None by (simp add: version_safe_def)
    show ?thesis
      unfolding budget_version_step_def s Convert_def safe
      by (simp add: None walk messages_of_def apply_report_def add_err_def total_errs_def version_cost_def)
  qed
qed

lemma budget_loop:
  "map_option messages_of (range_do (budget_version_step env) vs vars) =
   (if list_all (version_safe env) vs
    then Some (budget_errs vars @ concat (map (\<lambda>v. report_errs (version_report env v) @ total_errs (version_report env v)) vs),
               budget_warnings vars @ concat (map (\<lambda>v. report_warnings (version_report env v)) vs),
               budget_infos vars @ concat (map (\<lambda>v. report_infos (version_report env v)) vs))
    else None)"
proof (induction vs arbitrary: vars)
  case Nil
  then show ?case by (simp add: messages_of_def)
next
  case (Cons v vs)
  note step = budget_version_step_eq [of env v vars]
  show ?case
  proof (cases "budget_version_step env v vars")
    case None
    with step show ?thesis by (simp split: if_splits)
  next
    case (Some vars')
    with step have "version_safe env v"
      and "messages_of vars' = (budget_errs vars @ report_errs (version_report env v) @ total_errs (version_report env v),
               budget_warnings vars @ report_warnings (version_report env v),
               budget_infos vars @ report_infos (version_report env v))"
      by (auto split: if_splits)
    with Some Cons.IH [of vars'] show ?thesis by (simp add: messages_of_def)
  qed
qed

lemma budget_Validate_eq:
  "budget_Validate env c =
     (if budget_ok env c
      then Some (Inr \<lparr> Name = budget_Name, WhyItMatters = budget_WhyItMatters,
        Errors = concat (map (\<lambda>v. report_errs (version_report env v) @ total_errs (version_report env v)) (Versions c)),
        Warnings = concat (map (\<lambda>v. report_warnings (version_report env v)) (Versions c)),
        Infos = concat (map (\<lambda>v. report_infos (version_report env v)) (Versions c)) \<rparr>)
      else None)"
proof -
  let ?vars = "\<lparr> budget_errs = [], budget_warnings = [], budget_infos = [], rootTotalCost = zero_cost \<rparr>"
  have "budget_Validate env c = map_option (\<lambda>(errs, warnings, infos). Inr \<lparr> Name = budget_Name,
      WhyItMatters = budget_WhyItMatters, Errors = errs, Warnings = warnings, Infos = infos \<rparr>)
      (map_option messages_of (range_do (budget_version_step env) (Versions c) ?vars))"
    unfolding budget_Validate_def budget_version_step_def [symmetric]
    by (cases "range_do (budget_version_step env) (Versions c) ?vars") (simp_all add: messages_of_def)
  then show ?thesis
    by (simp add: budget_loop budget_ok_def)
qed

interpretation mustNotExceedCostBudget:
  crd_validator "budget_Validate env" budget_Name budget_WhyItMatters "budget_ok env" for env
  by unfold_locales
    (auto simp: budget_Validate_eq no_messages_def budget_ok_def split: if_splits)


section \<open>Costs\<close>

text \<open>The context of a node: the chain of contexts from the root, if every schema converts.\<close>

lemma extractCELContext_loop_chain:
  "\<forall>s\<in>set schemas. convert_error env s = None \<Longrightarrow>
   extractCELContext_loop env schemas (Some c) = Inr (Some (context_chain c schemas))"
  by (induction schemas arbitrary: c) (simp_all add: ChildPropertyContext_def)

lemma extractCELContext_loop_Inr:
  "extractCELContext_loop env schemas c = Inr r \<Longrightarrow> \<forall>s\<in>set schemas. convert_error env s = None"
  by (induction schemas arbitrary: c) (auto split: option.splits)

lemma extractCELContext_chain:
  assumes "extractCELContext env schemas = Inr (Some ctx)"
  shows "\<exists>s ss. schemas = s # ss \<and> ctx = context_chain (RootCELContext s) ss"
proof (cases schemas)
  case Nil
  with assms show ?thesis by (simp add: extractCELContext_def)
next
  case (Cons s ss)
  from assms have "\<forall>s\<in>set schemas. convert_error env s = None"
    unfolding extractCELContext_def by (rule extractCELContext_loop_Inr)
  with assms Cons show ?thesis
    by (simp add: extractCELContext_def extractCELContext_loop_chain)
qed

lemma extractCELContext_cardinality:
  assumes "extractCELContext env (ancestry @ [s]) = Inr (Some ctx)"
  shows "map_option unat (MaxCardinality ctx) = map_option (\<lambda>n. min n (2 ^ 64 - 1)) (element_product ancestry)"
proof -
  obtain a as where a: "ancestry @ [s] = a # as" and ctx: "ctx = context_chain (RootCELContext a) as"
    using extractCELContext_chain [OF assms] by blast
  have one: "MaxCardinality (RootCELContext a) = Some 1" by (simp add: RootCELContext_def)
  have json: "ancestry \<noteq> [] \<longrightarrow> jsonSchema (RootCELContext a) = hd ancestry"
    using a by (cases ancestry) (simp_all add: RootCELContext_def)
  have rest: "tl (ancestry @ [s]) = as" by (simp only: a list.sel)
  from context_chain_cardinality [OF one json, of s] show ?thesis
    by (simp only: ctx rest unsigned_1 mult_1_left)
qed

lemma rules_with_index_context:
  "(ctx, i, cr) \<in> set (rules_with_index env v) \<Longrightarrow>
   extractCELContext env (visit_anc v @ [visit_schema v]) = Inr (Some ctx)"
proof -
  assume rule: "(ctx, i, cr) \<in> set (rules_with_index env v)"
  have has: "has_rules env v"
  proof (rule ccontr)
    assume "\<not> has_rules env v"
    then have "rules_with_index env v = []" by (simp add: rules_with_index_def)
    with rule show False by simp
  qed
  have "\<exists>crs. compiled_rules env v = Inr (Some (ctx, crs))"
  proof (cases "\<exists>c crs. compiled_rules env v = Inr (Some (c, crs))")
    case True
    then obtain c crs where c: "compiled_rules env v = Inr (Some (c, crs))" by blast
    have "\<forall>x\<in>set (rules_with_index env v). fst x = c"
      by (simp add: rules_with_index_def has c)
    with rule c show ?thesis by fastforce
  next
    case False
    then have "rules_with_index env v = []"
      by (simp add: rules_with_index_def split: sum.split option.split)
    with rule show ?thesis by simp
  qed
  then obtain crs where c: "compiled_rules env v = Inr (Some (ctx, crs))" ..
  show ?thesis
  proof (cases "extractCELContext env (visit_anc v @ [visit_schema v])")
    case (Inr r)
    with c show ?thesis
      by (cases r; cases "TypeInfo env (the r)"; cases "cel_Compile env (the (projr (TypeInfo env (the r))))")
        (auto simp: compiled_rules_def split: option.splits)
  qed (use c in \<open>simp add: compiled_rules_def\<close>)
qed

text \<open>The estimated executions of a rule: the product of the ancestors' limits, or CEL's own bound.\<close>

definition executions :: "visit \<Rightarrow> CompilationResult \<Rightarrow> nat" where
  "executions v cr =
     (case element_product (visit_anc v) of Some n \<Rightarrow> n | None \<Rightarrow> unat (cr_MaxCardinality cr))"

lemma min_mult_min: "min (a * min n M) M = min (a * n) (M :: nat)"
proof (cases "a = 0 \<or> n \<le> M")
  case True
  then show ?thesis by (auto simp: min_def)
next
  case False
  then have "1 * M \<le> a * M" and "1 * M \<le> a * n"
    by (intro mult_le_mono; simp)+
  then have "M \<le> a * M" and "M \<le> a * n" by simp_all
  then have "min (a * M) M = M" and "min (a * n) M = M" by (simp_all only: min_absorb2)
  moreover from False have "min n M = M" by simp
  ultimately show ?thesis by (simp only:)
qed

lemma rule_cost:
  assumes "(ctx, i, cr) \<in> set (rules_with_index env v)"
  shows "unat (getExpressionCost cr ctx) = min (unat (cr_MaxCost cr) * executions v cr) (2 ^ 64 - 1)"
proof -
  note cardinality = extractCELContext_cardinality [OF rules_with_index_context [OF assms]]
  show ?thesis
  proof (cases "element_product (visit_anc v)")
    case None
    with cardinality have "MaxCardinality ctx = None" by simp
    with None show ?thesis
      by (simp add: getExpressionCost_def multiplyWithOverflowGuard_eq executions_def)
  next
    case (Some n)
    with cardinality obtain c where c: "MaxCardinality ctx = Some c" "unat c = min n (2 ^ 64 - 1)" by auto
    have "unat (getExpressionCost cr ctx) = min (unat (cr_MaxCost cr) * min n (2 ^ 64 - 1)) (2 ^ 64 - 1)"
      by (simp only: getExpressionCost_def c option.case multiplyWithOverflowGuard_eq)
    also have "\<dots> = min (unat (cr_MaxCost cr) * n) (2 ^ 64 - 1)"
      by (rule min_mult_min)
    finally show ?thesis by (simp only: executions_def Some option.case)
  qed
qed

lemma report_costs_simps [simp]:
  "report_costs (join_report a b) = report_costs a @ report_costs b"
  "report_costs no_report = []"
  by (simp_all add: join_report_def no_report_def)

lemma report_costs_rule [simp]:
  "report_costs (rule_report env ctx v (i, cr)) = [(visit_fld v, getExpressionCost cr ctx)]"
  by (simp add: rule_report_def Let_def cardinality_report_def split: option.split)

lemma report_costs_node:
  "report_costs (node_report env v) =
   map (\<lambda>(ctx, i, cr). (visit_fld v, getExpressionCost cr ctx)) (rules_with_index env v)"
proof -
  have inspect: "report_costs (inspect_report env v) = []"
    by (simp add: inspect_report_def split: sum.split prod.split)
  have rules: "concat (map report_costs (map (\<lambda>(ctx, icr). rule_report env ctx v icr) xs)) =
      map (\<lambda>(ctx, i, cr). (visit_fld v, getExpressionCost cr ctx)) xs" for xs
    by (induction xs) auto
  show ?thesis
    by (auto simp: node_report_def inspect rules join_reports_sel rules_with_index_def has_rules_def
        split: option.splits sum.splits simp del: map_map)
qed

text \<open>The true total of a version, as a natural number.\<close>

definition node_costs :: "('str, 'decl) cel_env \<Rightarrow> visit \<Rightarrow> nat list" where
  "node_costs env v =
     map (\<lambda>(ctx, i, cr). min (unat (cr_MaxCost cr) * executions v cr) (2 ^ 64 - 1)) (rules_with_index env v)"

definition total_cost :: "('str, 'decl) cel_env \<Rightarrow> CRDVersion \<Rightarrow> nat" where
  "total_cost env v = sum_list (concat (map (node_costs env) (version_nodes v)))"

lemma sum_report_costs:
  "(\<Sum>(p, k)\<leftarrow>report_costs (node_report env v). unat k) = sum_list (node_costs env v)"
proof -
  have "map (\<lambda>(p, k). unat k) (report_costs (node_report env v)) = node_costs env v"
    by (auto simp: report_costs_node node_costs_def rule_cost)
  then show ?thesis by simp
qed

lemma version_cost_total:
  assumes "version_schema v = Some (Some s)" and "convert_error env s = None"
  shows "unat (Total (version_cost (version_report env v))) = min (total_cost env v) (2 ^ 64 - 1)"
proof -
  have report: "version_report env v = join_reports (map (node_report env) (version_nodes v))"
    using assms by (auto simp: version_report_def version_schema_def split: option.splits)
  have "(\<Sum>(p, k)\<leftarrow>concat (map report_costs (map (node_report env) vs)). unat k) =
      sum_list (concat (map (node_costs env) vs))" for vs
    by (induction vs) (simp_all add: sum_report_costs del: map_map)
  then show ?thesis
    unfolding version_cost_def observed_Total report join_reports_sel total_cost_def by (simp add: zero_cost_def)
qed

lemma total_errs_iff:
  assumes "version_schema v = Some (Some s)" and "convert_error env s = None"
  shows "total_errs (version_report env v) \<noteq> [] \<longleftrightarrow> 100000000 < total_cost env v"
proof -
  have limit: "unat StaticEstimatedCRDCostLimit = 100000000"
    by (simp add: StaticEstimatedCRDCostLimit_def)
  have "Total (version_cost (version_report env v)) > StaticEstimatedCRDCostLimit \<longleftrightarrow>
      100000000 < min (total_cost env v) (2 ^ 64 - 1)"
    by (simp only: word_less_nat_alt version_cost_total [OF assms] limit)
  then show ?thesis by (simp add: total_errs_def)
qed

lemma over_limit_errs_iff: "over_limit_errs fld what cost \<noteq> [] \<longleftrightarrow> 10000000 < unat cost"
  by (simp add: over_limit_errs_def StaticEstimatedCostLimit_def word_less_nat_alt)

section \<open>The names of unbounded parents\<close>

lemma length_split_at: "length (split_at sep s) = Suc (count_list s sep)"
  by (induction s) (auto split: list.split)

text \<open>The parts of a path are aligned with the ancestors of its node.\<close>

definition parts_aligned :: "JSONSchemaProps list \<Rightarrow> Path \<Rightarrow> bool" where
  "parts_aligned ancestry fld \<longleftrightarrow> count_list (path_String fld) (CHR ''.'') = length ancestry"

lemma getUnboundedParentFields_aligned_iff:
  "(\<exists>ps. getUnboundedParentFields env ancestry fld = Inr ps) \<longleftrightarrow> parts_aligned ancestry fld"
  "getUnboundedParentFields env ancestry fld = Inl err \<longleftrightarrow>
   \<not> parts_aligned ancestry fld \<and> err = ''ancestry and field path do not match''"
  by (auto simp: getUnboundedParentFields_def getCleanPathParts_def length_split_at parts_aligned_def Let_def)

lemma parts_aligned_root: "parts_aligned [] (NewPath ''^'' [])"
  by (simp add: parts_aligned_def path_string)

lemma parts_aligned_properties:
  "CHR ''.'' \<notin> set k \<Longrightarrow> parts_aligned ancestry fld \<Longrightarrow>
   parts_aligned (ancestry @ [s]) (Key (Child fld ''properties'' []) k)"
  by (simp add: parts_aligned_def path_string)

lemma parts_aligned_items:
  "parts_aligned ancestry fld \<Longrightarrow> parts_aligned (ancestry @ [s]) (Child fld ''items'' [])"
  by (simp add: parts_aligned_def path_string)

lemma parts_misaligned_additionalProperties:
  "parts_aligned ancestry fld \<Longrightarrow>
   \<not> parts_aligned (ancestry @ [s]) (Child fld ''additionalProperties'' [''schema''])"
  by (simp add: parts_aligned_def path_string)

section \<open>Properties\<close>

text \<open>
  C12. The cost of a rule is its raw cost times the number of its executions, cut off at the largest
  \<open>uint64\<close>. The executions are the product of the limits of all ancestors of its node, or, when one
  of them has no limit, the bound that the compiler gives.
\<close>

theorem rule_cost_is_product:
  assumes "(celContext, i, cr) \<in> set (rules_with_index env v)"
  shows "unat (getExpressionCost cr celContext) =
    min (unat (cr_MaxCost cr) *
         (case element_product (visit_anc v) of Some n \<Rightarrow> n | None \<Rightarrow> unat (cr_MaxCardinality cr)))
      (2 ^ 64 - 1)"
  using rule_cost [OF assms] by (simp only: executions_def)

text \<open>An environment in which every rule compiles to the same cost and message cost.\<close>

definition flat_result :: "uint64 \<Rightarrow> uint64 \<Rightarrow> CompilationResult" where
  "flat_result cost message_cost = \<lparr> cr_Error = None, cr_MaxCost = cost, cr_MaxCardinality = 1000,
     cr_hasMessageExpression = True, cr_MessageExpressionError = None, cr_MessageExpressionMaxCost = message_cost \<rparr>"

definition flat_env :: "uint64 \<Rightarrow> uint64 \<Rightarrow> (JSONSchemaProps, unit) cel_env" where
  "flat_env cost message_cost = \<lparr> convert_error = \<lambda>_. None, NewStructural = Inr, SchemaDeclType = \<lambda>_ _. Some (),
     MaxElements = \<lambda>_. 100, accessProperty = \<lambda>_ _. None,
     cel_Compile = \<lambda>(s, _). Inr (map (\<lambda>_. flat_result cost message_cost) (rules_of s)), rule_JSON = Rule \<rparr>"

text \<open>A list of at most 50 strings with one rule each.\<close>

definition one_rule :: ValidationRule where
  "one_rule = \<lparr> Rule = ''self.size() > 0'', Message = [], MessageExpression = [], Reason = None, FieldPath = [],
     OptionalOldSelf = None \<rparr>"

definition ruled_string :: JSONSchemaProps where
  "ruled_string = leaf_schema ((typed ''string'')\<lparr>XValidations := Some [one_rule]\<rparr>)"

definition ruled_widgets :: "int64 option \<Rightarrow> CRD" where
  "ruled_widgets limit = widgets (widget_object [(''tags'', array_schema (zero_attrs\<lparr>MaxItems := limit\<rparr>) ruled_string)])"

definition ruled_ancestors :: "int64 option \<Rightarrow> JSONSchemaProps list" where
  "ruled_ancestors limit =
     (let tags = array_schema (zero_attrs\<lparr>MaxItems := limit\<rparr>) ruled_string in [widget_object [(''tags'', tags)], tags])"

definition ruled_node :: "int64 option \<Rightarrow> visit" where
  "ruled_node limit = \<lparr> visit_schema = ruled_string,
     visit_fld = Child (Key (Child (NewPath ''^'' []) ''properties'' []) ''tags'') ''items'' [],
     visit_loc = Key (Child (NewPath ''^'' []) ''tags'' []) ''*'', visit_anc = ruled_ancestors limit \<rparr>"

lemma ruled_rules:
  "\<exists>ctx. rules_with_index (flat_env cost message_cost) (ruled_node limit) = [(ctx, 0, flat_result cost message_cost)]"
  by (simp add: rules_with_index_def has_rules_def compiled_rules_def extractCELContext_def ruled_node_def
      ruled_ancestors_def ruled_string_def flat_env_def ChildPropertyContext_def childContext_def RootCELContext_def
      converted_def defaultConverter_def rules_of_def example_schemas zero_attrs_def enumerate_eq_zip Let_def)

lemma ruled_product:
  "element_product (ruled_ancestors (Some 50)) = Some 50" "element_product (ruled_ancestors None) = None"
  by (simp_all add: ruled_ancestors_def extractMaxElements_def zeroIfNegative_def example_schemas zero_attrs_def Let_def)

theorem rule_cost_is_product_witness:
  "\<exists>celContext. (celContext, 0, flat_result 7 0) \<in> set (rules_with_index (flat_env 7 0) (ruled_node (Some 50))) \<and>
     unat (getExpressionCost (flat_result 7 0) celContext) = 350"
proof -
  obtain ctx where "(ctx, 0, flat_result 7 0) \<in> set (rules_with_index (flat_env 7 0) (ruled_node (Some 50)))"
    using ruled_rules [of 7 0 "Some 50"] by (metis list.set_intros(1))
  moreover from rule_cost_is_product [OF this] have "unat (getExpressionCost (flat_result 7 0) ctx) = 350"
    by (simp add: ruled_node_def ruled_product flat_result_def)
  ultimately show ?thesis by blast
qed

lemma ruled_nodes:
  "version_nodes (widget_version (widget_object [(''tags'', array_schema (zero_attrs\<lparr>MaxItems := limit\<rparr>) ruled_string)])) =
     [\<lparr> visit_schema = hd (ruled_ancestors limit), visit_fld = NewPath ''^'' [], visit_loc = NewPath ''^'' [], visit_anc = [] \<rparr>,
      \<lparr> visit_schema = last (ruled_ancestors limit), visit_fld = Key (Child (NewPath ''^'' []) ''properties'' []) ''tags'',
        visit_loc = Child (NewPath ''^'' []) ''tags'' [], visit_anc = [hd (ruled_ancestors limit)] \<rparr>,
      ruled_node limit]"
  by (simp add: version_nodes_def widget_version_def node_list_def visit_evals ruled_node_def
      ruled_ancestors_def ruled_string_def Let_def widget_object_def object_schema_def array_schema_def leaf_schema_def)

lemma sum_list_concat_map: "sum_list (concat (map f xs)) = (\<Sum>x\<leftarrow>xs. sum_list (f x :: nat list))"
  by (induction xs) auto

text \<open>The sum of the costs of the rules of a version, rule by rule.\<close>

lemma total_cost_sum:
  "total_cost env v = (\<Sum>n\<leftarrow>version_nodes v. \<Sum>(celContext, i, cr)\<leftarrow>rules_with_index env n.
     min (unat (cr_MaxCost cr) * executions n cr) (2 ^ 64 - 1))"
proof -
  have "total_cost env v = (\<Sum>n\<leftarrow>version_nodes v. sum_list (node_costs env n))"
    unfolding total_cost_def by (rule sum_list_concat_map)
  then show ?thesis by (simp add: node_costs_def)
qed

lemma total_errs_sum:
  assumes "version_schema v = Some (Some s)" and "convert_error env s = None"
  shows "total_errs (version_report env v) =
    (if 100000000 < total_cost env v
     then [field_Forbidden (NewPath ''^'' []) (getCostErrorMessage ''total CRD cost''
             (of_nat (min (total_cost env v) (2 ^ 64 - 1))) StaticEstimatedCRDCostLimit)] else [])"
proof -
  have "Total (version_cost (version_report env v)) = of_nat (unat (Total (version_cost (version_report env v))))"
    by simp
  also have "\<dots> = of_nat (min (total_cost env v) (2 ^ 64 - 1))"
    by (simp only: version_cost_total [OF assms])
  finally have "Total (version_cost (version_report env v)) = of_nat (min (total_cost env v) (2 ^ 64 - 1))" .
  then show ?thesis
    using total_errs_iff [OF assms] unfolding total_errs_def by (simp split: if_splits)
qed

lemma report_errs_version:
  "version_schema v = Some (Some s) \<Longrightarrow> report_errs (version_report env v) =
   (case convert_error env s of
      Some err \<Rightarrow> [err] | None \<Rightarrow> concat (map (\<lambda>n. report_errs (node_report env n)) (version_nodes v)))"
  by (auto simp: version_report_def version_schema_def join_reports_sel comp_def split: option.splits)

text \<open>
  C13. What \<open>Validate\<close> reports about the total. Its errors are, version by version, the message of a
  failed conversion, or the errors of the nodes and then the error about the total CRD cost, exactly
  when the costs of all rules of the version, each its raw cost times its executions, add up to more
  than 100000000. The error names the sum, cut off at the largest \<open>uint64\<close>, also when the sum does
  not fit one.
\<close>

theorem total_cost_error_iff:
  assumes "budget_Validate env crd = Some (Inr results)"
  shows "Errors results = concat (map (\<lambda>v.
    case version_schema v of
      Some (Some s) \<Rightarrow>
        (case convert_error env s of
           Some err \<Rightarrow> [err]
         | None \<Rightarrow> concat (map (\<lambda>n. report_errs (node_report env n)) (version_nodes v)) @
             (let cost = \<Sum>n\<leftarrow>version_nodes v. \<Sum>(celContext, i, cr)\<leftarrow>rules_with_index env n.
                    min (unat (cr_MaxCost cr) * executions n cr) (2 ^ 64 - 1)
              in if 100000000 < cost
                 then [field_Forbidden (NewPath ''^'' []) (getCostErrorMessage ''total CRD cost''
                         (of_nat (min cost (2 ^ 64 - 1))) StaticEstimatedCRDCostLimit)] else []))
    | _ \<Rightarrow> []) (Versions crd))"
proof -
  have safe: "\<exists>s. version_schema v = Some (Some s)" if "v \<in> set (Versions crd)" for v
    using assms that by (auto simp: budget_Validate_eq budget_ok_def list_all_iff version_safe_def split: if_splits)
  have "total_errs (version_report env v) = []" if "version_schema v = Some (Some s)" "convert_error env s = Some err" for v s err
    using that by (auto simp: version_report_def version_schema_def total_errs_def version_cost_def zero_cost_def
        StaticEstimatedCRDCostLimit_def split: option.splits)
  then have version: "report_errs (version_report env v) @ total_errs (version_report env v) =
      (case version_schema v of
         Some (Some s) \<Rightarrow>
           (case convert_error env s of
              Some err \<Rightarrow> [err]
            | None \<Rightarrow> concat (map (\<lambda>n. report_errs (node_report env n)) (version_nodes v)) @
                (let cost = total_cost env v
                 in if 100000000 < cost
                    then [field_Forbidden (NewPath ''^'' []) (getCostErrorMessage ''total CRD cost''
                            (of_nat (min cost (2 ^ 64 - 1))) StaticEstimatedCRDCostLimit)] else []))
       | _ \<Rightarrow> [])" if "v \<in> set (Versions crd)" for v
    using safe [OF that] by (auto simp: report_errs_version total_errs_sum Let_def split: option.split)
  have "Errors results = concat (map (\<lambda>v. report_errs (version_report env v) @ total_errs (version_report env v)) (Versions crd))"
    using assms by (auto simp: budget_Validate_eq split: if_splits)
  also note arg_cong [where f = concat, OF map_cong [OF refl version]]
  finally show ?thesis unfolding total_cost_sum by simp
qed

lemma no_rules_with_index: "XValidations (attrs (visit_schema n)) = None \<Longrightarrow> rules_with_index env n = []"
  by (simp add: rules_with_index_def has_rules_def)

text \<open>At 3000000 a call, at most 50 tags cost 150000000.\<close>

lemma ruled_version:
  "Versions (ruled_widgets limit) =
     [widget_version (widget_object [(''tags'', array_schema (zero_attrs\<lparr>MaxItems := limit\<rparr>) ruled_string)])]"
  by (simp add: ruled_widgets_def widgets_def)

lemma ruled_Validate: "\<exists>r. budget_Validate (flat_env cost message_cost) (ruled_widgets limit) = Some (Inr r)"
proof -
  have flat: "cr = flat_result cost message_cost"
    if "compiled_rules (flat_env cost message_cost) n = Inr (Some (ctx, crs))" "cr \<in> set crs" for n ctx crs cr
    using that by (auto simp: compiled_rules_def flat_env_def split: sum.splits option.splits prod.splits)
  have "node_safe (flat_env cost message_cost) n" for n
  proof (cases "\<exists>ctx crs. compiled_rules (flat_env cost message_cost) n = Inr (Some (ctx, crs))")
    case False
    then have "rules_with_index (flat_env cost message_cost) n = []"
      by (simp add: rules_with_index_def split: sum.split option.split)
    then show ?thesis by (simp add: node_safe_def)
  next
    case True
    then obtain ctx crs where c: "compiled_rules (flat_env cost message_cost) n = Inr (Some (ctx, crs))" by blast
    have "rule_safe (visit_schema n) (i, cr)" if "(i, cr) \<in> set (enumerate 0 crs)" for i cr
    proof -
      from that have "cr \<in> set crs" by (auto simp: in_set_enumerate_eq)
      from flat [OF c this] show ?thesis by (simp add: rule_safe_def flat_result_def)
    qed
    then have "list_all (rule_safe (visit_schema n)) (enumerate 0 crs)" by (auto simp: list_all_iff)
    then show ?thesis by (simp add: node_safe_def rules_with_index_def c list.pred_map comp_def)
  qed
  then have "budget_ok (flat_env cost message_cost) (ruled_widgets limit)"
    by (simp add: budget_ok_def ruled_version version_safe_def list_all_iff)
  then show ?thesis by (simp add: budget_Validate_eq)
qed

theorem total_cost_error_iff_witness:
  "\<exists>r. budget_Validate (flat_env 3000000 0) (ruled_widgets (Some 50)) = Some (Inr r) \<and>
     field_Forbidden (NewPath ''^'' []) (getCostErrorMessage ''total CRD cost'' 150000000 StaticEstimatedCRDCostLimit)
       \<in> set (Errors r)"
proof -
  let ?s = "widget_object [(''tags'', array_schema (zero_attrs\<lparr>MaxItems := Some 50\<rparr>) ruled_string)]"
  let ?v = "widget_version ?s" and ?env = "flat_env 3000000 0"
  obtain r where r: "budget_Validate ?env (ruled_widgets (Some 50)) = Some (Inr r)"
    using ruled_Validate by blast
  obtain ctx where rules: "rules_with_index ?env (ruled_node (Some 50)) = [(ctx, 0, flat_result 3000000 0)]"
    using ruled_rules by blast
  have "min (unat (cr_MaxCost (flat_result 3000000 0)) * executions (ruled_node (Some 50)) (flat_result 3000000 0))
      (2 ^ 64 - 1) = 150000000"
    by (simp add: executions_def ruled_node_def ruled_product flat_result_def)
  then have "(\<Sum>n\<leftarrow>version_nodes ?v. \<Sum>(celContext, i, cr)\<leftarrow>rules_with_index ?env n.
      min (unat (cr_MaxCost cr) * executions n cr) (2 ^ 64 - 1)) = 150000000"
    unfolding ruled_nodes
    by (simp add: rules no_rules_with_index ruled_ancestors_def widget_object_def object_schema_def
        array_schema_def zero_attrs_def Let_def)
  moreover have "convert_error ?env ?s = None" by (simp add: flat_env_def)
  ultimately show ?thesis
    using r total_cost_error_iff [OF r] by (simp add: ruled_version Let_def)
qed














text \<open>
  C35. The factor in the message about a cost over one of the two limits: it says \<open>more than 100x\<close>
  exactly when the cost is more than 100 times the limit, has six decimals exactly when it is
  less than 1.5 times the limit, and else one; the rounding of \<open>float64\<close> never moves a cost over
  a threshold, and the number printed is the quotient up to a relative error of \<open>2 ^ - 51\<close>.
\<close>

theorem cost_message_factor:
  assumes "limit \<in> {StaticEstimatedCostLimit, StaticEstimatedCRDCostLimit}" and "limit < cost"
  shows "\<exists>q. getCostErrorMessage costName cost limit = costName @ '' exceeds budget by factor of '' @
      (if 100 * unat limit < unat cost then ''more than 100x''
       else fmt_fixed (if 2 * unat cost < 3 * unat limit then 6 else 1) q @ ''x'') @
      '' (try simplifying the rule(s), or adding maxItems, maxProperties, and maxLength where arrays, maps, and strings are declared)'' \<and>
    \<bar>float_value q - real (unat cost) / real (unat limit)\<bar> \<le> real (unat cost) / real (unat limit) / 2 ^ 51"
proof -
  have limit: "0 < unat limit" "unat limit \<le> 2 ^ 46" "unat limit < 2 ^ 53"
    using assms(1) by (auto simp: StaticEstimatedCostLimit_def StaticEstimatedCRDCostLimit_def)
  then have cost: "0 < unat cost" using assms(2) by (simp add: word_less_nat_alt)
  show ?thesis
    using quotient_over_100 [OF cost limit(1,2)] quotient_below_1_5 [OF cost limit(1,2)] quotient_error [OF cost limit(1,3)]
    by (intro exI [of _ "float_div (float_of_uint64 cost) (float_of_uint64 limit)"])
      (simp add: getCostErrorMessage_def Let_def float_of_uint64_def)
qed

theorem cost_message_factor_witness:
  "\<exists>q. getCostErrorMessage ''estimated rule cost'' 10000001 StaticEstimatedCostLimit =
      ''estimated rule cost'' @ '' exceeds budget by factor of '' @ (fmt_fixed 6 q @ ''x'') @
      '' (try simplifying the rule(s), or adding maxItems, maxProperties, and maxLength where arrays, maps, and strings are declared)''"
  using cost_message_factor [of StaticEstimatedCostLimit 10000001 "''estimated rule cost''"]
  by (auto simp: StaticEstimatedCostLimit_def)

text \<open>
  Three details of the texts: a cost one over the limit exceeds it by a factor printed as one, the
  percentage of a cost beyond \<open>2 ^ 64 / 100\<close> is that of a wrapped product, and the placeholder of
  an index is also replaced inside the name of a property.
\<close>

lemma factor_printed_as_one:
  "fmt_fixed 6 (float_div (float_of_uint64 10000001) (float_of_uint64 StaticEstimatedCostLimit)) = ''1.000000''"
  unfolding float_of_uint64_def StaticEstimatedCostLimit_def
  by (simp, subst fmt_fixed_quotient [where k = 1000000, simplified])
    (simp_all add: nat_digits.simps digit_char_def Let_def, simp add: eval_nat_numeral)

lemma percentage_wraps: "budget_percentage 184467440737095517 = ''0.00%''"
  unfolding budget_percentage_def float_of_uint64_def StaticEstimatedCostLimit_def
  by (simp, subst fmt_fixed_quotient [where k = 0, simplified])
    (simp_all add: nat_digits.simps digit_char_def Let_def)

lemma property_name_changed:
  "getUnboundedParentFields (flat_env 1 0) [widget_object [], list_field None string_field]
     (Child (Key (Child (NewPath ''^'' []) ''properties'' []) ''a-1'') ''items'' []) = Inr [''^.a*'']"
  by code_simp

text \<open>
  Unbounded parents are not found below a map. The path to the values of a map has one part
  more than there are ancestors, so for every rule there the search fails with an error message,
  which \<open>Validate\<close> adds to the errors, when the path to the map itself was in step.
\<close>

theorem unbounded_map_not_named:
  assumes "parts_aligned ancestry fld"
  shows "getUnboundedParentFields env (ancestry @ [s]) (Child fld ''additionalProperties'' [''schema'']) =
    Inl ''ancestry and field path do not match''"
  using parts_misaligned_additionalProperties [OF assms] by (simp add: getUnboundedParentFields_aligned_iff)

end
