(* ===== verification/Default_Comparators.thy ===== *)
theory Default_Comparators
  imports Registry Simple_Validators Conditions_Validator Removal_Comparators New_Required_Fields Cost_Budget
begin

text \<open>
  \<open>pkg/defaultcomparators/interfaces.go\<close>: the registry with the twelve comparators of the program.
  Every one of them satisfies \<open>crd_comparator\<close>; here the contracts are put together into the one
  that a comparison with the whole registry rests on.
\<close>

text \<open>\<open>must(ret.AddComparator(c))\<close>: a panic when the name is taken.\<close>

definition must_add :: "crdComparatorRegistry \<Rightarrow> CRDComparator \<Rightarrow> crdComparatorRegistry go" where
  "must_add r c = (case AddComparator r c of (Some err, _) \<Rightarrow> None | (None, r') \<Rightarrow> Some r')"

definition NewDefaultComparators :: "('str, 'decl) cel_env \<Rightarrow> crdComparatorRegistry go" where
  "NewDefaultComparators env = do {
     let ret = NewRegistry;
     ret \<leftarrow> must_add ret NoBools;
     ret \<leftarrow> must_add ret NoFloats;
     ret \<leftarrow> must_add ret NoUints;
     ret \<leftarrow> must_add ret NoFieldRemoval;
     ret \<leftarrow> must_add ret NoEnumRemoval;
     ret \<leftarrow> must_add ret NoMaps;
     ret \<leftarrow> must_add ret NoDataTypeChange;
     ret \<leftarrow> must_add ret MustHaveStatus;
     ret \<leftarrow> must_add ret ListsMustHaveSSATags;
     ret \<leftarrow> must_add ret ConditionsMustHaveProperSSATags;
     ret \<leftarrow> must_add ret NoNewRequiredFields;
     ret \<leftarrow> must_add ret (MustNotExceedCostBudget env);
     Some ret
   }"

definition default_comparators :: "('str, 'decl) cel_env \<Rightarrow> CRDComparator list" where
  "default_comparators env =
     [NoBools, NoFloats, NoUints, NoFieldRemoval, NoEnumRemoval, NoMaps, NoDataTypeChange, MustHaveStatus,
      ListsMustHaveSSATags, ConditionsMustHaveProperSSATags, NoNewRequiredFields, MustNotExceedCostBudget env]"

definition default_names :: "string list" where
  "default_names =
     [''NoBools'', ''NoFloats'', ''NoUints'', ''NoFieldRemoval'', ''NoEnumRemoval'', ''NoMaps'', ''NoDataTypeChange'',
      ''MustHaveStatus'', ''ListsMustHaveSSATags'', ''ConditionsMustHaveProperSSATags'', ''NoNewRequiredFields'',
      ''MustNotExceedCostBudget'']"

lemmas comparator_records = NoBools_def NoFloats_def NoUints_def NoFieldRemoval_def NoEnumRemoval_def NoMaps_def
  NoDataTypeChange_def MustHaveStatus_def ListsMustHaveSSATags_def ConditionsMustHaveProperSSATags_def
  NoNewRequiredFields_def MustNotExceedCostBudget_def

lemmas comparator_names = noBools_Name_def noFloats_Name_def noUints_Name_def noFieldRemoval_Name_def
  noEnumRemoval_Name_def noMaps_Name_def noDataTypeChange_Name_def mustHaveStatus_Name_def
  listsMustHaveSSATags_Name_def conditions_Name_def noNewRequiredFields_Name_def budget_Name_def

lemma default_comparators_names: "map comparator_Name (default_comparators env) = default_names"
  by (simp add: default_comparators_def default_names_def comparator_records comparator_names)

lemma default_names_distinct: "distinct default_names"
  by (simp add: default_names_def)

lemma add_all_must_add:
  "registry.add_all r (c # cs) = do { r' \<leftarrow> must_add r c; registry.add_all r' cs }"
  by (simp add: must_add_def split: prod.split option.split)

lemma NewDefaultComparators_add_all: "NewDefaultComparators env = registry.add_all NewRegistry (default_comparators env)"
  unfolding NewDefaultComparators_def default_comparators_def add_all_must_add registry.add_all.simps(1) Let_def ..

lemma NewDefaultComparators_registry:
  "\<exists>r. NewDefaultComparators env = Some r \<and> registry_ok r \<and> KnownComparators r = sort default_names \<and>
     (\<forall>c\<in>set (default_comparators env). GetComparator r (comparator_Name c) = Inr c) \<and>
     set (map snd (comparators r)) = set (default_comparators env)"
proof -
  have distinct_names: "distinct (map comparator_Name (default_comparators env))"
    by (simp add: default_comparators_names default_names_distinct)
  obtain r where r: "NewDefaultComparators env = Some r" "registry_ok r"
    "set (KnownComparators r) = set default_names"
    "\<forall>c\<in>set (default_comparators env). GetComparator r (comparator_Name c) = Inr c"
    using registry.add_all_distinct [OF registry.new_valid distinct_names]
    by (auto simp: NewDefaultComparators_add_all registry.new_unknown default_comparators_names
        simp del: set_KnownComparators simp flip: set_map)
  have "KnownComparators r = sort (map comparator_Name (default_comparators env))"
    by (rule registry.known_all [OF registry.new_valid distinct_names registry.new_unknown])
      (use r(1) in \<open>simp add: NewDefaultComparators_add_all\<close>)
  moreover have "set (map snd (comparators r)) = set (default_comparators env)"
  proof -
    have "c \<in> set (default_comparators env)" if "(name, c) \<in> set (comparators r)" for name c
    proof -
      from that r(3) have "name \<in> set default_names" by force
      then have "name \<in> set (map comparator_Name (default_comparators env))"
        by (simp only: default_comparators_names)
      then obtain d where d: "d \<in> set (default_comparators env)" "comparator_Name d = name" by auto
      with r(4) have "map_of (comparators r) name = Some d" by (auto simp: GetComparator_Inr_iff)
      moreover from that r(2) have "map_of (comparators r) name = Some c" by (simp add: registry_ok_def)
      ultimately show ?thesis using d by simp
    qed
    moreover have "c \<in> snd ` set (comparators r)" if "c \<in> set (default_comparators env)" for c
      using r(4) that by (force simp: GetComparator_Inr_iff dest: map_of_SomeD)
    ultimately show ?thesis by auto
  qed
  ultimately show ?thesis using r by (auto simp: default_comparators_names simp del: set_KnownComparators)
qed

section \<open>The contract of all comparators\<close>

text \<open>A CRD on which no comparator panics.\<close>

definition comparable :: "('str, 'decl) cel_env \<Rightarrow> CRD \<Rightarrow> bool" where
  "comparable env c \<longleftrightarrow> crd_ok c \<and> conditions_ok c \<and> budget_ok env c"

lemma comparable_status: "crd_ok c \<Longrightarrow> status_ok c"
  by (auto simp: crd_ok_def status_ok_def list_all_iff)

lemma keeps_contractI:
  assumes "crd_comparator compare_crds cname why ok settled"
    and "c = \<lparr> comparator_Name = cname, comparator_Why = why, Compare = compare_crds \<rparr>"
    and "pred_option ok existing" and "ok new"
  shows "keeps_contract existing new c"
  using crd_comparator.compare_returns [OF assms(1,3,4)] crd_comparator.compare_named [OF assms(1)]
  by (auto simp: keeps_contract_def assms(2))

lemma pred_option_mono': "pred_option p x \<Longrightarrow> (\<And>c. p c \<Longrightarrow> q c) \<Longrightarrow> pred_option q x"
  by (cases x) auto

lemmas validator_compares = noBools_Compare_def noFloats_Compare_def noUints_Compare_def noMaps_Compare_def
  listsMustHaveSSATags_Compare_def mustHaveStatus_Compare_def conditions_Compare_def budget_Compare_def

lemma default_comparators_contract:
  assumes "pred_option (comparable env) existing" and "comparable env new"
    and "c \<in> set (default_comparators env)"
  shows "keeps_contract existing new c"
proof -
  have ok: "pred_option crd_ok existing" "crd_ok new" "pred_option conditions_ok existing" "conditions_ok new"
    "pred_option (budget_ok env) existing" "budget_ok env new" "pred_option status_ok existing" "status_ok new"
    using assms(1,2) comparable_status by (auto simp: comparable_def elim: pred_option_mono')
  have "keeps_contract existing new NoBools"
    by (rule keeps_contractI [OF noBools.ratchet.crd_comparator_axioms _ ok(1,2)])
      (simp add: NoBools_def fun_eq_iff noBools_Compare_def)
  moreover have "keeps_contract existing new NoFloats"
    by (rule keeps_contractI [OF noFloats.ratchet.crd_comparator_axioms _ ok(1,2)])
      (simp add: NoFloats_def fun_eq_iff noFloats_Compare_def)
  moreover have "keeps_contract existing new NoUints"
    by (rule keeps_contractI [OF noUints.ratchet.crd_comparator_axioms _ ok(1,2)])
      (simp add: NoUints_def fun_eq_iff noUints_Compare_def)
  moreover have "keeps_contract existing new NoMaps"
    by (rule keeps_contractI [OF noMaps.ratchet.crd_comparator_axioms _ ok(1,2)])
      (simp add: NoMaps_def fun_eq_iff noMaps_Compare_def)
  moreover have "keeps_contract existing new ListsMustHaveSSATags"
    by (rule keeps_contractI [OF listsMustHaveSSATags.ratchet.crd_comparator_axioms _ ok(1,2)])
      (simp add: ListsMustHaveSSATags_def fun_eq_iff listsMustHaveSSATags_Compare_def)
  moreover have "keeps_contract existing new MustHaveStatus"
    by (rule keeps_contractI [OF mustHaveStatus.ratchet.crd_comparator_axioms _ ok(7,8)])
      (simp add: MustHaveStatus_def fun_eq_iff mustHaveStatus_Compare_def)
  moreover have "keeps_contract existing new ConditionsMustHaveProperSSATags"
    by (rule keeps_contractI [OF conditions.ratchet.crd_comparator_axioms _ ok(3,4)])
      (simp add: ConditionsMustHaveProperSSATags_def fun_eq_iff conditions_Compare_def)
  moreover have "keeps_contract existing new (MustNotExceedCostBudget env)"
    by (rule keeps_contractI [OF mustNotExceedCostBudget.ratchet.crd_comparator_axioms _ ok(5,6)])
      (simp add: MustNotExceedCostBudget_def fun_eq_iff budget_Compare_def)
  moreover have "keeps_contract existing new NoFieldRemoval"
    by (rule keeps_contractI [OF noFieldRemoval.versioned.crd_comparator_axioms NoFieldRemoval_def ok(1,2)])
  moreover have "keeps_contract existing new NoEnumRemoval"
    by (rule keeps_contractI [OF noEnumRemoval.versioned.crd_comparator_axioms NoEnumRemoval_def ok(1,2)])
  moreover have "keeps_contract existing new NoDataTypeChange"
    by (rule keeps_contractI [OF noDataTypeChange.versioned.crd_comparator_axioms NoDataTypeChange_def ok(1,2)])
  moreover have "keeps_contract existing new NoNewRequiredFields"
    by (rule keeps_contractI [OF noNewRequiredFields.versioned.crd_comparator_axioms NoNewRequiredFields_def ok(1,2)])
  ultimately show ?thesis
    using assms(3) by (auto simp: default_comparators_def)
qed

text \<open>A comparison with the registry of the program answers for every comparator it is asked for.\<close>

lemma default_Compare:
  assumes "NewDefaultComparators env = Some r" and "set names \<subseteq> set default_names"
    and "pred_option (comparable env) existing" and "comparable env new"
  shows "\<exists>rs. Registry_Compare r existing new names = Some (rs, []) \<and>
    map Name rs = (if names = [] then sort default_names else names) \<and>
    list_all2 (\<lambda>c x. Compare c existing new = Some (Inr x)) (selected r names) rs"
proof -
  have r: "registry_ok r" "KnownComparators r = sort default_names"
    "set (map snd (comparators r)) = set (default_comparators env)"
    using NewDefaultComparators_registry [of env] assms(1) by auto
  have "\<forall>(_, c)\<in>set (comparators r). keeps_contract existing new c"
    using default_comparators_contract [OF assms(3,4)] r(3) by force
  moreover have "set names \<subseteq> set (KnownComparators r)"
    using assms(2) by (simp only: r(2) set_sort)
  ultimately show ?thesis
    using Registry_Compare_contract [OF r(1), of names] by (simp only: r(2))
qed

text \<open>A CRD compared with itself, when the comparators of versions find it settled.\<close>

definition settled_everywhere :: "CRD \<Rightarrow> bool" where
  "settled_everywhere c \<longleftrightarrow> settled_crd required_settled c"

lemma settled_crd_mono: "settled_crd p c \<Longrightarrow> settled_crd (\<lambda>_. True) c"
  by (simp add: settled_crd_def list_all_iff)

lemma default_comparators_unchanged:
  assumes "comparable env c" and "settled_everywhere c" and "d \<in> set (default_comparators env)"
    and "Compare d (Some c) c = Some (Inr r)"
  shows "Errors r = []"
proof -
  have ok: "crd_ok c" "conditions_ok c" "budget_ok env c" "status_ok c"
    using assms(1) comparable_status by (auto simp: comparable_def)
  have settled: "settled_crd required_settled c" "settled_crd (\<lambda>_. True) c"
    using assms(2) settled_crd_mono by (auto simp: settled_everywhere_def)
  note unchanged =
    noBools.ratchet.compare_unchanged [OF ok(1) TrueI]
    noFloats.ratchet.compare_unchanged [OF ok(1) TrueI]
    noUints.ratchet.compare_unchanged [OF ok(1) TrueI]
    noMaps.ratchet.compare_unchanged [OF ok(1) TrueI]
    listsMustHaveSSATags.ratchet.compare_unchanged [OF ok(1) TrueI]
    mustHaveStatus.ratchet.compare_unchanged [OF ok(4) TrueI]
    conditions.ratchet.compare_unchanged [OF ok(2) TrueI]
    mustNotExceedCostBudget.ratchet.compare_unchanged [OF ok(3) TrueI]
    noFieldRemoval.versioned.compare_unchanged [OF ok(1) settled(2)]
    noEnumRemoval.versioned.compare_unchanged [OF ok(1) settled(2)]
    noDataTypeChange.versioned.compare_unchanged [OF ok(1) settled(2)]
    noNewRequiredFields.versioned.compare_unchanged [OF ok(1) settled(1)]
  from assms(3,4) show ?thesis
    by (auto simp: default_comparators_def comparator_records validator_compares intro: unchanged)
qed

text \<open>A comparator that sees an empty existing CRD answers as if there were none.\<close>

lemma default_comparators_created:
  assumes "d \<in> set (default_comparators env)"
  shows "Compare d (Some empty_crd) new = Compare d None new"
  using assms
  by (auto simp: default_comparators_def comparator_records validator_compares
      noBools.ratchet_created noFloats.ratchet_created noUints.ratchet_created noMaps.ratchet_created
      listsMustHaveSSATags.ratchet_created mustHaveStatus.ratchet_created conditions.ratchet_created
      mustNotExceedCostBudget.ratchet_created noFieldRemoval.compare_created noEnumRemoval.compare_created
      noDataTypeChange.compare_created noNewRequiredFields.compare_created)

lemma run_comparators_cong:
  assumes "\<forall>c\<in>set cs. Compare c e n = Compare c e' n"
  shows "run_comparators (map Some cs) e n = run_comparators (map Some cs) e' n"
  using assms by (simp add: run_comparators_eq cong: map_cong bex_cong)

lemma selected_default:
  assumes "NewDefaultComparators env = Some r"
  shows "set (selected r names) \<subseteq> set (default_comparators env)"
proof -
  have "set (map snd (comparators r)) = set (default_comparators env)"
    using NewDefaultComparators_registry [of env] assms by auto
  then show ?thesis
    using selected_registered [of _ r names] by (force dest: map_of_SomeD)
qed

lemma default_Compare_created:
  assumes "NewDefaultComparators env = Some r"
  shows "Registry_Compare r (Some empty_crd) new names = Registry_Compare r None new names"
proof -
  have "\<forall>c\<in>set (selected r names). Compare c (Some empty_crd) new = Compare c None new"
    using selected_default [OF assms, of names] default_comparators_created by blast
  from run_comparators_cong [OF this] show ?thesis by (simp add: Registry_Compare_eq)
qed

text \<open>The selection by names that are not disabled.\<close>

lemma selected_set:
  assumes "NewDefaultComparators env = Some r" and "names \<noteq> []" and "set names \<subseteq> set default_names"
  shows "set (selected r names) = {c \<in> set (default_comparators env). comparator_Name c \<in> set names}"
proof -
  have r: "registry_ok r" "KnownComparators r = sort default_names"
    "\<forall>c\<in>set (default_comparators env). GetComparator r (comparator_Name c) = Inr c"
    using NewDefaultComparators_registry [of env] assms(1) by auto
  have "set names \<subseteq> set (KnownComparators r)" using assms(3) by (simp only: r(2) set_sort)
  from selected_names [OF r(1) this] assms(2)
  have names: "map comparator_Name (selected r names) = names" by simp
  have "c \<in> set (selected r names)" if "c \<in> set (default_comparators env)" "comparator_Name c \<in> set names" for c
  proof -
    from that(2) names obtain d where d: "d \<in> set (selected r names)" "comparator_Name d = comparator_Name c"
      by (metis image_iff list.set_map)
    then have "d \<in> set (default_comparators env)" using selected_default [OF assms(1)] by blast
    with r(3) that(1) d(2) have "d = c" by (metis sum.inject(2))
    with d(1) show ?thesis by simp
  qed
  moreover have "comparator_Name c \<in> set names" if "c \<in> set (selected r names)" for c
    using that names by (metis image_eqI list.set_map)
  ultimately show ?thesis using selected_default [OF assms(1), of names] by blast
qed

text \<open>No names select like all of them.\<close>

lemma Registry_Compare_known:
  assumes "NewDefaultComparators env = Some r"
  shows "Registry_Compare r existing new (sort default_names) = Registry_Compare r existing new []"
proof -
  have r: "KnownComparators r = sort default_names"
    using NewDefaultComparators_registry [of env] assms by auto
  have "set (sort default_names) \<noteq> {}" by (simp add: default_names_def)
  then have "sort default_names \<noteq> []" by (metis list.set(1))
  then have "selected r (sort default_names) = selected r []" by (simp add: selected_def r del: set_KnownComparators)
  then show ?thesis by (simp add: Registry_Compare_eq r del: set_KnownComparators)
qed

end
