(* ===== verification/Comparator_Options.thy ===== *)
theory Comparator_Options
  imports Registry Go_Format
begin

text \<open>
  \<open>pkg/cmd/options/comparators.go\<close>: which comparators a command runs. The known and the
  default-enabled names are those of the registry; two flags enable and disable names.
\<close>

record ComparatorOptions =
  ComparatorRegistry :: crdComparatorRegistry
  options_KnownComparators :: "string list"
  DefaultEnabledComparators :: "string list"
  EnabledComparators :: "string list"
  DisabledComparators :: "string list"

record ComparatorConfig =
  config_ComparatorRegistry :: crdComparatorRegistry
  ComparatorNames :: "string list"

text \<open>The argument is the registry that \<open>NewDefaultComparators\<close> returns.\<close>

definition NewComparatorOptions :: "crdComparatorRegistry \<Rightarrow> ComparatorOptions" where
  "NewComparatorOptions registry =
     \<lparr> ComparatorRegistry = registry,
       options_KnownComparators = KnownComparators registry,
       DefaultEnabledComparators = KnownComparators registry,
       EnabledComparators = [],
       DisabledComparators = [] \<rparr>"

text \<open>The verb \<open>%v\<close> on a list of strings.\<close>

definition fmt_strings :: "string list \<Rightarrow> string" where
  "fmt_strings xs = ''['' @ join_with '' '' xs @ '']''"

definition Options_Validate :: "ComparatorOptions \<Rightarrow> gerror option" where
  "Options_Validate opts =
     (let knownComparators = sets_NewString (options_KnownComparators opts);
          disabledComparators = sets_NewString (DisabledComparators opts);
          enabledComparators = sets_NewString (EnabledComparators opts)
      in if sets_Difference disabledComparators knownComparators \<noteq> {}
         then Some (''unknown comparators: '' @ fmt_strings (sets_List disabledComparators))
         else if sets_Difference enabledComparators knownComparators \<noteq> {}
         then Some (''unknown comparators: '' @ fmt_strings (sets_List disabledComparators))
         else None)"

definition Options_Complete :: "ComparatorOptions \<Rightarrow> gerror + ComparatorConfig" where
  "Options_Complete opts =
     (let knownComparators = sets_NewString (options_KnownComparators opts);
          disabledComparators = sets_NewString (DisabledComparators opts);
          enabledComparators = sets_NewString (EnabledComparators opts)
      in if sets_Difference disabledComparators knownComparators \<noteq> {}
         then Inl (''unknown comparators: '' @ fmt_strings (sets_List disabledComparators))
         else if sets_Difference enabledComparators knownComparators \<noteq> {}
         then Inl (''unknown comparators: '' @ fmt_strings (sets_List disabledComparators))
         else
           let comparatorsToRun =
             sets_Delete (sets_Insert (sets_NewString (DefaultEnabledComparators opts)) (EnabledComparators opts))
               (DisabledComparators opts)
           in Inr \<lparr> config_ComparatorRegistry = ComparatorRegistry opts,
                    ComparatorNames = sets_List comparatorsToRun \<rparr>)"

section \<open>Lemmas\<close>

text \<open>The names that a flag may carry.\<close>

definition options_known :: "ComparatorOptions \<Rightarrow> bool" where
  "options_known opts \<longleftrightarrow>
     set (DisabledComparators opts) \<union> set (EnabledComparators opts) \<subseteq> set (options_KnownComparators opts)"

lemma Options_Validate_iff: "Options_Validate opts = None \<longleftrightarrow> options_known opts"
  by (auto simp: Options_Validate_def options_known_def Let_def sets_NewString_def sets_Difference_def)

lemma Options_Complete_eq:
  "Options_Complete opts =
     (case Options_Validate opts of
        Some err \<Rightarrow> Inl err
      | None \<Rightarrow> Inr \<lparr> config_ComparatorRegistry = ComparatorRegistry opts,
          ComparatorNames = sets_List (set (DefaultEnabledComparators opts) \<union> set (EnabledComparators opts)
            - set (DisabledComparators opts)) \<rparr>)"
  by (simp add: Options_Complete_def Options_Validate_def Let_def sets_NewString_def sets_Insert_def sets_Delete_def)

text \<open>The options of a command: those of the registry, with the two flags filled in.\<close>

definition options_with :: "crdComparatorRegistry \<Rightarrow> string list \<Rightarrow> string list \<Rightarrow> ComparatorOptions" where
  "options_with registry enabled disabled =
     (NewComparatorOptions registry)\<lparr>EnabledComparators := enabled, DisabledComparators := disabled\<rparr>"

lemma options_with_simps [simp]:
  "ComparatorRegistry (options_with r es ds) = r"
  "options_KnownComparators (options_with r es ds) = KnownComparators r"
  "DefaultEnabledComparators (options_with r es ds) = KnownComparators r"
  "EnabledComparators (options_with r es ds) = es"
  "DisabledComparators (options_with r es ds) = ds"
  by (simp_all add: options_with_def NewComparatorOptions_def)

lemma Options_Complete_with:
  assumes "set es \<union> set ds \<subseteq> set (KnownComparators r)"
  shows "Options_Complete (options_with r es ds) =
    Inr \<lparr> config_ComparatorRegistry = r, ComparatorNames = sets_List (set (KnownComparators r) - set ds) \<rparr>"
proof -
  have "Options_Validate (options_with r es ds) = None"
    using assms by (simp add: Options_Validate_iff options_known_def)
  moreover have "set (KnownComparators r) \<union> set es = set (KnownComparators r)"
    using assms by auto
  ultimately show ?thesis by (simp only: Options_Complete_eq options_with_simps option.case)
qed

lemma Options_Complete_names:
  assumes "Options_Complete (options_with r es ds) = Inr cfg"
  shows "config_ComparatorRegistry cfg = r"
    and "set (ComparatorNames cfg) = set (KnownComparators r) - set ds"
    and "sorted (ComparatorNames cfg)"
    and "distinct (ComparatorNames cfg)"
    and "set es \<union> set ds \<subseteq> set (KnownComparators r)"
proof -
  from assms have "Options_Validate (options_with r es ds) = None"
    by (auto simp: Options_Complete_eq split: option.splits)
  then show known: "set es \<union> set ds \<subseteq> set (KnownComparators r)"
    by (simp only: Options_Validate_iff options_known_def options_with_simps Un_commute)
  note complete = Options_Complete_with [OF known]
  from assms complete show "config_ComparatorRegistry cfg = r"
    "set (ComparatorNames cfg) = set (KnownComparators r) - set ds"
    "sorted (ComparatorNames cfg)" "distinct (ComparatorNames cfg)"
    by (auto simp del: set_KnownComparators)
qed

section \<open>Properties\<close>

text \<open>
  C37. \<open>Complete\<close> accepts the two flags exactly when they name known comparators, and then selects the
  known names without the disabled ones, in order; enabling a name adds nothing, since every known
  comparator is enabled by default. The error for an unknown name, enabled or disabled, always
  lists the disabled names.
\<close>

theorem Options_Complete_selects:
  "Options_Complete (options_with r enabled disabled) =
     (if set enabled \<union> set disabled \<subseteq> set (KnownComparators r)
      then Inr \<lparr> config_ComparatorRegistry = r,
                 ComparatorNames = sorted_list_of_set (set (KnownComparators r) - set disabled) \<rparr>
      else Inl (''unknown comparators: '' @ fmt_strings (sorted_list_of_set (set disabled))))"
proof (cases "set enabled \<union> set disabled \<subseteq> set (KnownComparators r)")
  case True
  then show ?thesis by (simp add: Options_Complete_with sets_List_def del: set_KnownComparators)
next
  case False
  then show ?thesis
    by (auto simp: Options_Complete_def Let_def sets_NewString_def sets_Difference_def sets_List_def
        simp del: set_KnownComparators)
qed

end
