(* ===== verification/Admission.thy ===== *)
theory Admission
  imports Comparator_Options
begin

text \<open>
  The validating webhook (\<open>pkg/admissionevaluator/admission_evaluator.go\<close>) and the command that
  serves it (\<open>pkg/cmd/checkadmission/check_admission.go\<close>). Decoding the JSON of an object and the
  generic admission server are parameters.
\<close>

section \<open>Requests and responses\<close>

record AdmissionRequest =
  Operation :: string
  SubResource :: string
  resource_Group :: string
  Object_Raw :: string
  OldObject_Raw :: string

record StatusCause =
  cause_Type :: string
  cause_Message :: string

text \<open>\<open>metav1.Status\<close>; the details hold only causes.\<close>

record MetaStatus =
  meta_Status :: string
  Code :: int
  Reason :: string
  Message :: string
  Details :: "StatusCause list option"

record AdmissionResponse =
  Allowed :: bool
  Result :: "MetaStatus option"
  response_Warnings :: "string list"

definition zero_response :: AdmissionResponse where
  "zero_response = \<lparr> Allowed = False, Result = None, response_Warnings = [] \<rparr>"

definition allowed_response :: AdmissionResponse where
  "allowed_response = zero_response\<lparr>Allowed := True\<rparr>"

definition bad_request :: "string \<Rightarrow> StatusCause list option \<Rightarrow> MetaStatus" where
  "bad_request message details =
     \<lparr> meta_Status = ''Failure'', Code = 400, Reason = ''BadRequest'', Message = message, Details = details \<rparr>"

section \<open>The hook\<close>

text \<open>The pointer \<open>ComparatorConfig\<close> is nil until \<open>Complete\<close> sets it.\<close>

record AdmissionHook =
  hook_ComparatorConfig :: "ComparatorConfig option"

type_synonym unmarshaller = "string \<Rightarrow> gerror + CRD"

definition append_errors :: "ComparisonResults list \<Rightarrow> AdmissionResponse \<times> StatusCause list \<Rightarrow>
  AdmissionResponse \<times> StatusCause list" where
  "append_errors rs acc =
     fold (\<lambda>r acc. fold (\<lambda>msg (status, causes).
         (status\<lparr>Allowed := False\<rparr>, causes @ [\<lparr> cause_Type = Name r, cause_Message = msg \<rparr>])) (Errors r) acc) rs acc"

definition append_warnings :: "ComparisonResults list \<Rightarrow> AdmissionResponse \<Rightarrow> AdmissionResponse" where
  "append_warnings rs status =
     fold (\<lambda>r status. fold (\<lambda>msg status.
         status\<lparr>response_Warnings := response_Warnings status @ [Quote (Name r) @ '': '' @ msg]\<rparr>) (Warnings r) status) rs status"

definition append_infos :: "ComparisonResults list \<Rightarrow> AdmissionResponse \<Rightarrow> AdmissionResponse" where
  "append_infos rs status =
     fold (\<lambda>r status. fold (\<lambda>msg status.
         status\<lparr>response_Warnings := response_Warnings status @ [''fyi: '' @ Quote (Name r) @ '': '' @ msg]\<rparr>) (Infos r) status) rs status"

text \<open>The existing CRD: the zero struct for a request without an old object.\<close>

definition read_old :: "unmarshaller \<Rightarrow> AdmissionRequest \<Rightarrow> gerror + CRD" where
  "read_old unmarshal req =
     (if length (OldObject_Raw req) > 0 then unmarshal (OldObject_Raw req) else Inr empty_crd)"

definition Hook_Validate :: "unmarshaller \<Rightarrow> AdmissionHook \<Rightarrow> AdmissionRequest \<Rightarrow> AdmissionResponse go" where
  "Hook_Validate unmarshal a req =
     (if Operation req \<noteq> ''CREATE'' \<and> Operation req \<noteq> ''UPDATE'' then Some allowed_response
      else if length (SubResource req) > 0 then Some allowed_response
      else if \<not> resource_Group req = ''apiextensions.k8s.io'' then Some allowed_response
      else
        let status = zero_response
        in case unmarshal (Object_Raw req) of
             Inl err \<Rightarrow> Some (status\<lparr>Allowed := False,
               Result := Some (bad_request (''failed to unmarshal newCRD: '' @ err) None)\<rparr>)
           | Inr newCRD \<Rightarrow>
               (case read_old unmarshal req of
                  Inl err \<Rightarrow> Some (status\<lparr>Allowed := False,
                    Result := Some (bad_request (''failed to unmarshal oldCRD: '' @ err) None)\<rparr>)
                | Inr existingCRD \<Rightarrow>
                    (case hook_ComparatorConfig a of
                       None \<Rightarrow> None
                     | Some config \<Rightarrow> do {
                         (comparisonResults, errs) \<leftarrow>
                           Registry_Compare (config_ComparatorRegistry config) (Some existingCRD) newCRD (ComparatorNames config);
                         if length errs > 0
                         then Some (status\<lparr>Allowed := False, Result := Some (bad_request ''individual errors in details''
                                (Some (map (\<lambda>err. \<lparr> cause_Type = ''EvaluationError'', cause_Message = err \<rparr>) errs)))\<rparr>)
                         else
                           let (status, errorCauses) = append_errors comparisonResults (status, []);
                               status = (if length errorCauses > 0
                                 then status\<lparr>Result := Some (bad_request ''individual errors in details'' (Some errorCauses))\<rparr>
                                 else status)
                           in Some (append_infos comparisonResults (append_warnings comparisonResults status))
                       })))"

definition Hook_Initialize :: "AdmissionHook \<Rightarrow> gerror option" where
  "Hook_Initialize a =
     (case hook_ComparatorConfig a of None \<Rightarrow> Some ''missing ComparatorConfig'' | Some _ \<Rightarrow> None)"

text \<open>Where the server hosts the hook: group, version, plural and singular resource.\<close>

definition ValidatingResource :: "string \<times> string \<times> string \<times> string" where
  "ValidatingResource = (''admission.api.openshift.io'', ''v1'', ''crdextendedvalidations'', ''crdextendedvalidation'')"

section \<open>The command\<close>

text \<open>
  \<open>AdmissionCheckOptions\<close>, with the hook that the server options share by pointer. The three
  methods of the generic server are parameters; each gives an error or nil.
\<close>

record AdmissionCheckOptions =
  check_ComparatorOptions :: ComparatorOptions
  admissionHook :: AdmissionHook

definition NewAdmissionCheckOptions :: "crdComparatorRegistry \<Rightarrow> AdmissionCheckOptions" where
  "NewAdmissionCheckOptions registry =
     \<lparr> check_ComparatorOptions = NewComparatorOptions registry,
       admissionHook = \<lparr> hook_ComparatorConfig = None \<rparr> \<rparr>"

definition Check_Complete ::
  "(AdmissionHook \<Rightarrow> gerror option) \<Rightarrow> AdmissionCheckOptions \<Rightarrow> gerror option \<times> AdmissionCheckOptions" where
  "Check_Complete server_Complete opts =
     (case Options_Complete (check_ComparatorOptions opts) of
        Inl err \<Rightarrow> (Some err, opts)
      | Inr comparatorConfig \<Rightarrow>
          let opts = opts\<lparr>admissionHook := (admissionHook opts)\<lparr>hook_ComparatorConfig := Some comparatorConfig\<rparr>\<rparr>
          in (server_Complete (admissionHook opts), opts))"

definition Check_Validate ::
  "(string list \<Rightarrow> gerror option) \<Rightarrow> AdmissionCheckOptions \<Rightarrow> string list \<Rightarrow> gerror option" where
  "Check_Validate server_Validate opts args =
     (case Options_Validate (check_ComparatorOptions opts) of
        Some err \<Rightarrow> Some err
      | None \<Rightarrow> server_Validate args)"

definition RunAdmissionServer :: "(AdmissionHook \<Rightarrow> gerror option) \<Rightarrow> AdmissionCheckOptions \<Rightarrow> gerror option" where
  "RunAdmissionServer server_Run opts =
     (case server_Run (admissionHook opts) of Some err \<Rightarrow> Some err | None \<Rightarrow> None)"

text \<open>\<open>RunE\<close> of the command: its error, and the options as the run left them.\<close>

definition admission_check ::
  "(AdmissionHook \<Rightarrow> gerror option) \<Rightarrow> (string list \<Rightarrow> gerror option) \<Rightarrow> (AdmissionHook \<Rightarrow> gerror option) \<Rightarrow>
   AdmissionCheckOptions \<Rightarrow> string list \<Rightarrow> gerror option \<times> AdmissionCheckOptions" where
  "admission_check server_Complete server_Validate server_Run opts args =
     (case Check_Complete server_Complete opts of
        (Some err, opts) \<Rightarrow> (Some err, opts)
      | (None, opts) \<Rightarrow>
          (case Check_Validate server_Validate opts args of
             Some err \<Rightarrow> (Some err, opts)
           | None \<Rightarrow>
               (case RunAdmissionServer server_Run opts of
                  Some err \<Rightarrow> (Some err, opts)
                | None \<Rightarrow> (None, opts))))"

section \<open>What the hook answers\<close>

definition error_causes :: "ComparisonResults list \<Rightarrow> StatusCause list" where
  "error_causes rs = concat (map (\<lambda>r. map (\<lambda>msg. \<lparr> cause_Type = Name r, cause_Message = msg \<rparr>) (Errors r)) rs)"

definition warning_texts :: "ComparisonResults list \<Rightarrow> string list" where
  "warning_texts rs = concat (map (\<lambda>r. map (\<lambda>msg. Quote (Name r) @ '': '' @ msg) (Warnings r)) rs)"

definition info_texts :: "ComparisonResults list \<Rightarrow> string list" where
  "info_texts rs = concat (map (\<lambda>r. map (\<lambda>msg. ''fyi: '' @ Quote (Name r) @ '': '' @ msg) (Infos r)) rs)"

lemma append_errors_eq:
  assumes "\<not> Allowed status"
  shows "append_errors rs (status, causes) = (status, causes @ error_causes rs)"
proof -
  have denied: "status\<lparr>Allowed := False\<rparr> = status"
    using assms by (cases status) simp
  have inner: "fold (\<lambda>msg (status, causes). (status\<lparr>Allowed := False\<rparr>, causes @ [g msg])) ms (status, causes) =
      (status, causes @ map g ms)"
    for g :: "string \<Rightarrow> StatusCause" and ms causes
    by (induction ms arbitrary: causes) (auto simp: denied)
  show ?thesis
    unfolding append_errors_def error_causes_def
    by (induction rs arbitrary: causes) (auto simp: inner)
qed

lemma fold_response_Warnings:
  fixes status :: AdmissionResponse and k :: "'r \<Rightarrow> string list"
  shows "fold (\<lambda>r status. fold (\<lambda>msg status. status\<lparr>response_Warnings := response_Warnings status @ [g r msg]\<rparr>) (k r) status) rs status =
   status\<lparr>response_Warnings := response_Warnings status @ concat (map (\<lambda>r. map (g r) (k r)) rs)\<rparr>"
proof -
  have inner: "fold (\<lambda>msg status. status\<lparr>response_Warnings := response_Warnings status @ [h msg]\<rparr>) ms status =
      status\<lparr>response_Warnings := response_Warnings status @ map h ms\<rparr>"
    for h :: "string \<Rightarrow> string" and ms and status :: AdmissionResponse
    by (induction ms arbitrary: status) auto
  show ?thesis
    by (induction rs arbitrary: status) (auto simp: inner)
qed

text \<open>The requests that the hook looks at.\<close>

definition in_scope :: "AdmissionRequest \<Rightarrow> bool" where
  "in_scope req \<longleftrightarrow> (Operation req = ''CREATE'' \<or> Operation req = ''UPDATE'') \<and> SubResource req = [] \<and>
     resource_Group req = ''apiextensions.k8s.io''"

definition compared_response :: "ComparisonResults list \<times> gerror list \<Rightarrow> AdmissionResponse" where
  "compared_response = (\<lambda>(rs, errs).
     if errs \<noteq> []
     then zero_response\<lparr>Result := Some (bad_request ''individual errors in details''
            (Some (map (\<lambda>err. \<lparr> cause_Type = ''EvaluationError'', cause_Message = err \<rparr>) errs)))\<rparr>
     else \<lparr> Allowed = False,
            Result = (if error_causes rs = [] then None
                      else Some (bad_request ''individual errors in details'' (Some (error_causes rs)))),
            response_Warnings = warning_texts rs @ info_texts rs \<rparr>)"

lemma Hook_Validate_out_of_scope:
  "\<not> in_scope req \<Longrightarrow> Hook_Validate unmarshal a req = Some allowed_response"
  by (auto simp: Hook_Validate_def in_scope_def)

lemma Hook_Validate_in_scope:
  assumes "in_scope req" and "unmarshal (Object_Raw req) = Inr new" and "read_old unmarshal req = Inr old"
    and "hook_ComparatorConfig a = Some cfg"
  shows "Hook_Validate unmarshal a req = map_option compared_response
    (Registry_Compare (config_ComparatorRegistry cfg) (Some old) new (ComparatorNames cfg))"
  using assms
  by (cases "Registry_Compare (config_ComparatorRegistry cfg) (Some old) new (ComparatorNames cfg)")
    (auto simp: Hook_Validate_def in_scope_def compared_response_def append_errors_eq zero_response_def
      append_warnings_def append_infos_def fold_response_Warnings warning_texts_def info_texts_def)

lemma Hook_Validate_unreadable:
  assumes "in_scope req" and "unmarshal (Object_Raw req) = Inl err"
  shows "Hook_Validate unmarshal a req =
    Some (zero_response\<lparr>Result := Some (bad_request (''failed to unmarshal newCRD: '' @ err) None)\<rparr>)"
  using assms by (auto simp: Hook_Validate_def in_scope_def zero_response_def)

lemma Hook_Validate_unreadable_old:
  assumes "in_scope req" and "unmarshal (Object_Raw req) = Inr new" and "read_old unmarshal req = Inl err"
  shows "Hook_Validate unmarshal a req =
    Some (zero_response\<lparr>Result := Some (bad_request (''failed to unmarshal oldCRD: '' @ err) None)\<rparr>)"
  using assms by (auto simp: Hook_Validate_def in_scope_def zero_response_def)

lemma compared_response_denied: "\<not> Allowed (compared_response x)"
  by (simp add: compared_response_def zero_response_def case_prod_unfold)

lemma Hook_Validate_cases:
  assumes "Hook_Validate unmarshal a req = Some resp"
  shows "(\<not> in_scope req \<and> resp = allowed_response) \<or> (in_scope req \<and> \<not> Allowed resp)"
proof (cases "in_scope req")
  case True
  have "\<not> Allowed resp"
  proof (cases "unmarshal (Object_Raw req)")
    case (Inl err)
    with Hook_Validate_unreadable [of req unmarshal err a] True assms show ?thesis by (auto simp: zero_response_def)
  next
    case new: (Inr new)
    show ?thesis
    proof (cases "read_old unmarshal req")
      case (Inl err)
      with Hook_Validate_unreadable_old [of req unmarshal new err a] new True assms show ?thesis
        by (auto simp: zero_response_def)
    next
      case old: (Inr old)
      then obtain cfg where cfg: "hook_ComparatorConfig a = Some cfg"
        using True new assms by (cases "hook_ComparatorConfig a") (auto simp: Hook_Validate_def in_scope_def)
      have "map_option compared_response (Registry_Compare (config_ComparatorRegistry cfg) (Some old) new
          (ComparatorNames cfg)) = Some resp"
        using Hook_Validate_in_scope [OF True new old cfg] assms by simp
      then show ?thesis by (auto simp: compared_response_denied)
    qed
  qed
  with True show ?thesis by simp
next
  case False
  with Hook_Validate_out_of_scope assms show ?thesis by auto
qed

text \<open>A command that gets as far as serving has given its hook a configuration.\<close>

lemma admission_check_configured:
  assumes "admission_check server_Complete server_Validate server_Run opts args = (None, opts')"
  shows "\<exists>cfg. Options_Complete (check_ComparatorOptions opts) = Inr cfg \<and>
    hook_ComparatorConfig (admissionHook opts') = Some cfg \<and> Hook_Initialize (admissionHook opts') = None"
  using assms
  by (auto simp: admission_check_def Check_Complete_def Hook_Initialize_def Let_def
      split: sum.splits option.splits prod.splits)

section \<open>Properties\<close>

text \<open>
  C15. Whatever the comparators say, the hook allows a request exactly when it does not look at it:
  \<open>Allowed\<close> is never set on the way through the comparison, so every creation or update of a CRD is
  denied, also one without any error.
\<close>

theorem hook_allows_iff_out_of_scope:
  assumes "Hook_Validate unmarshal a req = Some resp"
  shows "Allowed resp \<longleftrightarrow> \<not> in_scope req"
  using Hook_Validate_cases [OF assms] by (auto simp: allowed_response_def)

definition create_request :: AdmissionRequest where
  "create_request = \<lparr> Operation = ''CREATE'', SubResource = [], resource_Group = ''apiextensions.k8s.io'',
     Object_Raw = ''{}'', OldObject_Raw = [] \<rparr>"

definition idle_hook :: AdmissionHook where
  "idle_hook = \<lparr> hook_ComparatorConfig =
     Some \<lparr> config_ComparatorRegistry = NewRegistry, ComparatorNames = [] \<rparr> \<rparr>"

theorem hook_allows_iff_out_of_scope_witness:
  "\<exists>resp. Hook_Validate (\<lambda>_. Inr empty_crd) idle_hook create_request = Some resp \<and>
     Result resp = None \<and> \<not> Allowed resp"
proof -
  let ?resp = "\<lparr> Allowed = False, Result = None, response_Warnings = [] \<rparr>"
  have answer: "Hook_Validate (\<lambda>_. Inr empty_crd) idle_hook create_request = Some ?resp"
    by code_simp
  have "in_scope create_request" by code_simp
  with hook_allows_iff_out_of_scope [OF answer] answer show ?thesis by auto
qed

text \<open>
  C16. A request in scope whose objects decode is answered from the comparison with the old object, or
  with the empty CRD if there is none: evaluation errors as causes of a failure, otherwise one
  cause for each error in the order of the results, a nil status when there is none, and the
  warnings and infos as quoted texts.
\<close>

theorem hook_answers_comparison:
  assumes "in_scope req" and "unmarshal (Object_Raw req) = Inr new"
    and "(if OldObject_Raw req = [] then Inr empty_crd else unmarshal (OldObject_Raw req)) = Inr old"
    and "hook_ComparatorConfig a = Some cfg"
    and "Registry_Compare (config_ComparatorRegistry cfg) (Some old) new (ComparatorNames cfg) = Some (rs, [])"
  shows "Hook_Validate unmarshal a req = Some
    \<lparr> Allowed = False,
      Result = (if \<forall>r\<in>set rs. Errors r = [] then None
                else Some (bad_request ''individual errors in details'' (Some (error_causes rs)))),
      response_Warnings = warning_texts rs @ info_texts rs \<rparr>"
proof -
  have old: "read_old unmarshal req = Inr old"
    using assms(3) by (simp add: read_old_def split: if_splits)
  have "error_causes rs = [] \<longleftrightarrow> (\<forall>r\<in>set rs. Errors r = [])"
    by (auto simp: error_causes_def)
  then show ?thesis
    using Hook_Validate_in_scope [of req unmarshal new old a cfg] old assms by (simp add: compared_response_def)
qed

theorem hook_answers_comparison_witness:
  "Hook_Validate (\<lambda>_. Inr empty_crd) idle_hook create_request =
     Some \<lparr> Allowed = False, Result = None, response_Warnings = [] \<rparr>"
proof -
  have facts: "in_scope create_request" "(\<lambda>_. Inr empty_crd) (Object_Raw create_request) = (Inr empty_crd :: gerror + CRD)"
    "(if OldObject_Raw create_request = [] then Inr empty_crd else (\<lambda>_. Inr empty_crd) (OldObject_Raw create_request)) =
       (Inr empty_crd :: gerror + CRD)"
    "hook_ComparatorConfig idle_hook = Some \<lparr> config_ComparatorRegistry = NewRegistry, ComparatorNames = [] \<rparr>"
    "Registry_Compare NewRegistry (Some empty_crd) empty_crd [] = Some ([], [])"
    by (code_simp, simp, simp add: create_request_def, simp add: idle_hook_def, code_simp)
  show ?thesis
    using hook_answers_comparison [where unmarshal = "\<lambda>_. Inr empty_crd" and rs = "[]", OF facts(1-4)] facts(5)
    by (simp add: warning_texts_def info_texts_def)
qed

end
