(* ===== verification/Check_Manifests.thy ===== *)
theory Check_Manifests
  imports Comparator_Options
begin

text \<open>
  The command \<open>check-manifests\<close> (\<open>pkg/cmd/checkmanifests/check_manifests.go\<close>) with the reader of
  \<open>pkg/resourceread/apiextensions.go\<close>. Reading a file and decoding its bytes are parameters:
  the operating system and the serializer of Kubernetes.
\<close>

section \<open>Reading a CRD\<close>

text \<open>What the decoder returns: a CRD or some other registered object.\<close>

datatype runtime_object = CRD_object CRD | Other_object

type_synonym decoder = "string \<Rightarrow> gerror + runtime_object"

definition ReadCustomResourceDefinitionV1 :: "decoder \<Rightarrow> string \<Rightarrow> (gerror + CRD) go" where
  "ReadCustomResourceDefinitionV1 decode objBytes =
     (case decode objBytes of
        Inl err \<Rightarrow> Some (Inl err)
      | Inr requiredObj \<Rightarrow> (case requiredObj of CRD_object crd \<Rightarrow> Some (Inr crd) | Other_object \<Rightarrow> None))"

definition ReadCustomResourceDefinitionV1OrDie :: "decoder \<Rightarrow> string \<Rightarrow> CRD go" where
  "ReadCustomResourceDefinitionV1OrDie decode objBytes =
     (case decode objBytes of
        Inl err \<Rightarrow> None
      | Inr requiredObj \<Rightarrow> (case requiredObj of CRD_object crd \<Rightarrow> Some crd | Other_object \<Rightarrow> None))"

lemma ReadOrDie_iff:
  "ReadCustomResourceDefinitionV1OrDie decode b = Some crd \<longleftrightarrow>
   ReadCustomResourceDefinitionV1 decode b = Some (Inr crd)"
  by (simp add: ReadCustomResourceDefinitionV1_def ReadCustomResourceDefinitionV1OrDie_def
      split: sum.split runtime_object.split)

text \<open>\<open>EncodeOrDie\<close> panics when the library cannot encode the object. What is written is read back.\<close>

definition WriteCustomResourceDefinitionV1OrDie :: "(CRD \<Rightarrow> gerror + string) \<Rightarrow> CRD \<Rightarrow> string go" where
  "WriteCustomResourceDefinitionV1OrDie encode obj = (case encode obj of Inl err \<Rightarrow> None | Inr s \<Rightarrow> Some s)"

lemma read_written:
  assumes "\<And>crd s. encode crd = Inr s \<Longrightarrow> decode s = Inr (CRD_object crd)"
    and "WriteCustomResourceDefinitionV1OrDie encode crd = Some s"
  shows "ReadCustomResourceDefinitionV1OrDie decode s = Some crd"
  using assms by (auto simp: WriteCustomResourceDefinitionV1OrDie_def ReadCustomResourceDefinitionV1OrDie_def split: sum.splits)

section \<open>Options and configuration\<close>

record CheckManifestOptions =
  ExistingCRDFile :: string
  NewCRDFile :: string
  manifest_ComparatorOptions :: ComparatorOptions

record CheckManifestConfig =
  ExistingCRD :: "CRD option"
  NewCRD :: CRD
  manifest_ComparatorConfig :: ComparatorConfig

definition Manifest_Validate :: "CheckManifestOptions \<Rightarrow> gerror option" where
  "Manifest_Validate opts =
     (if length (NewCRDFile opts) = 0 then Some ''--new-crd-filename is required''
      else case Options_Validate (manifest_ComparatorOptions opts) of
             Some err \<Rightarrow> Some err
           | None \<Rightarrow> None)"

type_synonym file_reader = "string \<Rightarrow> gerror + string"

text \<open>The two reads of \<open>Complete\<close>, which differ in the file and in the text of one error.\<close>

definition read_manifest :: "file_reader \<Rightarrow> decoder \<Rightarrow> string \<Rightarrow> string \<Rightarrow> (gerror + CRD) go" where
  "read_manifest readFile decode cannotRead file =
     (case readFile file of
        Inl err \<Rightarrow> Some (Inl (cannotRead @ err))
      | Inr content \<Rightarrow>
          (case ReadCustomResourceDefinitionV1 decode content of
             None \<Rightarrow> None
           | Some (Inl err) \<Rightarrow> Some (Inl (''cannot decode CRD manifest: '' @ err))
           | Some (Inr crd) \<Rightarrow> Some (Inr crd)))"

definition read_existing :: "file_reader \<Rightarrow> decoder \<Rightarrow> CheckManifestOptions \<Rightarrow> (gerror + CRD option) go" where
  "read_existing readFile decode opts =
     (if length (ExistingCRDFile opts) > 0
      then (case read_manifest readFile decode ''cannot read existing CRD manifest: '' (ExistingCRDFile opts) of
              None \<Rightarrow> None
            | Some (Inl err) \<Rightarrow> Some (Inl err)
            | Some (Inr crd) \<Rightarrow> Some (Inr (Some crd)))
      else Some (Inr None))"

definition Manifest_Complete ::
  "file_reader \<Rightarrow> decoder \<Rightarrow> CheckManifestOptions \<Rightarrow> (gerror + CheckManifestConfig) go" where
  "Manifest_Complete readFile decode opts =
     (case read_existing readFile decode opts of
        None \<Rightarrow> None
      | Some (Inl err) \<Rightarrow> Some (Inl err)
      | Some (Inr existingCRD) \<Rightarrow>
          (case read_manifest readFile decode ''cannot read new CRD manifest: '' (NewCRDFile opts) of
             None \<Rightarrow> None
           | Some (Inl err) \<Rightarrow> Some (Inl err)
           | Some (Inr crd) \<Rightarrow>
               (case Options_Complete (manifest_ComparatorOptions opts) of
                  Inl err \<Rightarrow> Some (Inl err)
                | Inr comparatorConfig \<Rightarrow>
                    Some (Inr \<lparr> ExistingCRD = existingCRD, NewCRD = crd,
                                manifest_ComparatorConfig = comparatorConfig \<rparr>))))"

section \<open>Run\<close>

text \<open>The two streams, as the lists of what was printed to them.\<close>

record IOStreams =
  Out :: "string list"
  ErrOut :: "string list"

definition newline_string :: string where
  "newline_string = [CHR 0x0A]"

definition error_line :: "string \<Rightarrow> string \<Rightarrow> string" where
  "error_line name msg = ''ERROR: '' @ Quote name @ '': '' @ msg @ newline_string"

definition warning_line :: "string \<Rightarrow> string \<Rightarrow> string" where
  "warning_line name msg = ''Warning: '' @ Quote name @ '': '' @ msg @ newline_string"

definition info_line :: "string \<Rightarrow> string \<Rightarrow> string" where
  "info_line name msg = ''info: '' @ Quote name @ '': '' @ msg @ newline_string"

definition evaluation_line :: "gerror \<Rightarrow> string" where
  "evaluation_line err = ''Error during evalutions: '' @ err @ newline_string"

text \<open>\<open>utilerrors.NewAggregate\<close> is nil for no errors, and the list of them otherwise.\<close>

definition NewAggregate :: "gerror list \<Rightarrow> gerror list option" where
  "NewAggregate errs = (if errs = [] then None else Some errs)"

definition Run :: "CheckManifestConfig \<Rightarrow> IOStreams \<Rightarrow>
  (ComparisonResults list \<times> bool \<times> gerror list option \<times> IOStreams) go" where
  "Run c io = do {
     (comparisonResults, errs) \<leftarrow>
       Registry_Compare (config_ComparatorRegistry (manifest_ComparatorConfig c)) (ExistingCRD c) (NewCRD c)
         (ComparatorNames (manifest_ComparatorConfig c));
     let (failed, io) =
       (if length errs > 0
        then (True, fold (\<lambda>err io. io\<lparr>ErrOut := ErrOut io @ [evaluation_line err]\<rparr>) errs io)
        else (False, io));
     let (failed, io) =
       fold (\<lambda>r acc. fold (\<lambda>msg (failed, io). (True, io\<lparr>ErrOut := ErrOut io @ [error_line (Name r) msg]\<rparr>))
              (Errors r) acc) comparisonResults (failed, io);
     let io = fold (\<lambda>r io. fold (\<lambda>msg io. io\<lparr>Out := Out io @ [warning_line (Name r) msg]\<rparr>) (Warnings r) io)
       comparisonResults io;
     let io = fold (\<lambda>r io. fold (\<lambda>msg io. io\<lparr>Out := Out io @ [info_line (Name r) msg]\<rparr>) (Infos r) io)
       comparisonResults io;
     Some (comparisonResults, failed, NewAggregate errs, io)
   }"

text \<open>How the process ends: \<open>klog.Fatal\<close>, \<open>os.Exit(1)\<close>, or a return.\<close>

datatype command_end = Fatal gerror | Exit int | Returned

definition check_manifests ::
  "file_reader \<Rightarrow> decoder \<Rightarrow> CheckManifestOptions \<Rightarrow> IOStreams \<Rightarrow> (command_end \<times> IOStreams) go" where
  "check_manifests readFile decode opts io =
     (case Manifest_Validate opts of
        Some err \<Rightarrow> Some (Fatal err, io)
      | None \<Rightarrow> do {
          config \<leftarrow> Manifest_Complete readFile decode opts;
          case config of
            Inl err \<Rightarrow> Some (Fatal err, io)
          | Inr config \<Rightarrow> do {
              (_, failed, _, io) \<leftarrow> Run config io;
              Some (if failed then Exit 1 else Returned, io)
            }
        })"

section \<open>What Run prints and returns\<close>

lemma fold_Out: "fold (\<lambda>x io. io\<lparr>Out := Out io @ g x\<rparr>) xs io = io\<lparr>Out := Out io @ concat (map g xs)\<rparr>"
  by (induction xs arbitrary: io) auto

lemma fold_ErrOut: "fold (\<lambda>x io. io\<lparr>ErrOut := ErrOut io @ g x\<rparr>) xs io = io\<lparr>ErrOut := ErrOut io @ concat (map g xs)\<rparr>"
  by (induction xs arbitrary: io) auto

lemma fold_failed:
  "fold (\<lambda>msg (failed, io). (True, io\<lparr>ErrOut := ErrOut io @ [g msg]\<rparr>)) xs (failed, io) =
   (failed \<or> xs \<noteq> [], io\<lparr>ErrOut := ErrOut io @ map g xs\<rparr>)"
  by (induction xs arbitrary: failed io) auto

lemma fold_results_failed:
  "fold (\<lambda>r acc. fold (\<lambda>msg (failed, io). (True, io\<lparr>ErrOut := ErrOut io @ [g r msg]\<rparr>)) (Errors r) acc) rs (failed, io) =
   (failed \<or> (\<exists>r\<in>set rs. Errors r \<noteq> []),
    io\<lparr>ErrOut := ErrOut io @ concat (map (\<lambda>r. map (g r) (Errors r)) rs)\<rparr>)"
  by (induction rs arbitrary: failed io) (auto simp: fold_failed)

definition run_failed :: "ComparisonResults list \<Rightarrow> gerror list \<Rightarrow> bool" where
  "run_failed rs errs \<longleftrightarrow> errs \<noteq> [] \<or> (\<exists>r\<in>set rs. Errors r \<noteq> [])"

definition run_prints :: "ComparisonResults list \<Rightarrow> gerror list \<Rightarrow> IOStreams \<Rightarrow> IOStreams" where
  "run_prints rs errs io = io
     \<lparr> ErrOut := ErrOut io @ map evaluation_line errs @ concat (map (\<lambda>r. map (error_line (Name r)) (Errors r)) rs),
       Out := Out io @ concat (map (\<lambda>r. map (warning_line (Name r)) (Warnings r)) rs) @
         concat (map (\<lambda>r. map (info_line (Name r)) (Infos r)) rs) \<rparr>"

lemma Run_eq:
  "Run c io = map_option (\<lambda>(rs, errs). (rs, run_failed rs errs, NewAggregate errs, run_prints rs errs io))
     (Registry_Compare (config_ComparatorRegistry (manifest_ComparatorConfig c)) (ExistingCRD c) (NewCRD c)
        (ComparatorNames (manifest_ComparatorConfig c)))"
proof -
  have singles: "concat (map (\<lambda>x. [g x]) xs) = map g xs" for g :: "'x \<Rightarrow> string" and xs
    by (induction xs) auto
  have inner: "fold (\<lambda>msg io. io\<lparr>Out := Out io @ [h r msg]\<rparr>) (k r) io = io\<lparr>Out := Out io @ map (h r) (k r)\<rparr>"
    for h :: "ComparisonResults \<Rightarrow> string \<Rightarrow> string" and r k and io :: IOStreams
    by (simp add: fold_Out singles)
  show ?thesis
    by (cases "Registry_Compare (config_ComparatorRegistry (manifest_ComparatorConfig c)) (ExistingCRD c) (NewCRD c)
        (ComparatorNames (manifest_ComparatorConfig c))")
      (auto simp: Run_def fold_results_failed inner fold_Out fold_ErrOut singles run_failed_def run_prints_def Let_def)
qed

lemma check_manifests_completed:
  assumes "Manifest_Validate opts = None" and "Manifest_Complete readFile decode opts = Some (Inr cfg)"
  shows "check_manifests readFile decode opts io =
    map_option (\<lambda>(rs, errs). (if run_failed rs errs then Exit 1 else Returned, run_prints rs errs io))
      (Registry_Compare (config_ComparatorRegistry (manifest_ComparatorConfig cfg)) (ExistingCRD cfg) (NewCRD cfg)
        (ComparatorNames (manifest_ComparatorConfig cfg)))"
proof -
  have "(do { (_, failed, _, io) \<leftarrow> Run cfg io; Some (if failed then Exit 1 else Returned, io) }) =
      map_option (\<lambda>(_, failed, _, io). (if failed then Exit 1 else Returned, io)) (Run cfg io)"
    by (cases "Run cfg io") auto
  with assms show ?thesis
    by (simp add: check_manifests_def Run_eq option.map_comp comp_def case_prod_unfold)
qed

text \<open>What a successful \<open>Complete\<close> took from the files.\<close>

definition holds_crd :: "file_reader \<Rightarrow> decoder \<Rightarrow> string \<Rightarrow> CRD \<Rightarrow> bool" where
  "holds_crd readFile decode file crd \<longleftrightarrow>
     (\<exists>content. readFile file = Inr content \<and> decode content = Inr (CRD_object crd))"

lemma holds_crd_unique:
  "holds_crd readFile decode file c \<Longrightarrow> holds_crd readFile decode file d \<Longrightarrow> c = d"
  by (auto simp: holds_crd_def)

lemma read_manifest_Inr_iff:
  "read_manifest readFile decode what file = Some (Inr crd) \<longleftrightarrow> holds_crd readFile decode file crd"
  by (auto simp: read_manifest_def holds_crd_def ReadCustomResourceDefinitionV1_def
      split: sum.splits runtime_object.splits)

lemma read_existing_Inr_iff:
  "read_existing readFile decode opts = Some (Inr existing) \<longleftrightarrow>
   (if ExistingCRDFile opts = [] then existing = None
    else \<exists>crd. existing = Some crd \<and> holds_crd readFile decode (ExistingCRDFile opts) crd)"
  using read_manifest_Inr_iff [of readFile decode "''cannot read existing CRD manifest: ''" "ExistingCRDFile opts"]
  by (cases "read_manifest readFile decode ''cannot read existing CRD manifest: '' (ExistingCRDFile opts)")
    (auto simp: read_existing_def dest: holds_crd_unique split: sum.split)

text \<open>A file that cannot be read, or whose content the decoder refuses.\<close>

definition unreadable :: "file_reader \<Rightarrow> decoder \<Rightarrow> string \<Rightarrow> bool" where
  "unreadable readFile decode file \<longleftrightarrow>
     (case readFile file of Inl err \<Rightarrow> True | Inr content \<Rightarrow> isl (decode content))"

lemma read_manifest_Inl_iff:
  "(\<exists>err. read_manifest readFile decode what file = Some (Inl err)) \<longleftrightarrow> unreadable readFile decode file"
  by (auto simp: read_manifest_def unreadable_def ReadCustomResourceDefinitionV1_def
      split: sum.splits runtime_object.splits)

lemma read_existing_Inl_iff:
  "(\<exists>err. read_existing readFile decode opts = Some (Inl err)) \<longleftrightarrow>
   ExistingCRDFile opts \<noteq> [] \<and> unreadable readFile decode (ExistingCRDFile opts)"
  unfolding read_manifest_Inl_iff [of readFile decode "''cannot read existing CRD manifest: ''" "ExistingCRDFile opts", symmetric]
  by (auto simp: read_existing_def split: option.splits sum.splits)

lemma Manifest_Complete_Inl_iff:
  assumes "\<exists>cfg. Options_Complete (manifest_ComparatorOptions opts) = Inr cfg"
  shows "(\<exists>err. Manifest_Complete readFile decode opts = Some (Inl err)) \<longleftrightarrow>
    (ExistingCRDFile opts \<noteq> [] \<and> unreadable readFile decode (ExistingCRDFile opts)) \<or>
    (ExistingCRDFile opts = [] \<or> (\<exists>c. holds_crd readFile decode (ExistingCRDFile opts) c)) \<and>
      unreadable readFile decode (NewCRDFile opts)"
proof -
  have existing: "(\<exists>e. read_existing readFile decode opts = Some (Inr e)) \<longleftrightarrow>
      ExistingCRDFile opts = [] \<or> (\<exists>c. holds_crd readFile decode (ExistingCRDFile opts) c)"
    by (cases "ExistingCRDFile opts = []") (auto simp: read_existing_Inr_iff)
  show ?thesis
    unfolding existing [symmetric] read_existing_Inl_iff [symmetric]
      read_manifest_Inl_iff [of readFile decode "''cannot read new CRD manifest: ''" "NewCRDFile opts", symmetric]
    using assms by (auto simp: Manifest_Complete_def split: option.split sum.split)
qed

lemma Manifest_Complete_Inr_iff:
  "Manifest_Complete readFile decode opts = Some (Inr cfg) \<longleftrightarrow>
   read_existing readFile decode opts = Some (Inr (ExistingCRD cfg)) \<and>
   holds_crd readFile decode (NewCRDFile opts) (NewCRD cfg) \<and>
   Options_Complete (manifest_ComparatorOptions opts) = Inr (manifest_ComparatorConfig cfg)"
proof -
  obtain e n k where cfg: "cfg = \<lparr> ExistingCRD = e, NewCRD = n, manifest_ComparatorConfig = k \<rparr>"
    by (cases cfg) auto
  show ?thesis
    by (simp add: cfg Manifest_Complete_def
        read_manifest_Inr_iff [of readFile decode "''cannot read new CRD manifest: ''", symmetric]
        split: option.split sum.split)
qed

section \<open>Properties\<close>

text \<open>
  C38. \<open>Run\<close> fails exactly when the comparison had an error or some result has one, and prints, in
  this order, the evaluation errors and the errors of all results to the error stream, and the
  warnings and the infos of all results to the output stream.
\<close>

theorem Run_prints_results:
  "Run c io = map_option (\<lambda>(rs, errs). (rs, errs \<noteq> [] \<or> (\<exists>r\<in>set rs. Errors r \<noteq> []), NewAggregate errs,
      \<lparr> Out = Out io @ concat (map (\<lambda>r. map (warning_line (Name r)) (Warnings r)) rs) @
               concat (map (\<lambda>r. map (info_line (Name r)) (Infos r)) rs),
        ErrOut = ErrOut io @ map evaluation_line errs @
               concat (map (\<lambda>r. map (error_line (Name r)) (Errors r)) rs) \<rparr>))
     (Registry_Compare (config_ComparatorRegistry (manifest_ComparatorConfig c)) (ExistingCRD c) (NewCRD c)
        (ComparatorNames (manifest_ComparatorConfig c)))"
  unfolding Run_eq by (rule option.map_cong [OF refl]) (auto simp: run_failed_def run_prints_def)

definition loud_results :: ComparisonResults where
  "loud_results = \<lparr> Name = ''A'', WhyItMatters = [], Errors = [''e''], Warnings = [''w''], Infos = [''i''] \<rparr>"

definition loud_config :: CheckManifestConfig where
  "loud_config = \<lparr> ExistingCRD = None, NewCRD = empty_crd, manifest_ComparatorConfig =
     \<lparr> config_ComparatorRegistry = \<lparr> comparators = [(''A'', fixed_comparator loud_results)] \<rparr>,
       ComparatorNames = [''A''] \<rparr> \<rparr>"

theorem Run_prints_results_witness:
  "Run loud_config \<lparr> Out = [], ErrOut = [] \<rparr> =
     Some ([loud_results], True, None,
       \<lparr> Out = [''Warning: \"A\": w'' @ newline_string, ''info: \"A\": i'' @ newline_string],
         ErrOut = [''ERROR: \"A\": e'' @ newline_string] \<rparr>)"
proof -
  have "Registry_Compare \<lparr> comparators = [(''A'', fixed_comparator loud_results)] \<rparr> None empty_crd [''A''] =
      Some ([loud_results], [])"
    by code_simp
  moreover have "warning_line ''A'' ''w'' = ''Warning: \"A\": w'' @ newline_string"
    "info_line ''A'' ''i'' = ''info: \"A\": i'' @ newline_string"
    "error_line ''A'' ''e'' = ''ERROR: \"A\": e'' @ newline_string"
    by code_simp+
  ultimately show ?thesis
    using Run_prints_results [of loud_config "\<lparr> Out = [], ErrOut = [] \<rparr>"]
    by (simp add: loud_config_def loud_results_def NewAggregate_def)
qed

end
