(* ===== verification/Results_Tester.thy ===== *)
theory Results_Tester
  imports Check_Manifests
begin

text \<open>
  \<open>simple_tester.go\<close>: the directory-style tests that the package offers to the authors of
  comparators. A test has an existing and a new CRD, the results and the errors that are
  expected; \<open>ComparatorTest.Test\<close> compares them with the actual ones. The theory shows when a test
  passes: when no errors are involved, exactly when every comparator has the expected messages up
  to their order; when errors are expected, never.
\<close>

section \<open>Tests and their outcome\<close>

record ComparatorTest =
  test_Name :: string
  test_ExistingCRD :: "CRD option"
  test_NewCRD :: CRD
  ExpectedResults :: "ComparisonResults list"
  ExpectedErrors :: "string list"

text \<open>
  What a test does to \<open>testing.T\<close>: the messages it logs as failures, and whether \<open>Fatalf\<close> ended it.
  A test fails when it logged a failure.
\<close>

record testing_T =
  T_failures :: "string list"
  T_fatal :: bool

definition passed :: "testing_T \<Rightarrow> bool" where
  "passed t \<longleftrightarrow> T_failures t = []"

text \<open>
  The two slices that \<open>reflect.DeepEqual\<close> gets for the errors have different types, \<open>[]string\<close> and
  \<open>[]error\<close>; values of different types are never deeply equal.
\<close>

datatype go_slice = String_slice "string list" | Error_slice "gerror list"

definition reflect_DeepEqual :: "go_slice \<Rightarrow> go_slice \<Rightarrow> bool" where
  "reflect_DeepEqual x y \<longleftrightarrow> x = y"

text \<open>The pointer to the first result of that name, as an index into the slice.\<close>

fun findResults_loop :: "string \<Rightarrow> ComparisonResults list \<Rightarrow> nat \<Rightarrow> nat option" where
  "findResults_loop name [] i = None"
| "findResults_loop name (r # results) i =
     (if Name r = name then Some i else findResults_loop name results (Suc i))"

definition findResultsForComparator :: "string \<Rightarrow> ComparisonResults list \<Rightarrow> nat option" where
  "findResultsForComparator name results = findResults_loop name results 0"

section \<open>Test\<close>

text \<open>
  The variables of \<open>Test\<close>: the failures so far, and the two slices of results, whose message
  slices \<open>sort.Strings\<close> sorts in place. The message slices of different results are different
  arrays.
\<close>

record tester =
  failures :: "string list"
  expecteds :: "ComparisonResults list"
  actuals :: "ComparisonResults list"

text \<open>\<open>yaml.Marshal\<close> of a result, a parameter: its error is logged, and its bytes are then nil.\<close>

type_synonym marshaller = "ComparisonResults \<Rightarrow> gerror + string"

definition marshal_errors :: "marshaller \<Rightarrow> ComparisonResults \<Rightarrow> string list" where
  "marshal_errors marshal r = (case marshal r of Inl err \<Rightarrow> [err] | Inr _ \<Rightarrow> [])"

definition marshal_bytes :: "marshaller \<Rightarrow> ComparisonResults \<Rightarrow> string" where
  "marshal_bytes marshal r = (case marshal r of Inl _ \<Rightarrow> [] | Inr bytes \<Rightarrow> bytes)"

definition sort_messages :: "ComparisonResults \<Rightarrow> ComparisonResults" where
  "sort_messages r = r\<lparr>Errors := sort (Errors r), Warnings := sort (Warnings r), Infos := sort (Infos r)\<rparr>"

definition mismatch :: "string \<Rightarrow> string \<Rightarrow> string \<Rightarrow> string \<Rightarrow> string list \<Rightarrow> string list \<Rightarrow> string list" where
  "mismatch what name expectedBytes actualBytes expected actual =
     (let noneAsExpected = (length expected = 0 \<and> length actual = 0)
      in if \<not> noneAsExpected \<and> \<not> reflect_DeepEqual (String_slice expected) (String_slice actual)
         then [''mismatched '' @ what @ '' for expectedResults['' @ name @ '']: expected'' @ newline_string @
               expectedBytes @ newline_string @ '', got'' @ newline_string @ actualBytes @ newline_string]
         else [])"

definition mismatches :: "string \<Rightarrow> string \<Rightarrow> ComparisonResults \<Rightarrow> ComparisonResults \<Rightarrow> string list" where
  "mismatches expectedBytes actualBytes expected actual =
     mismatch ''errors'' (Name expected) expectedBytes actualBytes (Errors expected) (Errors actual) @
     mismatch ''warnings'' (Name expected) expectedBytes actualBytes (Warnings expected) (Warnings actual) @
     mismatch ''infos'' (Name expected) expectedBytes actualBytes (Infos expected) (Infos actual)"

definition missing_message :: "string \<Rightarrow> string \<Rightarrow> string" where
  "missing_message name expectedBytes =
     ''missing expectedResults['' @ name @ '']: expected'' @ newline_string @ expectedBytes @ newline_string"

definition extra_message :: "string \<Rightarrow> string \<Rightarrow> string" where
  "extra_message name actualBytes =
     ''missing expectedResults for actual['' @ name @ '']: got'' @ newline_string @ actualBytes @ newline_string"

text \<open>One round of the loop over the expected results.\<close>

definition expected_round :: "marshaller \<Rightarrow> nat \<Rightarrow> tester \<Rightarrow> tester" where
  "expected_round marshal i t =
     (let expected = expecteds t ! i;
          t = t\<lparr>failures := failures t @ marshal_errors marshal expected\<rparr>
      in case findResultsForComparator (Name expected) (actuals t) of
           None \<Rightarrow>
             if length (Errors expected) = 0 \<and> length (Warnings expected) = 0 \<and> length (Infos expected) = 0 then t
             else t\<lparr>failures := failures t @ [missing_message (Name expected) (marshal_bytes marshal expected)]\<rparr>
         | Some j \<Rightarrow>
             (let actual = actuals t ! j;
                  t = t\<lparr>failures := failures t @ marshal_errors marshal actual\<rparr>;
                  t = t\<lparr>expecteds := (expecteds t)[i := sort_messages expected],
                        actuals := (actuals t)[j := sort_messages actual]\<rparr>
              in t\<lparr>failures := failures t @
                   mismatches (marshal_bytes marshal expected) (marshal_bytes marshal actual)
                     (sort_messages expected) (sort_messages actual)\<rparr>))"

text \<open>One round of the loop over the actual results, which sorts nothing.\<close>

definition actual_round :: "marshaller \<Rightarrow> nat \<Rightarrow> tester \<Rightarrow> tester" where
  "actual_round marshal j t =
     (let actual = actuals t ! j;
          t = t\<lparr>failures := failures t @ marshal_errors marshal actual\<rparr>
      in case findResultsForComparator (Name actual) (expecteds t) of
           None \<Rightarrow>
             if length (Errors actual) = 0 \<and> length (Warnings actual) = 0 \<and> length (Infos actual) = 0 then t
             else t\<lparr>failures := failures t @ [extra_message (Name actual) (marshal_bytes marshal actual)]\<rparr>
         | Some i \<Rightarrow>
             (let expected = expecteds t ! i;
                  t = t\<lparr>failures := failures t @ marshal_errors marshal expected\<rparr>
              in t\<lparr>failures := failures t @
                   mismatches (marshal_bytes marshal expected) (marshal_bytes marshal actual) expected actual\<rparr>))"

definition ComparatorTest_Test :: "marshaller \<Rightarrow> ComparatorTest \<Rightarrow> ComparisonResults list \<Rightarrow> gerror list \<Rightarrow> testing_T" where
  "ComparatorTest_Test marshal tc actualResults actualErrors =
     (if length (ExpectedErrors tc) = 0 \<and> length actualErrors \<noteq> 0
      then \<lparr> T_failures = [''0 errors expected, got '' @ fmt_strings actualErrors], T_fatal = True \<rparr>
      else if length (ExpectedErrors tc) \<noteq> 0 \<and> length actualErrors = 0
      then \<lparr> T_failures = [''expected some errors: '' @ fmt_strings (ExpectedErrors tc) @ '', got none''], T_fatal = True \<rparr>
      else if length (ExpectedErrors tc) \<noteq> 0 \<and> length actualErrors \<noteq> 0 \<and>
         \<not> reflect_DeepEqual (String_slice (ExpectedErrors tc)) (Error_slice actualErrors)
      then \<lparr> T_failures = [''expected some errors: '' @ fmt_strings (ExpectedErrors tc) @
               '', got different errors: '' @ fmt_strings actualErrors], T_fatal = True \<rparr>
      else
        let t = \<lparr> failures = [], expecteds = ExpectedResults tc, actuals = actualResults \<rparr>;
            t = fold (expected_round marshal) [0..<length (expecteds t)] t;
            t = fold (actual_round marshal) [0..<length (actuals t)] t
        in \<lparr> T_failures = failures t, T_fatal = False \<rparr>)"

record simpleComparatorTest =
  simple_ComparatorTest :: ComparatorTest
  simple_registry :: crdComparatorRegistry

definition simpleComparatorTest_Test :: "marshaller \<Rightarrow> simpleComparatorTest \<Rightarrow> testing_T go" where
  "simpleComparatorTest_Test marshal tc =
     (case Registry_Compare (simple_registry tc) (test_ExistingCRD (simple_ComparatorTest tc))
            (test_NewCRD (simple_ComparatorTest tc)) [] of
        None \<Rightarrow> None
      | Some (actualResults, actualErrors) \<Rightarrow>
          Some (ComparatorTest_Test marshal (simple_ComparatorTest tc) actualResults actualErrors))"

section \<open>Tests from directories\<close>

text \<open>
  A Go call that may panic or return an error, followed by the rest of a function that returns
  the error as its own.
\<close>

definition go_try :: "(gerror + 'a) go \<Rightarrow> ('a \<Rightarrow> (gerror + 'b) go) \<Rightarrow> (gerror + 'b) go" where
  "go_try x f = (case x of None \<Rightarrow> None | Some (Inl err) \<Rightarrow> Some (Inl err) | Some (Inr a) \<Rightarrow> f a)"

lemma go_try_simps [simp]:
  "go_try None f = None" "go_try (Some (Inl err)) f = Some (Inl err)" "go_try (Some (Inr a)) f = f a"
  by (simp_all add: go_try_def)

lemma go_try_Inr_iff: "go_try x f = Some (Inr b) \<longleftrightarrow> (\<exists>a. x = Some (Inr a) \<and> f a = Some (Inr b))"
  by (simp add: go_try_def split: option.split sum.split)

text \<open>
  \<open>os.ReadFile\<close> of a file in a directory: its content, or an error that \<open>os.IsNotExist\<close> tells from
  the others. The file of an optional part may be missing.
\<close>

datatype file_read = Content string | Unreadable (is_not_exist: bool) (read_err: gerror)

type_synonym dir_reader = "string \<Rightarrow> string \<Rightarrow> file_read"

definition optional_bytes :: "file_read \<Rightarrow> gerror + string" where
  "optional_bytes r =
     (case r of Content bytes \<Rightarrow> Inr bytes | Unreadable notExist err \<Rightarrow> if \<not> notExist then Inl err else Inr [])"

definition required_bytes :: "file_read \<Rightarrow> gerror + string" where
  "required_bytes r = (case r of Content bytes \<Rightarrow> Inr bytes | Unreadable notExist err \<Rightarrow> Inl err)"

text \<open>
  \<open>bufio.Scanner\<close> with its default split function: the lines without their line ends, or an error
  when a line does not fit the buffer of 65536 bytes.
\<close>

fun raw_lines :: "string \<Rightarrow> string \<Rightarrow> string list" where
  "raw_lines [] line = (if line = [] then [] else [line])"
| "raw_lines (c # s) line = (if c = CHR 0x0A then line # raw_lines s [] else raw_lines s (line @ [c]))"

definition drop_cr :: "string \<Rightarrow> string" where
  "drop_cr line = (if line \<noteq> [] \<and> last line = CHR 0x0D then butlast line else line)"

definition scan_lines :: "string \<Rightarrow> gerror + string list" where
  "scan_lines s =
     (let lines = raw_lines s []
      in if list_ex (\<lambda>line. 65536 \<le> length line) lines then Inl ''bufio.Scanner: token too long''
         else Inr (map drop_cr lines))"

text \<open>\<open>yaml.Unmarshal\<close> into the items of a \<open>ComparisonResultsList\<close> is a parameter.\<close>

type_synonym results_unmarshaller = "string \<Rightarrow> gerror + ComparisonResults list"

definition TestInDir ::
  "dir_reader \<Rightarrow> decoder \<Rightarrow> results_unmarshaller \<Rightarrow> string \<Rightarrow> string \<Rightarrow> (gerror + ComparatorTest) go" where
  "TestInDir readFile decode unmarshal testName directory =
     go_try (Some (optional_bytes (readFile directory ''existing.yaml''))) (\<lambda>existingBytes.
     go_try (if length existingBytes > 0
             then map_option (map_sum id Some) (ReadCustomResourceDefinitionV1 decode existingBytes)
             else Some (Inr None)) (\<lambda>existing.
     go_try (Some (required_bytes (readFile directory ''new.yaml''))) (\<lambda>newBytes.
     go_try (ReadCustomResourceDefinitionV1 decode newBytes) (\<lambda>new.
     go_try (Some (optional_bytes (readFile directory ''expected.yaml''))) (\<lambda>expectedBytes.
     go_try (Some (if length expectedBytes > 0 then unmarshal expectedBytes else Inr [])) (\<lambda>expected.
     go_try (Some (optional_bytes (readFile directory ''errors.txt''))) (\<lambda>expectedErrorsBytes.
     go_try (Some (if length expectedErrorsBytes > 0 then scan_lines expectedErrorsBytes else Inr [])) (\<lambda>expectedErrors.
     Some (Inr \<lparr> test_Name = testName, test_ExistingCRD = existing, test_NewCRD = new,
       ExpectedResults = expected, ExpectedErrors = expectedErrors \<rparr>)))))))))"

text \<open>
  A directory tree as \<open>filepath.WalkDir\<close> sees it: the entries of a directory in lexical order, or
  the error of reading it. A path is the list of names from the root of the walk.
\<close>

datatype dir_entry = File_entry (entry_name: string) | Dir_entry (entry_name: string) "gerror + dir_entry list"

definition is_Dir :: "dir_entry \<Rightarrow> bool" where
  "is_Dir e = (case e of File_entry _ \<Rightarrow> False | Dir_entry _ _ \<Rightarrow> True)"

definition containsDir :: "gerror + dir_entry list \<Rightarrow> gerror + bool" where
  "containsDir entries = (case entries of Inl err \<Rightarrow> Inl err | Inr es \<Rightarrow> Inr (list_ex is_Dir es))"

text \<open>The function that the walk calls on a directory: a test for each directory without directories.\<close>

definition visit_directory ::
  "(string list \<Rightarrow> (gerror + ComparatorTest) go) \<Rightarrow> string list \<Rightarrow> gerror + dir_entry list \<Rightarrow> ComparatorTest list \<Rightarrow>
   (gerror + ComparatorTest list) go" where
  "visit_directory testInDir path entries ret =
     go_try (Some (containsDir entries)) (\<lambda>containsDirectory.
       if containsDirectory then Some (Inr ret)
       else go_try (testInDir path) (\<lambda>currTest. Some (Inr (ret @ [currTest]))))"

fun walk_entry ::
    "(string list \<Rightarrow> (gerror + ComparatorTest) go) \<Rightarrow> string list \<Rightarrow> dir_entry \<Rightarrow> ComparatorTest list \<Rightarrow>
     (gerror + ComparatorTest list) go"
  and walk_entries ::
    "(string list \<Rightarrow> (gerror + ComparatorTest) go) \<Rightarrow> string list \<Rightarrow> dir_entry list \<Rightarrow> ComparatorTest list \<Rightarrow>
     (gerror + ComparatorTest list) go" where
  "walk_entry testInDir path (File_entry name) ret = Some (Inr ret)"
| "walk_entry testInDir path (Dir_entry name (Inl err)) ret = visit_directory testInDir path (Inl err) ret"
| "walk_entry testInDir path (Dir_entry name (Inr es)) ret =
     (case visit_directory testInDir path (Inr es) ret of
        None \<Rightarrow> None
      | Some (Inl err) \<Rightarrow> Some (Inl err)
      | Some (Inr ret) \<Rightarrow> walk_entries testInDir path es ret)"
| "walk_entries testInDir path [] ret = Some (Inr ret)"
| "walk_entries testInDir path (e # es) ret =
     (case walk_entry testInDir (path @ [entry_name e]) e ret of
        None \<Rightarrow> None
      | Some (Inl err) \<Rightarrow> Some (Inl err)
      | Some (Inr ret) \<Rightarrow> walk_entries testInDir path es ret)"

text \<open>The relative path of a directory is the name of its test; the root is the dot.\<close>

definition relative_path :: "string list \<Rightarrow> string" where
  "relative_path path = (if path = [] then ''.'' else join_with ''/'' path)"

definition AllTestsInDir ::
  "dir_reader \<Rightarrow> decoder \<Rightarrow> results_unmarshaller \<Rightarrow> dir_entry \<Rightarrow> (gerror + ComparatorTest list) go" where
  "AllTestsInDir readFile decode unmarshal directory =
     walk_entry (\<lambda>path. TestInDir readFile decode unmarshal (relative_path path) (relative_path path)) [] directory []"

definition AllTestsInDirForRegistry ::
  "dir_reader \<Rightarrow> decoder \<Rightarrow> results_unmarshaller \<Rightarrow> crdComparatorRegistry \<Rightarrow> dir_entry \<Rightarrow>
   (gerror + simpleComparatorTest list) go" where
  "AllTestsInDirForRegistry readFile decode unmarshal registry directory =
     go_try (AllTestsInDir readFile decode unmarshal directory) (\<lambda>tests.
       Some (Inr (map (\<lambda>t. \<lparr> simple_ComparatorTest = t, simple_registry = registry \<rparr>) tests)))"

text \<open>The registry is built without looking at the error of \<open>AddComparator\<close>.\<close>

definition AllTestsInDirForComparators ::
  "dir_reader \<Rightarrow> decoder \<Rightarrow> results_unmarshaller \<Rightarrow> CRDComparator list \<Rightarrow> dir_entry \<Rightarrow>
   (gerror + simpleComparatorTest list) go" where
  "AllTestsInDirForComparators readFile decode unmarshal cs directory =
     AllTestsInDirForRegistry readFile decode unmarshal (fold (\<lambda>c r. snd (AddComparator r c)) cs NewRegistry) directory"

definition AllTestsInDirForComparator ::
  "dir_reader \<Rightarrow> decoder \<Rightarrow> results_unmarshaller \<Rightarrow> CRDComparator \<Rightarrow> dir_entry \<Rightarrow>
   (gerror + simpleComparatorTest list) go" where
  "AllTestsInDirForComparator readFile decode unmarshal comparator directory =
     AllTestsInDirForRegistry readFile decode unmarshal (snd (AddComparator NewRegistry comparator)) directory"

text \<open>The subtests run by \<open>t.Run\<close>, by name; the error of reading them is fatal.\<close>

definition run_tests ::
  "marshaller \<Rightarrow> (gerror + simpleComparatorTest list) go \<Rightarrow> (gerror + (string \<times> testing_T) list) go" where
  "run_tests marshal tests =
     go_try tests (\<lambda>tests.
       map_option Inr (range_do (\<lambda>test ret. do {
         t \<leftarrow> simpleComparatorTest_Test marshal test;
         Some (ret @ [(test_Name (simple_ComparatorTest test), t)])
       }) tests []))"

definition RunAllTestsInDirForRegistry where
  "RunAllTestsInDirForRegistry marshal readFile decode unmarshal registry directory =
     run_tests marshal (AllTestsInDirForRegistry readFile decode unmarshal registry directory)"

definition RunAllTestsInDirForComparators where
  "RunAllTestsInDirForComparators marshal readFile decode unmarshal cs directory =
     run_tests marshal (AllTestsInDirForComparators readFile decode unmarshal cs directory)"

definition RunAllTestsInDirForComparator where
  "RunAllTestsInDirForComparator marshal readFile decode unmarshal comparator directory =
     run_tests marshal (AllTestsInDirForComparator readFile decode unmarshal comparator directory)"

section \<open>Looking up a result\<close>

lemma findResults_loop_shift:
  "findResults_loop name rs i = map_option (\<lambda>j. i + j) (findResultsForComparator name rs)"
proof (induction rs arbitrary: i)
  case (Cons r rs)
  have "findResultsForComparator name rs' = findResults_loop name rs' 0" for rs'
    by (simp add: findResultsForComparator_def)
  with Cons [of "Suc i"] Cons [of "Suc 0"] show ?case
    by (simp add: option.map_comp comp_def)
qed (simp add: findResultsForComparator_def)

lemma findResultsForComparator_simps [simp]:
  "findResultsForComparator name [] = None"
  "findResultsForComparator name (r # rs) =
     (if Name r = name then Some 0 else map_option Suc (findResultsForComparator name rs))"
  using findResults_loop_shift [of name rs "Suc 0"] by (simp_all add: findResultsForComparator_def)

lemma findResults_None_iff: "findResultsForComparator name rs = None \<longleftrightarrow> name \<notin> Name ` set rs"
  by (induction rs) auto

lemma findResults_Some:
  "findResultsForComparator name rs = Some j \<Longrightarrow> j < length rs \<and> Name (rs ! j) = name"
  by (induction rs arbitrary: j) (auto split: if_splits)

lemma findResults_names:
  "map Name rs = map Name rs' \<Longrightarrow> findResultsForComparator name rs = findResultsForComparator name rs'"
proof (induction rs arbitrary: rs')
  case (Cons r rs)
  then show ?case by (cases rs') auto
qed simp

lemma findResults_nth:
  "distinct (map Name rs) \<Longrightarrow> j < length rs \<Longrightarrow> findResultsForComparator (Name (rs ! j)) rs = Some j"
proof (induction rs arbitrary: j)
  case (Cons r rs)
  then show ?case by (cases j) (auto dest: nth_mem)
qed simp

text \<open>The messages a list of results has under a name; none when the name does not occur.\<close>

definition messages_under :: "(ComparisonResults \<Rightarrow> string list) \<Rightarrow> string \<Rightarrow> ComparisonResults list \<Rightarrow> string list" where
  "messages_under get name rs = (case find (\<lambda>r. Name r = name) rs of None \<Rightarrow> [] | Some r \<Rightarrow> get r)"

lemma messages_under_find:
  "messages_under get name rs = (case findResultsForComparator name rs of None \<Rightarrow> [] | Some j \<Rightarrow> get (rs ! j))"
  by (induction rs) (auto simp: messages_under_def split: option.split)

section \<open>The rounds\<close>

text \<open>The results with the messages of the named ones sorted.\<close>

definition sort_named :: "string set \<Rightarrow> ComparisonResults list \<Rightarrow> ComparisonResults list" where
  "sort_named names rs = map (\<lambda>r. if Name r \<in> names then sort_messages r else r) rs"

lemma sort_messages_simps [simp]:
  "Name (sort_messages r) = Name r" "Errors (sort_messages r) = sort (Errors r)"
  "Warnings (sort_messages r) = sort (Warnings r)" "Infos (sort_messages r) = sort (Infos r)"
  by (simp_all add: sort_messages_def)

lemma sort_named_simps [simp]:
  "length (sort_named names rs) = length rs" "map Name (sort_named names rs) = map Name rs"
  "j < length rs \<Longrightarrow> sort_named names rs ! j = (if Name (rs ! j) \<in> names then sort_messages (rs ! j) else rs ! j)"
  by (simp_all add: sort_named_def)

lemma findResults_sort_named [simp]:
  "findResultsForComparator name (sort_named names rs) = findResultsForComparator name rs"
  by (rule findResults_names) simp

lemma sort_named_update:
  assumes "distinct (map Name rs)" and "j < length rs"
  shows "(sort_named names rs)[j := sort_messages (rs ! j)] = sort_named (insert (Name (rs ! j)) names) rs"
proof (rule nth_equalityI)
  fix k assume k: "k < length ((sort_named names rs)[j := sort_messages (rs ! j)])"
  then have "Name (rs ! k) = Name (rs ! j) \<longleftrightarrow> k = j"
    using assms nth_eq_iff_index_eq [OF assms(1)] by simp
  with k show "(sort_named names rs)[j := sort_messages (rs ! j)] ! k = sort_named (insert (Name (rs ! j)) names) rs ! k"
    using assms(2) by (simp add: nth_list_update)
qed simp

lemma mismatch_Nil [simp]: "mismatch what name eb ab xs ys = [] \<longleftrightarrow> xs = ys"
  by (auto simp: mismatch_def reflect_DeepEqual_def)

lemma mismatches_Nil [simp]:
  "mismatches eb ab e a = [] \<longleftrightarrow> Errors e = Errors a \<and> Warnings e = Warnings a \<and> Infos e = Infos a"
  by (simp add: mismatches_def)

definition same_messages :: "ComparisonResults \<Rightarrow> ComparisonResults \<Rightarrow> bool" where
  "same_messages e a \<longleftrightarrow> mset (Errors e) = mset (Errors a) \<and> mset (Warnings e) = mset (Warnings a) \<and>
     mset (Infos e) = mset (Infos a)"

lemma sort_eq_iff_mset: "sort xs = sort ys \<longleftrightarrow> mset xs = mset (ys :: 'a :: linorder list)"
  by (metis mset_sort properties_for_sort sorted_sort)

lemma mismatches_sorted:
  "mismatches eb ab (sort_messages e) (sort_messages a) = [] \<longleftrightarrow> same_messages e a"
  by (simp add: same_messages_def sort_eq_iff_mset)

text \<open>What one round adds to the failures.\<close>

definition expected_failures :: "marshaller \<Rightarrow> ComparisonResults list \<Rightarrow> ComparisonResults list \<Rightarrow> nat \<Rightarrow> string list" where
  "expected_failures marshal es as i =
     marshal_errors marshal (es ! i) @
     (case findResultsForComparator (Name (es ! i)) as of
        None \<Rightarrow> if no_messages (es ! i) then []
          else [missing_message (Name (es ! i)) (marshal_bytes marshal (es ! i))]
      | Some j \<Rightarrow> marshal_errors marshal (as ! j) @
          mismatches (marshal_bytes marshal (es ! i)) (marshal_bytes marshal (as ! j))
            (sort_messages (es ! i)) (sort_messages (as ! j)))"

definition actual_failures :: "marshaller \<Rightarrow> ComparisonResults list \<Rightarrow> ComparisonResults list \<Rightarrow> nat \<Rightarrow> string list" where
  "actual_failures marshal es as j =
     marshal_errors marshal (as ! j) @
     (case findResultsForComparator (Name (as ! j)) es of
        None \<Rightarrow> if no_messages (as ! j) then []
          else [extra_message (Name (as ! j)) (marshal_bytes marshal (as ! j))]
      | Some i \<Rightarrow> marshal_errors marshal (es ! i) @
          mismatches (marshal_bytes marshal (es ! i)) (marshal_bytes marshal (as ! j)) (es ! i) (as ! j))"

lemma expected_round_step:
  assumes "distinct (map Name es)" and "distinct (map Name as)" and "i < length es" and "Name (es ! i) \<notin> names"
  shows "expected_round marshal i \<lparr> failures = fs, expecteds = sort_named names es, actuals = sort_named names as \<rparr> =
    (let names' = (if Name (es ! i) \<in> Name ` set as then insert (Name (es ! i)) names else names)
     in \<lparr> failures = fs @ expected_failures marshal es as i,
          expecteds = sort_named names' es, actuals = sort_named names' as \<rparr>)"
proof (cases "findResultsForComparator (Name (es ! i)) as")
  case None
  then have "Name (es ! i) \<notin> Name ` set as" by (metis findResults_None_iff)
  with None assms(3,4) show ?thesis
    by (simp add: expected_round_def expected_failures_def no_messages_def Let_def)
next
  case (Some j)
  then have j: "j < length as" "Name (as ! j) = Name (es ! i)" by (auto dest: findResults_Some)
  have "Name (es ! i) \<in> Name ` set as" using Some findResults_None_iff [of "Name (es ! i)" as] by auto
  with Some assms(3,4) j sort_named_update [OF assms(1,3), of names] sort_named_update [OF assms(2) j(1), of names]
  show ?thesis by (simp add: expected_round_def expected_failures_def Let_def)
qed

lemma expected_rounds:
  assumes "distinct (map Name es)" and "distinct (map Name as)" and "n \<le> length es"
  shows "fold (expected_round marshal) [0..<n] \<lparr> failures = [], expecteds = es, actuals = as \<rparr> =
    (let names = Name ` set (take n es) \<inter> Name ` set as
     in \<lparr> failures = concat (map (expected_failures marshal es as) [0..<n]),
          expecteds = sort_named names es, actuals = sort_named names as \<rparr>)"
  using assms(3)
proof (induction n)
  case 0
  have "sort_named {} rs = rs" for rs by (simp add: sort_named_def)
  then show ?case by simp
next
  case (Suc n)
  then have n: "n < length es" by simp
  have take: "take (Suc n) es = take n es @ [es ! n]" using n by (simp add: take_Suc_conv_app_nth)
  have "Name (es ! n) \<notin> Name ` set (take n es)"
    using distinct_take [OF assms(1), of "Suc n"] by (simp add: take_map take)
  then show ?case
    using Suc.IH n expected_round_step [OF assms(1,2) n, of "Name ` set (take n es) \<inter> Name ` set as" marshal]
    by (simp add: take Let_def Int_insert_left)
qed

lemma actual_rounds:
  "fold (actual_round marshal) [0..<n] \<lparr> failures = fs, expecteds = es, actuals = as \<rparr> =
   \<lparr> failures = fs @ concat (map (actual_failures marshal es as) [0..<n]), expecteds = es, actuals = as \<rparr>"
  by (induction n) (auto simp: actual_round_def actual_failures_def no_messages_def Let_def split: option.split)

lemma Test_failures:
  assumes "distinct (map Name (ExpectedResults tc))" and "distinct (map Name as)" and "ExpectedErrors tc = []"
  shows "T_failures (ComparatorTest_Test marshal tc as []) =
    (let es = ExpectedResults tc; names = Name ` set es \<inter> Name ` set as
     in concat (map (expected_failures marshal es as) [0..<length es]) @
        concat (map (actual_failures marshal (sort_named names es) (sort_named names as)) [0..<length as]))"
  using expected_rounds [OF assms(1,2) order.refl, of marshal] assms(3)
  by (simp add: ComparatorTest_Test_def actual_rounds Let_def)

text \<open>The expected and the actual messages under a name, up to their order.\<close>

definition agree_on :: "ComparisonResults list \<Rightarrow> ComparisonResults list \<Rightarrow> string \<Rightarrow> bool" where
  "agree_on es as name \<longleftrightarrow>
     mset (messages_under Errors name es) = mset (messages_under Errors name as) \<and>
     mset (messages_under Warnings name es) = mset (messages_under Warnings name as) \<and>
     mset (messages_under Infos name es) = mset (messages_under Infos name as)"

lemma messages_under_nth:
  "distinct (map Name rs) \<Longrightarrow> j < length rs \<Longrightarrow> messages_under get (Name (rs ! j)) rs = get (rs ! j)"
  by (simp add: messages_under_find findResults_nth)

lemma expected_failures_Nil:
  assumes "distinct (map Name es)" and "i < length es" and "\<And>r. marshal_errors marshal r = []"
  shows "expected_failures marshal es as i = [] \<longleftrightarrow> agree_on es as (Name (es ! i))"
  using assms
  by (cases "findResultsForComparator (Name (es ! i)) as")
    (simp_all add: expected_failures_def agree_on_def messages_under_nth messages_under_find [where rs = as]
      no_messages_def sort_eq_iff_mset)

lemma actual_failures_Nil:
  assumes "distinct (map Name es)" and "distinct (map Name as)" and "j < length as"
    and "\<And>r. marshal_errors marshal r = []" and "names = Name ` set es \<inter> Name ` set as"
  shows "actual_failures marshal (sort_named names es) (sort_named names as) j = [] \<longleftrightarrow> agree_on es as (Name (as ! j))"
proof (cases "findResultsForComparator (Name (as ! j)) es")
  case None
  then have "Name (as ! j) \<notin> Name ` set es" by (metis findResults_None_iff)
  with None assms show ?thesis
    by (simp add: actual_failures_def agree_on_def messages_under_nth messages_under_find [where rs = es] no_messages_def)
next
  case (Some i)
  then have i: "i < length es" "Name (es ! i) = Name (as ! j)" by (auto dest: findResults_Some)
  have "Name (as ! j) \<in> names"
    using i assms(3,5) by (metis IntI image_eqI nth_mem)
  with Some i assms show ?thesis
    by (simp add: actual_failures_def agree_on_def messages_under_nth messages_under_find [where rs = es]
        sort_eq_iff_mset)
qed

lemma agree_on_absent: "name \<notin> Name ` set es \<Longrightarrow> name \<notin> Name ` set as \<Longrightarrow> agree_on es as name"
proof -
  assume "name \<notin> Name ` set es" "name \<notin> Name ` set as"
  then have "findResultsForComparator name es = None" "findResultsForComparator name as = None"
    by (simp_all only: findResults_None_iff not_False_eq_True)
  then show "agree_on es as name" by (simp add: agree_on_def messages_under_find)
qed

lemma concat_map_upt_Nil: "concat (map f [0..<n]) = [] \<longleftrightarrow> (\<forall>i<n. f i = [])"
  by auto

lemma Test_passes:
  assumes "distinct (map Name (ExpectedResults tc))" and "distinct (map Name as)"
    and "\<And>r. marshal_errors marshal r = []"
  shows "passed (ComparatorTest_Test marshal tc as errs) \<longleftrightarrow>
    ExpectedErrors tc = [] \<and> errs = [] \<and> (\<forall>name. agree_on (ExpectedResults tc) as name)"
proof (cases "ExpectedErrors tc = [] \<and> errs = []")
  case True
  let ?es = "ExpectedResults tc"
  have "passed (ComparatorTest_Test marshal tc as []) \<longleftrightarrow>
      (\<forall>i<length ?es. agree_on ?es as (Name (?es ! i))) \<and> (\<forall>j<length as. agree_on ?es as (Name (as ! j)))"
    using True unfolding passed_def
    by (simp add: Test_failures [OF assms(1,2)] Let_def concat_map_upt_Nil expected_failures_Nil [OF assms(1) _ assms(3)]
        actual_failures_Nil [OF assms(1,2) _ assms(3) refl] del: concat_eq_Nil_conv cong: all_cong)
  also have "\<dots> \<longleftrightarrow> (\<forall>name. agree_on ?es as name)"
    using agree_on_absent [of _ ?es as] by (metis imageE in_set_conv_nth)
  finally show ?thesis using True by simp
qed (auto simp: passed_def ComparatorTest_Test_def reflect_DeepEqual_def)

section \<open>The walk collects the leaf directories\<close>

text \<open>The directories without directories, in the order of the walk.\<close>

fun leaf_dirs :: "string list \<Rightarrow> dir_entry \<Rightarrow> string list list"
  and leaf_dirs_of :: "string list \<Rightarrow> dir_entry list \<Rightarrow> string list list" where
  "leaf_dirs path (File_entry name) = []"
| "leaf_dirs path (Dir_entry name (Inl err)) = []"
| "leaf_dirs path (Dir_entry name (Inr es)) = (if list_ex is_Dir es then leaf_dirs_of path es else [path])"
| "leaf_dirs_of path [] = []"
| "leaf_dirs_of path (e # es) = leaf_dirs (path @ [entry_name e]) e @ leaf_dirs_of path es"

text \<open>Every directory of the tree can be read.\<close>

fun readable :: "dir_entry \<Rightarrow> bool" and readable_all :: "dir_entry list \<Rightarrow> bool" where
  "readable (File_entry name) = True"
| "readable (Dir_entry name (Inl err)) = False"
| "readable (Dir_entry name (Inr es)) = readable_all es"
| "readable_all [] = True"
| "readable_all (e # es) = (readable e \<and> readable_all es)"

text \<open>The tests of a list of directories, or the first failure.\<close>

fun tests_at :: "(string list \<Rightarrow> (gerror + ComparatorTest) go) \<Rightarrow> string list list \<Rightarrow> ComparatorTest list \<Rightarrow>
    (gerror + ComparatorTest list) go" where
  "tests_at testInDir [] ret = Some (Inr ret)"
| "tests_at testInDir (path # paths) ret = go_try (testInDir path) (\<lambda>t. tests_at testInDir paths (ret @ [t]))"

lemma tests_at_append:
  "tests_at testInDir (ps @ qs) ret = go_try (tests_at testInDir ps ret) (tests_at testInDir qs)"
proof (induction ps arbitrary: ret)
  case (Cons p ps)
  then show ?case by (cases "testInDir p" rule: option.exhaust; simp add: go_try_def split: sum.split)
qed simp

lemma tests_at_Inr_iff:
  "tests_at testInDir paths ret = Some (Inr tests) \<longleftrightarrow>
   (\<exists>ts. tests = ret @ ts \<and> list_all2 (\<lambda>path t. testInDir path = Some (Inr t)) paths ts)"
  by (induction paths arbitrary: ret) (auto simp: go_try_Inr_iff list_all2_Cons1)

lemma walk_files: "\<not> list_ex is_Dir es \<Longrightarrow> walk_entries testInDir path es ret = Some (Inr ret)"
proof (induction es arbitrary: ret)
  case (Cons e es)
  then show ?case by (cases e) (auto simp: is_Dir_def)
qed simp

lemma walk_entry_collects:
  "readable e \<Longrightarrow> walk_entry testInDir path e ret = tests_at testInDir (leaf_dirs path e) ret"
  "readable_all es \<Longrightarrow> walk_entries testInDir path es ret = tests_at testInDir (leaf_dirs_of path es) ret"
proof (induction testInDir path e ret and testInDir path es ret rule: walk_entry_walk_entries.induct)
  case (3 testInDir path name es ret)
  then show ?case
    by (cases "list_ex is_Dir es"; cases "testInDir path" rule: option.exhaust)
      (auto simp: visit_directory_def containsDir_def walk_files go_try_def split: sum.split)
next
  case (5 testInDir path e es ret)
  then show ?case
    by (auto simp: tests_at_append go_try_def split: option.split sum.split)
qed simp_all

section \<open>Properties\<close>

text \<open>
  C19. A test over results with different names passes exactly when no errors are expected, the
  comparison gave none, and under every name the expected and the actual errors, warnings and
  infos are the same up to order; a name without results counts as one without messages.
\<close>

theorem comparator_test_passes_iff:
  assumes "distinct (map Name (ExpectedResults tc))" and "distinct (map Name actualResults)"
    and "\<And>r. \<exists>bytes. marshal r = Inr bytes"
  shows "passed (ComparatorTest_Test marshal tc actualResults actualErrors) \<longleftrightarrow>
    ExpectedErrors tc = [] \<and> actualErrors = [] \<and>
    (\<forall>name. mset (messages_under Errors name (ExpectedResults tc)) = mset (messages_under Errors name actualResults) \<and>
       mset (messages_under Warnings name (ExpectedResults tc)) = mset (messages_under Warnings name actualResults) \<and>
       mset (messages_under Infos name (ExpectedResults tc)) = mset (messages_under Infos name actualResults))"
proof -
  have "marshal_errors marshal r = []" for r
    using assms(3) [of r] by (auto simp: marshal_errors_def)
  from Test_passes [OF assms(1,2) this] show ?thesis by (simp add: agree_on_def)
qed

definition plain_test :: "ComparisonResults list \<Rightarrow> string list \<Rightarrow> ComparatorTest" where
  "plain_test results errors = \<lparr> test_Name = ''plain'', test_ExistingCRD = None, test_NewCRD = empty_crd,
     ExpectedResults = results, ExpectedErrors = errors \<rparr>"

definition bare_marshal :: marshaller where
  "bare_marshal r = Inr (Name r)"

lemma plain_test_simps [simp]:
  "ExpectedResults (plain_test rs es) = rs" "ExpectedErrors (plain_test rs es) = es"
  by (simp_all add: plain_test_def)

theorem comparator_test_passes_iff_witness:
  "passed (ComparatorTest_Test bare_marshal (plain_test [loud_results\<lparr>Errors := [''b'', ''a'']\<rparr>] [])
     [loud_results\<lparr>Errors := [''a'', ''b'']\<rparr>, zero_results] []) \<and>
   \<not> passed (ComparatorTest_Test bare_marshal (plain_test [] []) [loud_results] [])"
proof -
  have total: "\<exists>bytes. bare_marshal r = Inr bytes" for r by (simp add: bare_marshal_def)
  have "messages_under get name [loud_results\<lparr>Errors := es\<rparr>] =
      (if name = ''A'' then get (loud_results\<lparr>Errors := es\<rparr>) else [])"
    and "messages_under get name [loud_results\<lparr>Errors := es\<rparr>, zero_results] =
      (if name = ''A'' then get (loud_results\<lparr>Errors := es\<rparr>) else if name = [] then get zero_results else [])"
    for get name es
    by (auto simp: messages_under_def loud_results_def zero_results_def)
  then have "passed (ComparatorTest_Test bare_marshal (plain_test [loud_results\<lparr>Errors := [''b'', ''a'']\<rparr>] [])
     [loud_results\<lparr>Errors := [''a'', ''b'']\<rparr>, zero_results] [])"
    using comparator_test_passes_iff [of "plain_test [loud_results\<lparr>Errors := [''b'', ''a'']\<rparr>] []"
      "[loud_results\<lparr>Errors := [''a'', ''b'']\<rparr>, zero_results]" bare_marshal "[]"] total
    by (simp add: loud_results_def zero_results_def)
  moreover have "\<not> passed (ComparatorTest_Test bare_marshal (plain_test [] []) [loud_results] [])"
    using comparator_test_passes_iff [of "plain_test [] []" "[loud_results]" bare_marshal "[]"] total
    by (auto simp: messages_under_def loud_results_def)
  ultimately show ?thesis ..
qed

text \<open>
  A test that expects errors fails whatever the comparators do: without errors it is told so, and
  with errors the strings are compared with error values, which never are deeply equal.
\<close>

theorem test_expecting_errors_fails:
  assumes "ExpectedErrors tc \<noteq> []"
  shows "T_fatal (ComparatorTest_Test marshal tc actualResults actualErrors) \<and>
    \<not> passed (ComparatorTest_Test marshal tc actualResults actualErrors)"
  using assms by (simp add: ComparatorTest_Test_def passed_def reflect_DeepEqual_def)

text \<open>
  C40. The tests read from a tree of readable directories are those of the directories without
  directories, one each in the order of the walk, and the reading succeeds exactly when each of
  them can be read.
\<close>

theorem AllTestsInDir_reads_leaves:
  assumes "readable directory"
  shows "AllTestsInDir readFile decode unmarshal directory = Some (Inr tests) \<longleftrightarrow>
    list_all2 (\<lambda>path t. TestInDir readFile decode unmarshal (relative_path path) (relative_path path) = Some (Inr t))
      (leaf_dirs [] directory) tests"
  using assms by (simp add: AllTestsInDir_def walk_entry_collects tests_at_Inr_iff)

definition new_only :: dir_reader where
  "new_only directory file =
     (if file = ''new.yaml'' then Content directory else Unreadable True (file @ '': no such file''))"

definition test_tree :: dir_entry where
  "test_tree = Dir_entry ''tests'' (Inr [File_entry ''README'',
     Dir_entry ''a'' (Inr [Dir_entry ''b'' (Inr [File_entry ''new.yaml''])]), Dir_entry ''c'' (Inr [])])"

theorem AllTestsInDir_reads_leaves_witness:
  "AllTestsInDir new_only (\<lambda>_. Inr (CRD_object empty_crd)) (\<lambda>_. Inr []) test_tree =
     Some (Inr [(plain_test [] [])\<lparr>test_Name := ''a/b''\<rparr>, (plain_test [] [])\<lparr>test_Name := ''c''\<rparr>])"
proof -
  have "readable test_tree" by (simp add: test_tree_def)
  moreover have "leaf_dirs [] test_tree = [[''a'', ''b''], [''c'']]"
    by (simp add: test_tree_def is_Dir_def)
  moreover have "TestInDir new_only (\<lambda>_. Inr (CRD_object empty_crd)) (\<lambda>_. Inr []) name dir =
      Some (Inr ((plain_test [] [])\<lparr>test_Name := name\<rparr>))" if "dir \<noteq> []" for name dir
    using that by (simp add: TestInDir_def new_only_def optional_bytes_def required_bytes_def
        ReadCustomResourceDefinitionV1_def plain_test_def)
  ultimately show ?thesis
    using AllTestsInDir_reads_leaves [of test_tree new_only "\<lambda>_. Inr (CRD_object empty_crd)" "\<lambda>_. Inr []"]
    by (simp add: relative_path_def)
qed

end
