(* ===== verification/Admission_Tester.thy ===== *)
theory Admission_Tester
  imports Admission Results_Tester
begin

text \<open>
  \<open>admission_tester.go\<close>: the directory-style tests run against a served hook. A test sends its two
  CRDs in an admission request, reads the results back from the causes and the warnings of the
  response, and hands them to \<open>ComparatorTest.Test\<close>. The theory shows that the reading undoes what
  the hook writes.
\<close>

section \<open>The request\<close>

text \<open>Writing a CRD as JSON is a parameter.\<close>

definition admission_request :: "(CRD \<Rightarrow> string) \<Rightarrow> ComparatorTest \<Rightarrow> AdmissionRequest" where
  "admission_request encode tc =
     (let request = \<lparr> Operation = [], SubResource = [], resource_Group = ''apiextensions.k8s.io'',
        Object_Raw = encode (test_NewCRD tc), OldObject_Raw = [] \<rparr>
      in case test_ExistingCRD tc of
           None \<Rightarrow> request\<lparr>Operation := ''CREATE''\<rparr>
         | Some existing \<Rightarrow> request\<lparr>Operation := ''UPDATE'', OldObject_Raw := encode existing\<rparr>)"

lemma admission_request_simps [simp]:
  "in_scope (admission_request encode tc)"
  "Object_Raw (admission_request encode tc) = encode (test_NewCRD tc)"
  by (cases "test_ExistingCRD tc"; simp add: admission_request_def in_scope_def Let_def)+

section \<open>Reading the response\<close>

text \<open>The map \<open>comparatorNameToResults\<close>; a missing entry reads as the zero results.\<close>

type_synonym results_map = "(string \<times> ComparisonResults) list"

definition results_at :: "results_map \<Rightarrow> string \<Rightarrow> ComparisonResults" where
  "results_at m name = (case map_of m name of None \<Rightarrow> zero_results | Some r \<Rightarrow> r)"

text \<open>
  The four statements that add a message: read the entry, set its name, append with \<open>f\<close>, write it
  back.
\<close>

definition note_message :: "(ComparisonResults \<Rightarrow> ComparisonResults) \<Rightarrow> string \<Rightarrow> results_map \<Rightarrow> results_map" where
  "note_message f name m = AList.update name (f ((results_at m name)\<lparr>Name := name\<rparr>)) m"

definition note_error :: "string \<Rightarrow> string \<Rightarrow> results_map \<Rightarrow> results_map" where
  "note_error msg = note_message (\<lambda>r. r\<lparr>Errors := Errors r @ [msg]\<rparr>)"

definition note_warning :: "string \<Rightarrow> string \<Rightarrow> results_map \<Rightarrow> results_map" where
  "note_warning msg = note_message (\<lambda>r. r\<lparr>Warnings := Warnings r @ [msg]\<rparr>)"

definition note_info :: "string \<Rightarrow> string \<Rightarrow> results_map \<Rightarrow> results_map" where
  "note_info msg = note_message (\<lambda>r. r\<lparr>Infos := Infos r @ [msg]\<rparr>)"

definition read_cause :: "StatusCause \<Rightarrow> gerror list \<times> results_map \<Rightarrow> gerror list \<times> results_map" where
  "read_cause cause = (\<lambda>(actualErrors, m).
     let name = cause_Type cause
     in if name = ''EvaluationError'' then (actualErrors @ [cause_Message cause], m)
        else (actualErrors, note_error (cause_Message cause) name m))"

text \<open>The name of \<open>Unquote\<close>, which is empty after an error, and the failure that is logged then.\<close>

definition unquoted_name :: "string \<Rightarrow> string" where
  "unquoted_name s = (case Unquote s of None \<Rightarrow> [] | Some name \<Rightarrow> name)"

definition unquote_failure :: "string \<Rightarrow> string \<Rightarrow> string list" where
  "unquote_failure s shown =
     (case Unquote s of
        None \<Rightarrow> [''failed to unquote '' @ Quote shown @ '', has the response change?: invalid syntax'']
      | Some name \<Rightarrow> [])"

text \<open>One warning; an index past the parts is a panic.\<close>

definition read_warning :: "string \<Rightarrow> string list \<times> results_map \<Rightarrow> (string list \<times> results_map) go" where
  "read_warning warning = (\<lambda>(fails, m).
     if prefix ''fyi: '' warning then
       (case SplitN warning CHR '':'' 3 of
          [_, quoted, msg] \<Rightarrow>
            Some (fails @ unquote_failure (TrimSpace quoted) quoted,
              note_info (TrimSpace msg) (unquoted_name (TrimSpace quoted)) m)
        | _ \<Rightarrow> None)
     else
       (case SplitN warning CHR '':'' 2 of
          [quoted, msg] \<Rightarrow>
            Some (fails @ unquote_failure quoted msg, note_warning (TrimSpace msg) (unquoted_name quoted) m)
        | _ \<Rightarrow> None))"

text \<open>
  What the test reads from a response: the failures it logs on the way, the results, and the
  evaluation errors. The results come in the order of the list that stands for the map.
\<close>

definition read_response :: "AdmissionResponse \<Rightarrow> (string list \<times> ComparisonResults list \<times> gerror list) go" where
  "read_response response =
     (let (actualErrors, m) =
        (case Result response of
           None \<Rightarrow> ([], [])
         | Some result \<Rightarrow> (case Details result of None \<Rightarrow> ([], []) | Some causes \<Rightarrow> fold read_cause causes ([], [])))
      in do {
        (fails, m) \<leftarrow> range_do read_warning (response_Warnings response) ([], m);
        Some (fails, map snd m, actualErrors)
      })"

text \<open>
  The round trip to the server is a parameter: the error of encoding, posting or decoding, or the
  UID and the response that came back, if there is one.
\<close>

type_synonym admission_server = "string \<Rightarrow> AdmissionRequest \<Rightarrow> gerror + (string \<times> AdmissionResponse) option"

definition admissionComparatorTest_Test ::
  "marshaller \<Rightarrow> (CRD \<Rightarrow> string) \<Rightarrow> admission_server \<Rightarrow> string \<Rightarrow> ComparatorTest \<Rightarrow> testing_T go" where
  "admissionComparatorTest_Test marshal encode server uid tc =
     (case server uid (admission_request encode tc) of
        Inl err \<Rightarrow> Some \<lparr> T_failures = [err], T_fatal = True \<rparr>
      | Inr None \<Rightarrow> None
      | Inr (Some (actualUID, response)) \<Rightarrow>
          if actualUID \<noteq> uid
          then Some \<lparr> T_failures = [''mismatch of UID: sent '' @ uid @ '', got '' @ actualUID], T_fatal = True \<rparr>
          else do {
            (fails, actualResults, actualErrors) \<leftarrow> read_response response;
            let t = ComparatorTest_Test marshal tc actualResults actualErrors;
            Some (t\<lparr>T_failures := fails @ T_failures t\<rparr>)
          })"

section \<open>The map of results\<close>

definition results_map_ok :: "results_map \<Rightarrow> bool" where
  "results_map_ok m \<longleftrightarrow> distinct (map fst m) \<and> (\<forall>(name, r)\<in>set m. Name r = name)"

lemma results_at_note_message:
  "results_at (note_message f name m) k =
   (if k = name then f ((results_at m name)\<lparr>Name := name\<rparr>) else results_at m k)"
  by (simp add: note_message_def results_at_def update_conv')

lemma results_map_ok_note_message:
  assumes "results_map_ok m" and "\<And>r. Name (f r) = Name r"
  shows "results_map_ok (note_message f name m)"
proof -
  have update: "\<forall>e\<in>set (AList.update k v xs). Name (snd e) = fst e"
    if "\<forall>e\<in>set xs. Name (snd e) = fst e" "Name v = k" for k v and xs :: results_map
    using that by (induction xs) auto
  from assms(1) have "distinct (map fst m)" "\<forall>e\<in>set m. Name (snd e) = fst e"
    by (auto simp: results_map_ok_def)
  with update [of m "f ((results_at m name)\<lparr>Name := name\<rparr>)" name] assms(2) show ?thesis
    by (simp add: results_map_ok_def note_message_def distinct_update case_prod_beta)
qed

lemma messages_under_results_map:
  assumes "results_map_ok m" and "get zero_results = []"
  shows "messages_under get name (map snd m) = get (results_at m name)"
  using assms(1)
proof (induction m)
  case Nil
  then show ?case by (simp add: messages_under_def results_at_def assms(2))
next
  case (Cons e m)
  then show ?case
    by (cases e) (auto simp: messages_under_def results_at_def results_map_ok_def)
qed

lemma distinct_results_map: "results_map_ok m \<Longrightarrow> distinct (map Name (map snd m))"
proof -
  assume ok: "results_map_ok m"
  then have "map Name (map snd m) = map fst m" by (auto simp: results_map_ok_def)
  with ok show ?thesis by (simp add: results_map_ok_def del: map_map)
qed

section \<open>Reading what the hook wrote\<close>

text \<open>The messages of one kind with the names they go under.\<close>

definition message_pairs :: "(ComparisonResults \<Rightarrow> string list) \<Rightarrow> ComparisonResults list \<Rightarrow> (string \<times> string) list" where
  "message_pairs get rs = concat (map (\<lambda>r. map (Pair (Name r)) (get r)) rs)"

lemma message_pairs_texts:
  "error_causes rs = map (\<lambda>(n, msg). \<lparr> cause_Type = n, cause_Message = msg \<rparr>) (message_pairs Errors rs)"
  "warning_texts rs = map (\<lambda>(n, msg). Quote n @ '': '' @ msg) (message_pairs Warnings rs)"
  "info_texts rs = map (\<lambda>(n, msg). ''fyi: '' @ Quote n @ '': '' @ msg) (message_pairs Infos rs)"
  by (simp_all add: error_causes_def warning_texts_def info_texts_def message_pairs_def map_concat comp_def)

lemma message_pairs_in: "(n, msg) \<in> set (message_pairs get rs) \<longleftrightarrow> (\<exists>r\<in>set rs. Name r = n \<and> msg \<in> set (get r))"
  by (auto simp: message_pairs_def)

definition pairs_under :: "string \<Rightarrow> (string \<times> string) list \<Rightarrow> string list" where
  "pairs_under name ps = map snd (filter (\<lambda>p. fst p = name) ps)"

lemma pairs_under_message_pairs:
  "distinct (map Name rs) \<Longrightarrow> pairs_under name (message_pairs get rs) = messages_under get name rs"
proof (induction rs)
  case (Cons r rs)
  have "pairs_under name (map (Pair (Name r)) ms) = (if Name r = name then ms else [])" for ms
    by (induction ms) (auto simp: pairs_under_def)
  moreover have "messages_under get name rs = []" if "name \<notin> Name ` set rs"
    using that by (induction rs) (auto simp: messages_under_def)
  ultimately show ?case
    using Cons by (auto simp: message_pairs_def pairs_under_def messages_under_def)
qed (simp add: message_pairs_def pairs_under_def messages_under_def)

abbreviation note_pairs :: "(string \<Rightarrow> string \<Rightarrow> results_map \<Rightarrow> results_map) \<Rightarrow> (string \<times> string) list \<Rightarrow> results_map \<Rightarrow> results_map" where
  "note_pairs note ps \<equiv> fold (\<lambda>(n, msg). note msg n) ps"

lemma note_errors:
  "Errors (results_at (note_pairs note_error ps m) k) = Errors (results_at m k) @ pairs_under k ps \<and>
   Warnings (results_at (note_pairs note_error ps m) k) = Warnings (results_at m k) \<and>
   Infos (results_at (note_pairs note_error ps m) k) = Infos (results_at m k) \<and>
   (results_map_ok m \<longrightarrow> results_map_ok (note_pairs note_error ps m))"
  by (induction ps arbitrary: m)
    (auto simp: note_error_def results_at_note_message pairs_under_def results_map_ok_note_message)

lemma note_warnings:
  "Errors (results_at (note_pairs note_warning ps m) k) = Errors (results_at m k) \<and>
   Warnings (results_at (note_pairs note_warning ps m) k) = Warnings (results_at m k) @ pairs_under k ps \<and>
   Infos (results_at (note_pairs note_warning ps m) k) = Infos (results_at m k) \<and>
   (results_map_ok m \<longrightarrow> results_map_ok (note_pairs note_warning ps m))"
  by (induction ps arbitrary: m)
    (auto simp: note_warning_def results_at_note_message pairs_under_def results_map_ok_note_message)

lemma note_infos:
  "Errors (results_at (note_pairs note_info ps m) k) = Errors (results_at m k) \<and>
   Warnings (results_at (note_pairs note_info ps m) k) = Warnings (results_at m k) \<and>
   Infos (results_at (note_pairs note_info ps m) k) = Infos (results_at m k) @ pairs_under k ps \<and>
   (results_map_ok m \<longrightarrow> results_map_ok (note_pairs note_info ps m))"
  by (induction ps arbitrary: m)
    (auto simp: note_info_def results_at_note_message pairs_under_def results_map_ok_note_message)

lemma read_causes:
  assumes "\<forall>p\<in>set ps. fst p \<noteq> ''EvaluationError''"
  shows "fold read_cause (map (\<lambda>(n, msg). \<lparr> cause_Type = n, cause_Message = msg \<rparr>) ps) (errs, m) =
    (errs, note_pairs note_error ps m)"
  using assms by (induction ps arbitrary: m) (auto simp: read_cause_def)

lemma trimmed_Quote: "trimmed (Quote n)"
  by (rule trimmed_ends) (simp_all add: Quote_def space_codes_def)

lemma read_warning_text:
  assumes "CHR '':'' \<notin> set n" and "trimmed msg"
  shows "read_warning (Quote n @ '': '' @ msg) (fails, m) = Some (fails, note_warning msg n m)"
proof -
  have "\<not> prefix ''fyi: '' (Quote n @ s)" for s by (simp add: Quote_def)
  moreover have "SplitN (Quote n @ CHR '':'' # CHR '' '' # msg) CHR '':'' 2 = [Quote n, CHR '' '' # msg]"
    using SplitN_at [OF colon_Quote [OF assms(1)], where n = 0] by (simp add: numeral_2_eq_2)
  ultimately show ?thesis
    using assms(2) by (simp add: read_warning_def unquote_failure_def unquoted_name_def Unquote_Quote TrimSpace_space)
qed

lemma read_info_text:
  assumes "CHR '':'' \<notin> set n" and "trimmed msg"
  shows "read_warning (''fyi: '' @ Quote n @ '': '' @ msg) (fails, m) = Some (fails, note_info msg n m)"
proof -
  have "SplitN (''fyi'' @ CHR '':'' # (CHR '' '' # Quote n) @ CHR '':'' # CHR '' '' # msg) CHR '':'' 3 =
      [''fyi'', CHR '' '' # Quote n, CHR '' '' # msg]"
    using colon_Quote [OF assms(1)] SplitN_at [of "CHR '':''" "''fyi''" _ 1] SplitN_at [of "CHR '':''" "CHR '' '' # Quote n" _ 0]
    by (simp add: numeral_3_eq_3)
  then show ?thesis
    using assms(2)
    by (simp add: read_warning_def unquote_failure_def unquoted_name_def Unquote_Quote TrimSpace_space trimmed_Quote)
qed

lemma read_warnings:
  assumes "\<forall>(n, msg)\<in>set ps. CHR '':'' \<notin> set n \<and> trimmed msg"
  shows "range_do read_warning (map (\<lambda>(n, msg). Quote n @ '': '' @ msg) ps) (fails, m) =
    Some (fails, note_pairs note_warning ps m)"
  using assms by (induction ps arbitrary: m) (auto simp: read_warning_text simp del: append_Cons append.simps)

lemma read_infos:
  assumes "\<forall>(n, msg)\<in>set ps. CHR '':'' \<notin> set n \<and> trimmed msg"
  shows "range_do read_warning (map (\<lambda>(n, msg). ''fyi: '' @ Quote n @ '': '' @ msg) ps) (fails, m) =
    Some (fails, note_pairs note_info ps m)"
  using assms by (induction ps arbitrary: m) (auto simp: read_info_text simp del: append_Cons append.simps)

section \<open>The whole response\<close>

text \<open>
  What a list of results has to satisfy to survive the way through the response: different names
  of ASCII characters, none the type of evaluation errors and none with a colon, and warnings and
  infos without surrounding white space.
\<close>

definition plain_name :: "string \<Rightarrow> bool" where
  "plain_name n \<longleftrightarrow> n \<noteq> ''EvaluationError'' \<and> CHR '':'' \<notin> set n \<and> list_all (\<lambda>c. byte_value c < 128) n"

definition transmissible :: "ComparisonResults list \<Rightarrow> bool" where
  "transmissible rs \<longleftrightarrow> distinct (map Name rs) \<and>
     (\<forall>r\<in>set rs. plain_name (Name r) \<and>
        (\<forall>msg\<in>set (Warnings r) \<union> set (Infos r). trimmed msg))"

lemma read_compared_response:
  assumes "transmissible rs"
  shows "\<exists>m. read_response (compared_response (rs, [])) = Some ([], map snd m, []) \<and> results_map_ok m \<and>
    (\<forall>k. Errors (results_at m k) = messages_under Errors k rs \<and>
         Warnings (results_at m k) = messages_under Warnings k rs \<and>
         Infos (results_at m k) = messages_under Infos k rs)"
proof -
  let ?m1 = "note_pairs note_error (message_pairs Errors rs) []"
  let ?m2 = "note_pairs note_warning (message_pairs Warnings rs) ?m1"
  let ?m3 = "note_pairs note_info (message_pairs Infos rs) ?m2"
  have ok: "\<forall>p\<in>set (message_pairs Errors rs). fst p \<noteq> ''EvaluationError''"
    "\<forall>(n, msg)\<in>set (message_pairs Warnings rs). CHR '':'' \<notin> set n \<and> trimmed msg"
    "\<forall>(n, msg)\<in>set (message_pairs Infos rs). CHR '':'' \<notin> set n \<and> trimmed msg"
    using assms by (auto simp: transmissible_def plain_name_def message_pairs_in)
  have causes: "fold read_cause (error_causes rs) ([], []) = ([], ?m1)"
    unfolding message_pairs_texts by (rule read_causes [OF ok(1)])
  then have "(case Result (compared_response (rs, [])) of None \<Rightarrow> ([], [])
      | Some result \<Rightarrow> (case Details result of None \<Rightarrow> ([], []) | Some causes \<Rightarrow> fold read_cause causes ([], []))) =
      ([], ?m1)"
    by (auto simp: compared_response_def bad_request_def)
  moreover have "response_Warnings (compared_response (rs, [])) = warning_texts rs @ info_texts rs"
    by (simp add: compared_response_def)
  then have "range_do read_warning (response_Warnings (compared_response (rs, []))) ([], ?m1) = Some ([], ?m3)"
    by (simp only: message_pairs_texts(2,3) range_do_append read_warnings [OF ok(2)] read_infos [OF ok(3)] option.case)
  ultimately have "read_response (compared_response (rs, [])) = Some ([], map snd ?m3, [])"
    by (simp add: read_response_def)
  moreover have "results_map_ok []" by (simp add: results_map_ok_def)
  then have "results_map_ok ?m3"
    using note_errors note_warnings note_infos by blast
  moreover have "results_at [] k = zero_results" for k by (simp add: results_at_def)
  then have "Errors (results_at ?m3 k) = messages_under Errors k rs \<and>
      Warnings (results_at ?m3 k) = messages_under Warnings k rs \<and> Infos (results_at ?m3 k) = messages_under Infos k rs" for k
    using assms by (simp add: note_errors note_warnings note_infos transmissible_def pairs_under_message_pairs)
  ultimately show ?thesis by blast
qed

lemma read_evaluation_errors:
  assumes "errs \<noteq> []"
  shows "read_response (compared_response (rs, errs)) = Some ([], [], errs)"
proof -
  have "fold read_cause (map (\<lambda>err. \<lparr> cause_Type = ''EvaluationError'', cause_Message = err \<rparr>) errs) (es, m) = (es @ errs, m)"
    for es m
    by (induction errs arbitrary: es) (simp_all add: read_cause_def)
  with assms show ?thesis
    by (simp add: read_response_def compared_response_def bad_request_def zero_response_def)
qed

text \<open>A test over the hook's answer passes like the test over the results themselves.\<close>

lemma admission_test_of_response:
  assumes "server uid (admission_request encode tc) = Inr (Some (uid, compared_response (rs, errs)))"
    and "transmissible rs" and "distinct (map Name (ExpectedResults tc))" and "\<And>r. \<exists>bytes. marshal r = Inr bytes"
  shows "\<exists>t. admissionComparatorTest_Test marshal encode server uid tc = Some t \<and>
    (passed t \<longleftrightarrow> passed (ComparatorTest_Test marshal tc rs errs))"
proof -
  have total: "marshal_errors marshal r = []" for r
    using assms(4) [of r] by (auto simp: marshal_errors_def)
  have distinct: "distinct (map Name rs)" using assms(2) by (simp add: transmissible_def)
  show ?thesis
  proof (cases "errs = []")
    case True
    obtain m where m: "read_response (compared_response (rs, [])) = Some ([], map snd m, [])" "results_map_ok m"
      "\<And>k. Errors (results_at m k) = messages_under Errors k rs \<and>
         Warnings (results_at m k) = messages_under Warnings k rs \<and>
         Infos (results_at m k) = messages_under Infos k rs"
      using read_compared_response [OF assms(2)] by blast
    have "agree_on es (map snd m) k \<longleftrightarrow> agree_on es rs k" for es k
      by (simp add: agree_on_def messages_under_results_map [OF m(2)] m(3))
    then have "passed (ComparatorTest_Test marshal tc (map snd m) []) \<longleftrightarrow> passed (ComparatorTest_Test marshal tc rs [])"
      by (simp only: Test_passes [OF assms(3) distinct_results_map [OF m(2)] total] Test_passes [OF assms(3) distinct total])
    with True m(1) assms(1) show ?thesis by (simp add: admissionComparatorTest_Test_def passed_def)
  next
    case False
    have "\<not> passed (ComparatorTest_Test marshal tc [] errs)" "\<not> passed (ComparatorTest_Test marshal tc rs errs)"
      using False by (auto simp: Test_passes [OF assms(3) _ total] distinct)
    with False assms(1) show ?thesis
      by (simp add: admissionComparatorTest_Test_def read_evaluation_errors passed_def)
  qed
qed

section \<open>Properties\<close>

text \<open>
  C18. Reading a response of the hook gives back what the comparators said: under every name the same
  errors, warnings and infos in the same order, no evaluation errors and no failure on the way,
  although the names are quoted and infos are sent as warnings. It needs a request in scope that
  decodes, a configured hook, a comparison without evaluation errors, and results that can be sent:
  different ASCII names without colons, none of them \<open>EvaluationError\<close>, and warnings and infos
  without white space, of ASCII or not, around them.
\<close>

theorem hook_response_round_trip:
  assumes "in_scope req" and "unmarshal (Object_Raw req) = Inr new" and "read_old unmarshal req = Inr old"
    and "hook_ComparatorConfig a = Some cfg"
    and "Registry_Compare (config_ComparatorRegistry cfg) (Some old) new (ComparatorNames cfg) = Some (rs, [])"
    and "transmissible rs"
  shows "\<exists>resp results. Hook_Validate unmarshal a req = Some resp \<and> read_response resp = Some ([], results, []) \<and>
    distinct (map Name results) \<and>
    (\<forall>name. messages_under Errors name results = messages_under Errors name rs \<and>
       messages_under Warnings name results = messages_under Warnings name rs \<and>
       messages_under Infos name results = messages_under Infos name rs)"
proof -
  have "Hook_Validate unmarshal a req = Some (compared_response (rs, []))"
    using Hook_Validate_in_scope [of req unmarshal new old a cfg] assms(1-5) by simp
  moreover obtain m where m: "read_response (compared_response (rs, [])) = Some ([], map snd m, [])" "results_map_ok m"
    "\<And>k. Errors (results_at m k) = messages_under Errors k rs \<and>
       Warnings (results_at m k) = messages_under Warnings k rs \<and> Infos (results_at m k) = messages_under Infos k rs"
    using read_compared_response [OF assms(6)] by blast
  ultimately show ?thesis
    using distinct_results_map [OF m(2)] m(3) by (auto simp: messages_under_results_map [OF m(2)])
qed

definition loud_hook :: AdmissionHook where
  "loud_hook = \<lparr> hook_ComparatorConfig = Some (manifest_ComparatorConfig loud_config) \<rparr>"

theorem hook_response_round_trip_witness:
  "\<exists>resp results. Hook_Validate (\<lambda>_. Inr empty_crd) loud_hook create_request = Some resp \<and>
     read_response resp = Some ([], results, []) \<and> messages_under Infos ''A'' results = [''i'']"
proof -
  have "in_scope create_request" by (simp add: in_scope_def create_request_def)
  moreover have "read_old (\<lambda>_. Inr empty_crd) create_request = Inr empty_crd" by (simp add: read_old_def)
  moreover have "hook_ComparatorConfig loud_hook = Some (manifest_ComparatorConfig loud_config)"
    by (simp add: loud_hook_def)
  moreover have "Registry_Compare (config_ComparatorRegistry (manifest_ComparatorConfig loud_config)) (Some empty_crd)
      empty_crd (ComparatorNames (manifest_ComparatorConfig loud_config)) = Some ([loud_results], [])"
    by code_simp
  moreover have "transmissible [loud_results]" by code_simp
  moreover have "messages_under Infos ''A'' [loud_results] = [''i'']" by code_simp
  ultimately show ?thesis
    using hook_response_round_trip [of create_request "\<lambda>_. Inr empty_crd" empty_crd empty_crd loud_hook
      "manifest_ComparatorConfig loud_config" "[loud_results]"] by fastforce
qed

end
