(* ===== verification/Transmission.thy ===== *)
theory Transmission
  imports Default_Comparators Admission_Tester
begin

text \<open>
  What the default comparators write survives the way through an admission response: their
  warnings and infos have no white space around them, and their names no colon. The first is one
  more law of the comparator contract, which the ratchet and the comparators of versions inherit.
\<close>

section \<open>The law\<close>

definition tidy :: "ComparisonResults \<Rightarrow> bool" where
  "tidy r \<longleftrightarrow> (\<forall>m\<in>set (Warnings r) \<union> set (Infos r). trimmed m)"

lemma tidy_silent: "Warnings r = [] \<Longrightarrow> Infos r = [] \<Longrightarrow> tidy r"
  by (simp add: tidy_def)

locale tidy_comparator = crd_comparator +
  assumes compare_tidy: "compare_crds existing new = Some (Inr r) \<Longrightarrow> tidy r"

locale tidy_validator = crd_validator +
  assumes validate_tidy: "validate c = Some (Inr r) \<Longrightarrow> tidy r"
begin

lemma ratchet_tidy: "RatchetCompare validate existing new = Some (Inr r) \<Longrightarrow> tidy r"
proof -
  assume r: "RatchetCompare validate existing new = Some (Inr r)"
  then obtain n where n: "validate new = Some (Inr n)"
    by (auto simp: RatchetCompare_def split: option.splits sum.splits)
  have "set (Warnings r) \<subseteq> set (Warnings n)" "set (Infos r) \<subseteq> set (Infos n)"
    using r n by (auto simp: RatchetCompare_def stringDiff_filter split: option.splits sum.splits)
  with validate_tidy [OF n] show "tidy r" by (auto simp: tidy_def)
qed

end

sublocale tidy_validator \<subseteq> tidy_ratchet: tidy_comparator "RatchetCompare validate" cname why ok "\<lambda>_. True"
  by unfold_locales (rule ratchet_tidy)

sublocale version_comparator \<subseteq> tidy_versioned: tidy_comparator compare_crds cname why crd_ok "settled_crd settled"
  by unfold_locales (auto simp: compare_eq bind_eq_Some_conv intro!: tidy_silent split: option.splits)

section \<open>The validators that write only errors\<close>

interpretation tidy_noBools: tidy_validator noBools_Validate noBools_Name noBools_WhyItMatters crd_ok
  by unfold_locales (auto simp: noBools_Validate_def bind_eq_Some_conv intro!: tidy_silent)

interpretation tidy_noFloats: tidy_validator noFloats_Validate noFloats_Name noFloats_WhyItMatters crd_ok
  by unfold_locales (auto simp: noFloats_Validate_def bind_eq_Some_conv intro!: tidy_silent)

interpretation tidy_noUints: tidy_validator noUints_Validate noUints_Name noUints_WhyItMatters crd_ok
  by unfold_locales (auto simp: noUints_Validate_def bind_eq_Some_conv intro!: tidy_silent)

interpretation tidy_noMaps: tidy_validator noMaps_Validate noMaps_Name noMaps_WhyItMatters crd_ok
  by unfold_locales (auto simp: noMaps_Validate_def bind_eq_Some_conv intro!: tidy_silent)

interpretation tidy_lists: tidy_validator listsMustHaveSSATags_Validate listsMustHaveSSATags_Name
    listsMustHaveSSATags_WhyItMatters crd_ok
  by unfold_locales (auto simp: listsMustHaveSSATags_Validate_def bind_eq_Some_conv intro!: tidy_silent)

interpretation tidy_status: tidy_validator mustHaveStatus_Validate mustHaveStatus_Name mustHaveStatus_WhyItMatters status_ok
  by unfold_locales (auto simp: mustHaveStatus_Validate_def bind_eq_Some_conv intro!: tidy_silent)

interpretation tidy_conditions: tidy_validator conditions_Validate conditions_Name conditions_WhyItMatters conditions_ok
  by unfold_locales (auto simp: conditions_Validate_def bind_eq_Some_conv intro!: tidy_silent)

section \<open>The messages of the cost budget\<close>

text \<open>The location of every visited node begins like the location of the first one.\<close>

lemma schema_children_loc:
  "(c, f, l) \<in> set (schema_children s fld loc) \<Longrightarrow> prefix (path_String loc) (path_String l)"
  by (auto simp: schema_children_def path_string split: option.splits)

lemma schema_visits_loc:
  "v \<in> set (schema_visits s f l a) \<Longrightarrow> prefix (path_String l) (path_String (visit_loc v))"
proof (induction s f l a rule: schema_visits.induct)
  case (1 s f l a)
  from 1(2) consider "visit_loc v = l"
    | c f' l' where "(c, f', l') \<in> set (schema_children s f l)" "v \<in> set (schema_visits c f' l' (a @ [s]))"
    by (subst (asm) schema_visits.simps) auto
  then show ?case
  proof cases
    case 2
    from 1(1) [OF 2(1) refl refl 2(2)] schema_children_loc [OF 2(1)] show ?thesis
      using prefix_order.order_trans by blast
  qed simp
qed

lemma version_nodes_loc: "v \<in> set (version_nodes w) \<Longrightarrow> \<exists>x. loc_string v = CHR ''^'' # x"
  using schema_visits_loc [of v _ "NewPath ''^'' []" "NewPath ''^'' []"]
  by (fastforce simp: version_nodes_def node_list_def loc_string_def path_string prefix_def split: option.splits)

text \<open>A message that starts with a location and ends with a full stop.\<close>

lemma trimmed_sentence:
  assumes "loc_string v = CHR ''^'' # x" and "y \<noteq> []" and "last y = CHR ''.''"
  shows "trimmed (loc_string v @ y)"
  using assms by (intro trimmed_ends) (simp_all add: space_codes_def)

definition tidy_report :: "budget_report \<Rightarrow> bool" where
  "tidy_report r \<longleftrightarrow> (\<forall>m\<in>set (report_warnings r) \<union> set (report_infos r). trimmed m)"

lemma tidy_report_join [simp]:
  "tidy_report no_report" "tidy_report (join_report a b) \<longleftrightarrow> tidy_report a \<and> tidy_report b"
  "tidy_report (join_reports rs) \<longleftrightarrow> list_all tidy_report rs"
  "tidy_report (r\<lparr>report_errs := es\<rparr>) \<longleftrightarrow> tidy_report r"
  by (auto simp: tidy_report_def join_report_def no_report_def join_reports_sel list_all_iff)

lemma tidy_rule_report:
  assumes v: "loc_string v = CHR ''^'' # x"
  shows "tidy_report (rule_report env ctx v icr)"
proof -
  obtain i cr where icr: "icr = (i, cr)" by (cases icr)
  have "tidy_report (cardinality_report env ctx cr v)"
    using trimmed_sentence [OF v]
    by (auto simp: cardinality_report_def tidy_report_def no_report_def Let_def split: option.split)
  moreover have "\<forall>m\<in>set (cost_infos v i cr cost). trimmed m" for cost
    using trimmed_sentence [OF v] by (auto simp: cost_infos_def)
  ultimately show ?thesis
    by (simp add: icr rule_report_def Let_def) (simp add: tidy_report_def)
qed

lemma tidy_inspect_report:
  assumes v: "loc_string v = CHR ''^'' # x"
  shows "tidy_report (inspect_report env v)"
  using trimmed_sentence [OF v]
  by (auto simp: inspect_report_def inspectSchema_def tidy_report_def no_report_def loc_string_def
      split: sum.splits option.splits if_splits)

lemma tidy_node_report:
  assumes v: "loc_string v = CHR ''^'' # x"
  shows "tidy_report (node_report env v)"
  using tidy_rule_report [OF v] tidy_inspect_report [OF v]
  by (auto simp: node_report_def list_all_iff split: option.split sum.split)

lemma tidy_version_report: "tidy_report (version_report env v)"
  using tidy_node_report version_nodes_loc [of _ v]
  by (fastforce simp: version_report_def list_all_iff split: option.split)

interpretation tidy_budget: tidy_validator "budget_Validate env" budget_Name budget_WhyItMatters "budget_ok env" for env
proof unfold_locales
  show "tidy r" if "budget_Validate env c = Some (Inr r)" for c r
    using that tidy_version_report [of env]
    by (fastforce simp: budget_Validate_eq tidy_def tidy_report_def split: if_splits)
qed

section \<open>The default comparators\<close>

lemma default_comparators_tidy:
  assumes "d \<in> set (default_comparators env)" and "Compare d existing new = Some (Inr r)"
  shows "tidy r"
  using assms
  by (auto simp: default_comparators_def comparator_records validator_compares
      intro: tidy_noBools.ratchet_tidy tidy_noFloats.ratchet_tidy tidy_noUints.ratchet_tidy tidy_noMaps.ratchet_tidy
        tidy_lists.ratchet_tidy tidy_status.ratchet_tidy tidy_conditions.ratchet_tidy tidy_budget.ratchet_tidy
        noFieldRemoval.tidy_versioned.compare_tidy noEnumRemoval.tidy_versioned.compare_tidy
        noDataTypeChange.tidy_versioned.compare_tidy noNewRequiredFields.tidy_versioned.compare_tidy)

lemma default_names_plain: "n \<in> set default_names \<Longrightarrow> plain_name n"
proof -
  have "list_all plain_name default_names" by code_simp
  then show "n \<in> set default_names \<Longrightarrow> plain_name n" by (simp only: list_all_iff)
qed

lemma default_results_transmissible:
  assumes "NewDefaultComparators env = Some r" and "set names \<subseteq> set default_names" and "distinct names"
    and "pred_option (comparable env) existing" and "comparable env new"
  shows "\<exists>rs. Registry_Compare r existing new names = Some (rs, []) \<and> transmissible rs"
proof -
  obtain rs where rs: "Registry_Compare r existing new names = Some (rs, [])"
    "map Name rs = (if names = [] then sort default_names else names)"
    "list_all2 (\<lambda>c x. Compare c existing new = Some (Inr x)) (selected r names) rs"
    using default_Compare [OF assms(1,2,4,5)] by blast
  have "distinct (map Name rs)" unfolding rs(2) using assms(3) default_names_distinct by simp
  moreover have "\<forall>x\<in>set rs. plain_name (Name x)"
  proof
    fix x assume "x \<in> set rs"
    then have "Name x \<in> set (map Name rs)" by simp
    then have "Name x \<in> set default_names"
      using assms(2) unfolding rs(2) by (simp only: set_sort split: if_splits) (rule subsetD)
    then show "plain_name (Name x)" by (rule default_names_plain)
  qed
  moreover have "\<forall>x\<in>set rs. tidy x"
  proof
    fix x assume "x \<in> set rs"
    then obtain i where i: "i < length rs" "rs ! i = x" unfolding in_set_conv_nth by blast
    let ?d = "selected r names ! i"
    have "?d \<in> set (selected r names)" using i(1) list_all2_lengthD [OF rs(3)] by simp
    with selected_default [OF assms(1), of names] have "?d \<in> set (default_comparators env)" by (rule subsetD)
    moreover have "Compare ?d existing new = Some (Inr x)" using list_all2_nthD2 [OF rs(3) i(1)] i(2) by simp
    ultimately show "tidy x" by (rule default_comparators_tidy)
  qed
  ultimately have "transmissible rs" by (simp only: transmissible_def tidy_def) blast
  with rs(1) show ?thesis by blast
qed

end
