(* ===== verification/Admission_Server.thy ===== *)
theory Admission_Server
  imports Admission
begin

text \<open>
  How a hook is hosted: the generic admission server of the vendored library
  (\<open>vendor/github.com/openshift/generic-admission-server\<close>), as far as a request passes through it:
  \<open>pkg/cmd/server/start.go\<close>, \<open>pkg/apiserver/apiserver.go\<close>, \<open>pkg/registry/admissionreview\<close>, and the
  registration of post-start hooks in \<open>k8s.io/apiserver/pkg/server/hooks.go\<close>. What the Kubernetes API
  server under it does is a record of parameters.
\<close>

section \<open>Hooks\<close>

record GVR =
  gvr_Group :: string
  gvr_Version :: string
  gvr_Resource :: string

text \<open>
  The method that judges a request; the argument is a pointer. It is the one of the \<open>v1beta1\<close> or
  of the \<open>v1\<close> interface.
\<close>

type_synonym hook_func = "AdmissionRequest option \<Rightarrow> AdmissionResponse go"

datatype admission_func = V1Beta1 hook_func | V1 hook_func

text \<open>
  An \<open>AdmissionHook\<close> with what its dynamic type implements: \<open>MutatingAdmissionHook\<close> when there is a
  resource for mutating, \<open>MutatingAdmissionHookV1\<close> when there is also an \<open>Admit\<close> of that kind, and
  likewise for validating.
\<close>

record hosted_hook =
  MutatingResource :: "GVR option"
  Admit :: "admission_func option"
  Hook_ValidatingResource :: "GVR option"
  Validate :: "admission_func option"
  Initialize :: "gerror option"

text \<open>The hook of this program: a \<open>ValidatingAdmissionHookV1\<close>; a nil request is dereferenced.\<close>

definition program_hook :: "unmarshaller \<Rightarrow> AdmissionHook \<Rightarrow> hosted_hook" where
  "program_hook unmarshal a =
     \<lparr> MutatingResource = None, Admit = None,
       Hook_ValidatingResource = (case ValidatingResource of (g, v, plural, singular) \<Rightarrow>
         Some \<lparr> gvr_Group = g, gvr_Version = v, gvr_Resource = plural \<rparr>),
       Validate = Some (V1 (\<lambda>req. case req of None \<Rightarrow> None | Some req \<Rightarrow> Hook_Validate unmarshal a req)),
       Initialize = Hook_Initialize a \<rparr>"

text \<open>The four wrappers have a resource and an admission method.\<close>

type_synonym wrapper = "GVR \<times> admission_func"

definition wrap_beta :: "GVR option \<Rightarrow> admission_func option \<Rightarrow> wrapper list" where
  "wrap_beta gvr f = (case (gvr, f) of (Some gvr, Some (V1Beta1 g)) \<Rightarrow> [(gvr, V1Beta1 g)] | _ \<Rightarrow> [])"

definition wrap_v1 :: "GVR option \<Rightarrow> admission_func option \<Rightarrow> wrapper list" where
  "wrap_v1 gvr f = (case (gvr, f) of (Some gvr, Some (V1 g)) \<Rightarrow> [(gvr, V1 g)] | _ \<Rightarrow> [])"

definition hook_wrappers :: "hosted_hook \<Rightarrow> wrapper list" where
  "hook_wrappers h =
     wrap_beta (MutatingResource h) (Admit h) @ wrap_beta (Hook_ValidatingResource h) (Validate h) @
     wrap_v1 (MutatingResource h) (Admit h) @ wrap_v1 (Hook_ValidatingResource h) (Validate h)"

text \<open>The maps from groups to versions to wrappers.\<close>

type_synonym version_map = "(string \<times> wrapper list) list"

definition entry_at :: "('k \<times> 'v list) list \<Rightarrow> 'k \<Rightarrow> 'v list" where
  "entry_at m k = (case map_of m k of None \<Rightarrow> [] | Some v \<Rightarrow> v)"

definition add_wrapper :: "wrapper \<Rightarrow> (string \<times> version_map) list \<Rightarrow> (string \<times> version_map) list" where
  "add_wrapper w ret =
     (let gvr = fst w;
          group = entry_at ret (gvr_Group gvr)
      in AList.update (gvr_Group gvr)
           (AList.update (gvr_Version gvr) (entry_at group (gvr_Version gvr) @ [w]) group) ret)"

definition admissionHooksByGroupThenVersion :: "hosted_hook list \<Rightarrow> (string \<times> version_map) list" where
  "admissionHooksByGroupThenVersion hooks = fold (\<lambda>h ret. fold add_wrapper (hook_wrappers h) ret) hooks []"

definition postStartHookName :: "hosted_hook \<Rightarrow> string" where
  "postStartHookName h =
     (let resource = (\<lambda>gvr. gvr_Resource gvr @ ''.'' @ gvr_Version gvr @ ''.'' @ gvr_Group gvr);
          ns = (case MutatingResource h of None \<Rightarrow> [] | Some gvr \<Rightarrow> [''mutating-'' @ resource gvr]) @
               (case Hook_ValidatingResource h of None \<Rightarrow> [] | Some gvr \<Rightarrow> [''validating-'' @ resource gvr])
      in if length ns = 0 then [] else join_with ''-'' (ns @ [''init'']))"

section \<open>Reviews\<close>

text \<open>A request and a response carry a UID beside what the hook reads and writes.\<close>

record AdmissionReview =
  Request :: "(string \<times> AdmissionRequest) option"
  Response :: "(string \<times> AdmissionResponse) option"

datatype storage = REST hook_func | V1REST hook_func

text \<open>\<open>Create\<close> of the two storages; only that of \<open>v1\<close> copies the UID, from the request it dereferences.\<close>

definition REST_Create :: "hook_func \<Rightarrow> AdmissionReview \<Rightarrow> AdmissionReview go" where
  "REST_Create hookFn review = do {
     response \<leftarrow> hookFn (map_option snd (Request review));
     Some (review\<lparr>Response := Some ([], response)\<rparr>)
   }"

definition V1REST_Create :: "hook_func \<Rightarrow> AdmissionReview \<Rightarrow> AdmissionReview go" where
  "V1REST_Create hookFn review = do {
     response \<leftarrow> hookFn (map_option snd (Request review));
     (uid, _) \<leftarrow> Request review;
     Some (review\<lparr>Response := Some (uid, response)\<rparr>)
   }"

definition Create :: "storage \<Rightarrow> AdmissionReview \<Rightarrow> AdmissionReview go" where
  "Create storage review = (case storage of REST f \<Rightarrow> REST_Create f review | V1REST f \<Rightarrow> V1REST_Create f review)"

definition getAdmissionRest :: "wrapper \<Rightarrow> storage" where
  "getAdmissionRest w = (case snd w of V1Beta1 f \<Rightarrow> REST f | V1 f \<Rightarrow> V1REST f)"

section \<open>The server\<close>

text \<open>
  What \<open>New\<close> collects for one group: its versions, whose order is that of a map, and the storage of each
  version and resource.
\<close>

record APIGroupInfo =
  PrioritizedVersions :: "(string \<times> string) set"
  VersionedResourcesStorageMap :: "(string \<times> (string \<times> storage) list) list"

record AdmissionServer =
  installed_groups :: "(string \<times> APIGroupInfo) list"
  postStartHooks :: "(string \<times> gerror option) list"

text \<open>
  The library below: the errors of making certificates, applying the options, loading the client
  configuration from a file or from the cluster; of making the generic server, or the post-start
  hooks that it has already and those that the options disable; of installing a group and of
  listening.
\<close>

record server_library =
  certificates :: "gerror option"
  ApplyTo :: "gerror option"
  CoreAPIKubeconfigPath :: string
  ClientConfig :: "gerror option"
  InClusterConfig :: "gerror option"
  generic_New :: "gerror + string list \<times> string list"
  InstallAPIGroup :: "APIGroupInfo \<Rightarrow> gerror option"
  PrepareRun_Run :: "gerror option"

definition getClientConfig :: "server_library \<Rightarrow> gerror option" where
  "getClientConfig lib =
     (if length (CoreAPIKubeconfigPath lib) > 0
      then (case ClientConfig lib of
              Some err \<Rightarrow> Some (''failed to load kubeconfig at '' @ Quote (CoreAPIKubeconfigPath lib) @ '': '' @ err)
            | None \<Rightarrow> None)
      else InClusterConfig lib)"

definition Config :: "server_library \<Rightarrow> gerror option" where
  "Config lib =
     (case certificates lib of
        Some err \<Rightarrow> Some (''error creating self-signed certificates: '' @ err)
      | None \<Rightarrow>
          (case ApplyTo lib of
             Some err \<Rightarrow> Some err
           | None \<Rightarrow> getClientConfig lib))"

definition add_storage :: "wrapper \<Rightarrow> APIGroupInfo \<Rightarrow> APIGroupInfo" where
  "add_storage w info =
     (let gvr = fst w;
          m = VersionedResourcesStorageMap info
      in info\<lparr>PrioritizedVersions := insert (gvr_Group gvr, gvr_Version gvr) (PrioritizedVersions info),
              VersionedResourcesStorageMap := AList.update (gvr_Version gvr)
                (AList.update (gvr_Resource gvr) (getAdmissionRest w) (entry_at m (gvr_Version gvr))) m\<rparr>)"

definition group_info :: "version_map \<Rightarrow> APIGroupInfo" where
  "group_info versionMap =
     fold (\<lambda>(_, admissionHooks) info. fold add_storage admissionHooks info) versionMap
       \<lparr> PrioritizedVersions = {}, VersionedResourcesStorageMap = [] \<rparr>"

fun install_groups :: "server_library \<Rightarrow> (string \<times> version_map) list \<Rightarrow> AdmissionServer \<Rightarrow> gerror + AdmissionServer" where
  "install_groups lib [] s = Inr s"
| "install_groups lib ((g, versionMap) # gs) s =
     (let apiGroupInfo = group_info versionMap
      in case InstallAPIGroup lib apiGroupInfo of
           Some err \<Rightarrow> Inl err
         | None \<Rightarrow> install_groups lib gs (s\<lparr>installed_groups := installed_groups s @ [(g, apiGroupInfo)]\<rparr>))"

text \<open>How an attempt to start ends: an error, the death of the process (\<open>klog.Fatal\<close>), or a server.\<close>

datatype started = Not_started gerror | Died | Started AdmissionServer

text \<open>
  \<open>AddPostStartHookOrDie\<close> for each hook with a name: a disabled one is skipped, a name that is taken
  kills the process. The other errors of \<open>AddPostStartHook\<close> cannot occur here: the name and the
  function are not empty, and \<open>New\<close> adds the hooks before any of them is called and before the boot
  sequence is closed to new health checks.
\<close>

fun add_post_start_hooks :: "string list \<times> string list \<Rightarrow> hosted_hook list \<Rightarrow> AdmissionServer \<Rightarrow> started" where
  "add_post_start_hooks names [] s = Started s"
| "add_post_start_hooks names (h # hooks) s =
     (let name = postStartHookName h
      in if length name = 0 then add_post_start_hooks names hooks s
         else if name \<in> set (snd names) then add_post_start_hooks names hooks s
         else if name \<in> set (fst names) \<or> name \<in> fst ` set (postStartHooks s) then Died
         else add_post_start_hooks names hooks (s\<lparr>postStartHooks := postStartHooks s @ [(name, Initialize h)]\<rparr>))"

text \<open>\<open>New\<close> on the completed configuration, whose client configuration is not nil.\<close>

definition New :: "server_library \<Rightarrow> hosted_hook list \<Rightarrow> started" where
  "New lib hooks =
     (case generic_New lib of
        Inl err \<Rightarrow> Not_started err
      | Inr names \<Rightarrow>
          (case install_groups lib (admissionHooksByGroupThenVersion hooks)
                  \<lparr> installed_groups = [], postStartHooks = [] \<rparr> of
             Inl err \<Rightarrow> Not_started err
           | Inr s \<Rightarrow> add_post_start_hooks names hooks s))"

text \<open>
  \<open>RunAdmissionServer\<close> up to the point where the server listens. From there it returns only when it is
  told to stop, which this program never does.
\<close>

definition start_server :: "server_library \<Rightarrow> hosted_hook list \<Rightarrow> started" where
  "start_server lib hooks =
     (case Config lib of
        Some err \<Rightarrow> Not_started err
      | None \<Rightarrow>
          (case New lib hooks of
             Started s \<Rightarrow> (case PrepareRun_Run lib of Some err \<Rightarrow> Not_started err | None \<Rightarrow> Started s)
           | x \<Rightarrow> x))"

section \<open>Requests\<close>

text \<open>
  A review is posted to the path of a group, a version and a resource. A panic of the handler ends
  that request only.
\<close>

type_synonym post = "(string \<times> string \<times> string) \<times> AdmissionReview"

datatype answer = NotFound | Aborted | Reviewed AdmissionReview

definition endpoint :: "AdmissionServer \<Rightarrow> string \<times> string \<times> string \<Rightarrow> storage option" where
  "endpoint s = (\<lambda>(group, version, resource). do {
     info \<leftarrow> map_of (installed_groups s) group;
     storage \<leftarrow> map_of (VersionedResourcesStorageMap info) version;
     map_of storage resource
   })"

definition respond :: "AdmissionServer \<Rightarrow> post \<Rightarrow> answer" where
  "respond s = (\<lambda>(path, review).
     case endpoint s path of
       None \<Rightarrow> NotFound
     | Some storage \<Rightarrow> (case Create storage review of None \<Rightarrow> Aborted | Some review \<Rightarrow> Reviewed review))"

section \<open>The server of this program\<close>

definition hook_path :: "string \<times> string \<times> string" where
  "hook_path = (''admission.api.openshift.io'', ''v1'', ''crdextendedvalidations'')"

definition init_name :: string where
  "init_name = ''validating-crdextendedvalidations.v1.admission.api.openshift.io-init''"

lemma program_hook_name: "postStartHookName (program_hook unmarshal a) = init_name"
  by (simp add: postStartHookName_def program_hook_def ValidatingResource_def init_name_def)

lemma program_hook_Initialize: "Initialize (program_hook unmarshal a) = Hook_Initialize a"
  by (simp add: program_hook_def)

definition program_storage :: "unmarshaller \<Rightarrow> AdmissionHook \<Rightarrow> storage" where
  "program_storage unmarshal a =
     V1REST (\<lambda>req. case req of None \<Rightarrow> None | Some req \<Rightarrow> Hook_Validate unmarshal a req)"

definition program_group :: "unmarshaller \<Rightarrow> AdmissionHook \<Rightarrow> APIGroupInfo" where
  "program_group unmarshal a =
     \<lparr> PrioritizedVersions = {(''admission.api.openshift.io'', ''v1'')},
       VersionedResourcesStorageMap = [(''v1'', [(''crdextendedvalidations'', program_storage unmarshal a)])] \<rparr>"

lemma program_hook_installed:
  "admissionHooksByGroupThenVersion [program_hook unmarshal a] = [(g, versionMap)] \<Longrightarrow>
   g = ''admission.api.openshift.io'' \<and> group_info versionMap = program_group unmarshal a"
  "\<exists>g versionMap. admissionHooksByGroupThenVersion [program_hook unmarshal a] = [(g, versionMap)]"
  by (auto simp: admissionHooksByGroupThenVersion_def hook_wrappers_def wrap_beta_def wrap_v1_def program_hook_def
      ValidatingResource_def add_wrapper_def entry_at_def group_info_def add_storage_def getAdmissionRest_def
      program_group_def program_storage_def)

text \<open>
  Whatever the library does, a server that starts hosts the hook at its path and nothing else, and
  has at most the post-start hook that initialises it.
\<close>

lemma start_server_program:
  assumes "start_server lib [program_hook unmarshal a] = Started s"
  shows "installed_groups s = [(''admission.api.openshift.io'', program_group unmarshal a)]"
    and "postStartHooks s = [(init_name, Hook_Initialize a)] \<or> postStartHooks s = []"
proof -
  obtain g versionMap where g: "admissionHooksByGroupThenVersion [program_hook unmarshal a] = [(g, versionMap)]"
    using program_hook_installed(2) by blast
  note installed = program_hook_installed(1) [OF g]
  have "installed_groups s = [(''admission.api.openshift.io'', program_group unmarshal a)] \<and>
      (postStartHooks s = [(init_name, Hook_Initialize a)] \<or> postStartHooks s = [])"
    using assms installed
    by (auto simp: start_server_def New_def g Let_def program_hook_name program_hook_Initialize
        split: option.splits sum.splits started.splits if_splits)
  then show "installed_groups s = [(''admission.api.openshift.io'', program_group unmarshal a)]"
    and "postStartHooks s = [(init_name, Hook_Initialize a)] \<or> postStartHooks s = []"
    by blast+
qed

text \<open>How the start of a server with this hook ends, stage by stage.\<close>

lemma start_server_program_eq:
  "start_server lib [program_hook unmarshal a] =
     (case Config lib of
        Some err \<Rightarrow> Not_started err
      | None \<Rightarrow>
          (case generic_New lib of
             Inl err \<Rightarrow> Not_started err
           | Inr (taken, disabled) \<Rightarrow>
               (case InstallAPIGroup lib (program_group unmarshal a) of
                  Some err \<Rightarrow> Not_started err
                | None \<Rightarrow>
                    if init_name \<in> set taken \<and> init_name \<notin> set disabled then Died
                    else (case PrepareRun_Run lib of
                            Some err \<Rightarrow> Not_started err
                          | None \<Rightarrow> Started
                              \<lparr> installed_groups = [(''admission.api.openshift.io'', program_group unmarshal a)],
                                postStartHooks = (if init_name \<in> set disabled then [] else [(init_name, Hook_Initialize a)]) \<rparr>))))"
proof -
  obtain g versionMap where g: "admissionHooksByGroupThenVersion [program_hook unmarshal a] = [(g, versionMap)]"
    using program_hook_installed(2) by blast
  have "init_name \<noteq> []" by (simp add: init_name_def)
  then show ?thesis
    using program_hook_installed(1) [OF g]
    by (simp add: start_server_def New_def g Let_def program_hook_name program_hook_Initialize
        split: option.split sum.split prod.split)
qed

text \<open>The stages before the hooks are added, one of which fails, and the name of the hook, which is taken.\<close>

definition stage_fails :: "server_library \<Rightarrow> APIGroupInfo \<Rightarrow> bool" where
  "stage_fails lib group_installed \<longleftrightarrow> certificates lib \<noteq> None \<or> ApplyTo lib \<noteq> None \<or> getClientConfig lib \<noteq> None \<or>
     isl (generic_New lib) \<or> InstallAPIGroup lib group_installed \<noteq> None"

definition init_name_taken :: "server_library \<Rightarrow> bool" where
  "init_name_taken lib \<longleftrightarrow> (\<exists>taken disabled. generic_New lib = Inr (taken, disabled) \<and>
     init_name \<in> set taken \<and> init_name \<notin> set disabled)"

lemma start_server_program_fails:
  "(\<exists>err. start_server lib [program_hook unmarshal a] = Not_started err) \<longleftrightarrow>
     stage_fails lib (program_group unmarshal a) \<or> \<not> init_name_taken lib \<and> PrepareRun_Run lib \<noteq> None"
  "start_server lib [program_hook unmarshal a] = Died \<longleftrightarrow>
     \<not> stage_fails lib (program_group unmarshal a) \<and> init_name_taken lib"
  unfolding start_server_program_eq stage_fails_def init_name_taken_def Config_def
  by (auto split: option.splits sum.splits prod.splits)

definition reviewed :: "unmarshaller \<Rightarrow> AdmissionHook \<Rightarrow> AdmissionReview \<Rightarrow> answer" where
  "reviewed unmarshal a review =
     (case Request review of
        None \<Rightarrow> Aborted
      | Some (uid, req) \<Rightarrow>
          (case Hook_Validate unmarshal a req of
             None \<Rightarrow> Aborted
           | Some response \<Rightarrow> Reviewed (review\<lparr>Response := Some (uid, response)\<rparr>)))"

lemma respond_program:
  assumes "start_server lib [program_hook unmarshal a] = Started s"
  shows "respond s (path, review) = (if path = hook_path then reviewed unmarshal a review else NotFound)"
proof -
  obtain g v r where path: "path = (g, v, r)" by (cases path)
  have "endpoint s path = (if path = hook_path then Some (program_storage unmarshal a) else None)"
    by (simp add: path endpoint_def start_server_program(1) [OF assms] program_group_def hook_path_def)
  then show ?thesis
    by (auto simp: respond_def Create_def V1REST_Create_def program_storage_def reviewed_def bind_split
        split: option.splits)
qed

end
