(* ===== verification/Admission_Process.thy ===== *)
theory Admission_Process
  imports Admission_Server
begin

text \<open>
  The life of the process \<open>admission-check\<close>: the steps of its \<open>RunE\<close>
  (\<open>pkg/cmd/checkadmission/check_admission.go\<close>) up to the point where the server listens, the post-start
  hook that initialises the admission hook, and the reviews that clients post and the server answers,
  in any order. The theory shows what every reachable state satisfies, that the process refines an
  abstract service that only knows how to answer one review, and that it answers every review that
  it accepted.
\<close>

section \<open>States and steps\<close>

text \<open>\<open>Complete\<close> and \<open>Validate\<close> of the generic server's options do nothing.\<close>

definition AdmissionServerOptions_Complete :: "AdmissionHook \<Rightarrow> gerror option" where
  "AdmissionServerOptions_Complete hook = None"

definition AdmissionServerOptions_Validate :: "string list \<Rightarrow> gerror option" where
  "AdmissionServerOptions_Validate args = None"

text \<open>The last phase holds the exit code.\<close>

datatype phase = Built | Completed | Validated | Serving AdmissionServer | Ended int

record process =
  process_options :: AdmissionCheckOptions
  phase :: phase
  initialised :: "string set"
  pending :: "post list"
  answered :: "(post \<times> answer) list"

definition new_process :: "AdmissionCheckOptions \<Rightarrow> process" where
  "new_process opts =
     \<lparr> process_options = opts, phase = Built, initialised = {}, pending = [], answered = [] \<rparr>"

definition started_by :: "server_library \<Rightarrow> unmarshaller \<Rightarrow> AdmissionCheckOptions \<Rightarrow> started" where
  "started_by lib unmarshal opts = start_server lib [program_hook unmarshal (admissionHook opts)]"

text \<open>
  The steps of \<open>RunE\<close>: \<open>Complete\<close>, \<open>Validate\<close> and \<open>RunAdmissionServer\<close>, which goes on serving when the
  server has started. An error is the exit code 1.
\<close>

inductive RunE_step :: "server_library \<Rightarrow> unmarshaller \<Rightarrow> string list \<Rightarrow> process \<Rightarrow> process \<Rightarrow> bool"
  for lib unmarshal args where
  complete: "phase p = Built \<Longrightarrow>
    Check_Complete AdmissionServerOptions_Complete (process_options p) = (None, opts) \<Longrightarrow>
    RunE_step lib unmarshal args p (p\<lparr>process_options := opts, phase := Completed\<rparr>)"
| not_complete: "phase p = Built \<Longrightarrow>
    Check_Complete AdmissionServerOptions_Complete (process_options p) = (Some err, opts) \<Longrightarrow>
    RunE_step lib unmarshal args p (p\<lparr>process_options := opts, phase := Ended 1\<rparr>)"
| validate: "phase p = Completed \<Longrightarrow>
    Check_Validate AdmissionServerOptions_Validate (process_options p) args = None \<Longrightarrow>
    RunE_step lib unmarshal args p (p\<lparr>phase := Validated\<rparr>)"
| not_valid: "phase p = Completed \<Longrightarrow>
    Check_Validate AdmissionServerOptions_Validate (process_options p) args = Some err \<Longrightarrow>
    RunE_step lib unmarshal args p (p\<lparr>phase := Ended 1\<rparr>)"
| start: "phase p = Validated \<Longrightarrow> started_by lib unmarshal (process_options p) = Started s \<Longrightarrow>
    RunE_step lib unmarshal args p (p\<lparr>phase := Serving s\<rparr>)"
| not_started: "phase p = Validated \<Longrightarrow> started_by lib unmarshal (process_options p) = Not_started err \<Longrightarrow>
    RunE_step lib unmarshal args p (p\<lparr>phase := Ended 1\<rparr>)"
| died: "phase p = Validated \<Longrightarrow> started_by lib unmarshal (process_options p) = Died \<Longrightarrow>
    RunE_step lib unmarshal args p (p\<lparr>phase := Ended 255\<rparr>)"

text \<open>
  \<open>runPostStartHook\<close>: each post-start hook runs once, in a goroutine of its own, and one that fails
  kills the process.
\<close>

inductive post_start :: "process \<Rightarrow> process \<Rightarrow> bool" where
  initialise: "phase p = Serving s \<Longrightarrow> (name, None) \<in> set (postStartHooks s) \<Longrightarrow> name \<notin> initialised p \<Longrightarrow>
    post_start p (p\<lparr>initialised := insert name (initialised p)\<rparr>)"
| not_initialised: "phase p = Serving s \<Longrightarrow> (name, Some err) \<in> set (postStartHooks s) \<Longrightarrow>
    post_start p (p\<lparr>phase := Ended 255\<rparr>)"

text \<open>The API server handles the reviews that wait concurrently, so any of them may be answered next.\<close>

inductive handling :: "process \<Rightarrow> process \<Rightarrow> bool" where
  handle: "phase p = Serving s \<Longrightarrow> pending p = before @ post # after \<Longrightarrow>
    handling p (p\<lparr>pending := before @ after, answered := answered p @ [(post, respond s post)]\<rparr>)"

text \<open>A step of the process is one of these.\<close>

inductive process_step :: "server_library \<Rightarrow> unmarshaller \<Rightarrow> string list \<Rightarrow> process \<Rightarrow> process \<Rightarrow> bool"
  for lib unmarshal args where
  by_RunE: "RunE_step lib unmarshal args p q \<Longrightarrow> process_step lib unmarshal args p q"
| by_post_start: "post_start p q \<Longrightarrow> process_step lib unmarshal args p q"
| by_handling: "handling p q \<Longrightarrow> process_step lib unmarshal args p q"

lemmas process_step_intros =
  RunE_step.intros [THEN by_RunE] post_start.intros [THEN by_post_start] handling.intros [THEN by_handling]

lemma process_step_cases [consumes 1, case_names complete not_complete validate not_valid start not_started died
    initialise not_initialised handle]:
  assumes "process_step lib unmarshal args p q"
  obtains opts where "q = p\<lparr>process_options := opts, phase := Completed\<rparr>" "phase p = Built"
      "Check_Complete AdmissionServerOptions_Complete (process_options p) = (None, opts)"
  | err opts where "q = p\<lparr>process_options := opts, phase := Ended 1\<rparr>" "phase p = Built"
      "Check_Complete AdmissionServerOptions_Complete (process_options p) = (Some err, opts)"
  | "q = p\<lparr>phase := Validated\<rparr>" "phase p = Completed"
      "Check_Validate AdmissionServerOptions_Validate (process_options p) args = None"
  | err where "q = p\<lparr>phase := Ended 1\<rparr>" "phase p = Completed"
      "Check_Validate AdmissionServerOptions_Validate (process_options p) args = Some err"
  | s where "q = p\<lparr>phase := Serving s\<rparr>" "phase p = Validated" "started_by lib unmarshal (process_options p) = Started s"
  | err where "q = p\<lparr>phase := Ended 1\<rparr>" "phase p = Validated"
      "started_by lib unmarshal (process_options p) = Not_started err"
  | "q = p\<lparr>phase := Ended 255\<rparr>" "phase p = Validated" "started_by lib unmarshal (process_options p) = Died"
  | s name where "q = p\<lparr>initialised := insert name (initialised p)\<rparr>" "phase p = Serving s"
      "(name, None) \<in> set (postStartHooks s)" "name \<notin> initialised p"
  | s name err where "q = p\<lparr>phase := Ended 255\<rparr>" "phase p = Serving s" "(name, Some err) \<in> set (postStartHooks s)"
  | s before post after where "q = p\<lparr>pending := before @ after, answered := answered p @ [(post, respond s post)]\<rparr>"
      "phase p = Serving s" "pending p = before @ post # after"
  using assms
proof (cases rule: process_step.cases)
  case by_RunE
  then show ?thesis by (cases rule: RunE_step.cases) (use that in blast)+
next
  case by_post_start
  then show ?thesis by (cases rule: post_start.cases) (use that in blast)+
next
  case by_handling
  then show ?thesis by (cases rule: handling.cases) (use that in blast)
qed

text \<open>A client posts a review to a server that listens.\<close>

inductive client_step :: "process \<Rightarrow> process \<Rightarrow> bool" where
  post: "phase p = Serving s \<Longrightarrow> client_step p (p\<lparr>pending := pending p @ [post]\<rparr>)"

inductive reachable :: "server_library \<Rightarrow> unmarshaller \<Rightarrow> string list \<Rightarrow> AdmissionCheckOptions \<Rightarrow> process \<Rightarrow> bool"
  for lib unmarshal args opts where
  init: "reachable lib unmarshal args opts (new_process opts)"
| by_process: "reachable lib unmarshal args opts p \<Longrightarrow> process_step lib unmarshal args p q \<Longrightarrow>
    reachable lib unmarshal args opts q"
| by_client: "reachable lib unmarshal args opts p \<Longrightarrow> client_step p q \<Longrightarrow> reachable lib unmarshal args opts q"

inductive_cases from_client: "client_step p q"

section \<open>The steps, computed\<close>

text \<open>The states that a process can reach in one step, as a list.\<close>

definition post_start_step :: "process \<Rightarrow> string \<times> gerror option \<Rightarrow> process list" where
  "post_start_step p = (\<lambda>(name, err).
     case err of
       None \<Rightarrow> if name \<in> initialised p then [] else [p\<lparr>initialised := insert name (initialised p)\<rparr>]
     | Some _ \<Rightarrow> [p\<lparr>phase := Ended 255\<rparr>])"

definition handle_step :: "AdmissionServer \<Rightarrow> process \<Rightarrow> nat \<Rightarrow> process" where
  "handle_step s p i =
     p\<lparr>pending := take i (pending p) @ drop (Suc i) (pending p),
       answered := answered p @ [(pending p ! i, respond s (pending p ! i))]\<rparr>"

definition RunE_next :: "server_library \<Rightarrow> unmarshaller \<Rightarrow> string list \<Rightarrow> process \<Rightarrow> process list" where
  "RunE_next lib unmarshal args p =
     (case phase p of
        Built \<Rightarrow>
          (case Check_Complete AdmissionServerOptions_Complete (process_options p) of
             (None, opts) \<Rightarrow> [p\<lparr>process_options := opts, phase := Completed\<rparr>]
           | (Some err, opts) \<Rightarrow> [p\<lparr>process_options := opts, phase := Ended 1\<rparr>])
      | Completed \<Rightarrow>
          (case Check_Validate AdmissionServerOptions_Validate (process_options p) args of
             None \<Rightarrow> [p\<lparr>phase := Validated\<rparr>]
           | Some err \<Rightarrow> [p\<lparr>phase := Ended 1\<rparr>])
      | Validated \<Rightarrow>
          (case started_by lib unmarshal (process_options p) of
             Started s \<Rightarrow> [p\<lparr>phase := Serving s\<rparr>]
           | Not_started err \<Rightarrow> [p\<lparr>phase := Ended 1\<rparr>]
           | Died \<Rightarrow> [p\<lparr>phase := Ended 255\<rparr>])
      | _ \<Rightarrow> [])"

definition next_processes :: "server_library \<Rightarrow> unmarshaller \<Rightarrow> string list \<Rightarrow> process \<Rightarrow> process list" where
  "next_processes lib unmarshal args p =
     (case phase p of
        Serving s \<Rightarrow>
          concat (map (post_start_step p) (postStartHooks s)) @ map (handle_step s p) [0..<length (pending p)]
      | _ \<Rightarrow> RunE_next lib unmarshal args p)"

lemma handle_step_iff:
  "q \<in> handle_step s p ` {..<length (pending p)} \<longleftrightarrow>
   (\<exists>before post after. pending p = before @ post # after \<and>
      q = p\<lparr>pending := before @ after, answered := answered p @ [(post, respond s post)]\<rparr>)"
proof
  assume "q \<in> handle_step s p ` {..<length (pending p)}"
  then obtain i where i: "i < length (pending p)" "q = handle_step s p i" by blast
  from id_take_nth_drop [OF i(1)] i(2)
  show "\<exists>before post after. pending p = before @ post # after \<and>
      q = p\<lparr>pending := before @ after, answered := answered p @ [(post, respond s post)]\<rparr>"
    unfolding handle_step_def by blast
next
  assume "\<exists>before post after. pending p = before @ post # after \<and>
      q = p\<lparr>pending := before @ after, answered := answered p @ [(post, respond s post)]\<rparr>"
  then obtain before post' after where "pending p = before @ post' # after"
    "q = p\<lparr>pending := before @ after, answered := answered p @ [(post', respond s post')]\<rparr>"
    by blast
  then show "q \<in> handle_step s p ` {..<length (pending p)}"
    by (intro image_eqI [of _ _ "length before"]) (simp_all add: handle_step_def)
qed

lemma post_start_step_iff:
  "q \<in> set (post_start_step p (name, err)) \<longleftrightarrow>
   err = None \<and> name \<notin> initialised p \<and> q = p\<lparr>initialised := insert name (initialised p)\<rparr> \<or>
   err \<noteq> None \<and> q = p\<lparr>phase := Ended 255\<rparr>"
  by (cases err) (simp_all add: post_start_step_def)

lemma serving_step_iff:
  assumes "phase p = Serving s"
  shows "process_step lib unmarshal args p q \<longleftrightarrow>
    (\<exists>name err. (name, err) \<in> set (postStartHooks s) \<and>
       (err = None \<and> name \<notin> initialised p \<and> q = p\<lparr>initialised := insert name (initialised p)\<rparr> \<or>
        err \<noteq> None \<and> q = p\<lparr>phase := Ended 255\<rparr>)) \<or>
    (\<exists>before post after. pending p = before @ post # after \<and>
      q = p\<lparr>pending := before @ after, answered := answered p @ [(post, respond s post)]\<rparr>)"
    (is "_ \<longleftrightarrow> ?hooks \<or> ?handled")
proof
  assume "process_step lib unmarshal args p q"
  then show "?hooks \<or> ?handled"
  proof (cases rule: process_step_cases)
    case (handle s' before post' after)
    then have "s' = s" using assms by simp
    with handle show ?thesis by blast
  qed (use assms in auto)
next
  assume "?hooks \<or> ?handled"
  then show "process_step lib unmarshal args p q"
    by (elim disjE exE conjE) (use assms in \<open>auto intro: process_step_intros\<close>)
qed

lemma process_step_computed: "process_step lib unmarshal args p q \<longleftrightarrow> q \<in> set (next_processes lib unmarshal args p)"
proof (cases "phase p")
  case (Serving s)
  have "q \<in> set (next_processes lib unmarshal args p) \<longleftrightarrow>
      (\<exists>name err. (name, err) \<in> set (postStartHooks s) \<and> q \<in> set (post_start_step p (name, err))) \<or>
      q \<in> handle_step s p ` {..<length (pending p)}"
    by (auto simp: next_processes_def Serving atLeast0LessThan)
  then show ?thesis unfolding handle_step_iff post_start_step_iff serving_step_iff [OF Serving] by (rule sym)
next
  case Built
  obtain err opts where c: "Check_Complete AdmissionServerOptions_Complete (process_options p) = (err, opts)"
    by (cases "Check_Complete AdmissionServerOptions_Complete (process_options p)")
  show ?thesis
    by (cases err) (use Built c in \<open>auto simp: next_processes_def RunE_next_def elim!: process_step_cases
        intro: process_step_intros\<close>)
next
  case Completed
  then show ?thesis
    by (auto simp: next_processes_def RunE_next_def elim!: process_step_cases intro: process_step_intros split: option.splits)
next
  case Validated
  then show ?thesis
    by (auto simp: next_processes_def RunE_next_def elim!: process_step_cases intro: process_step_intros split: started.splits)
next
  case (Ended n)
  then show ?thesis by (auto simp: next_processes_def RunE_next_def elim!: process_step_cases)
qed

section \<open>What every reachable state satisfies\<close>

text \<open>The options after \<open>Complete\<close>: the hook has the configuration that the flags select.\<close>

definition configured :: "AdmissionCheckOptions \<Rightarrow> AdmissionCheckOptions \<Rightarrow> bool" where
  "configured opts opts' \<longleftrightarrow>
     (\<exists>cfg. Options_Complete (check_ComparatorOptions opts) = Inr cfg \<and>
        opts' = opts\<lparr>admissionHook := \<lparr> hook_ComparatorConfig = Some cfg \<rparr>\<rparr>)"

definition process_ok :: "server_library \<Rightarrow> unmarshaller \<Rightarrow> AdmissionCheckOptions \<Rightarrow> process \<Rightarrow> bool" where
  "process_ok lib unmarshal opts p \<longleftrightarrow>
     (case phase p of
        Built \<Rightarrow> p = new_process opts
      | Completed \<Rightarrow> configured opts (process_options p) \<and> pending p = [] \<and> answered p = [] \<and> initialised p = {}
      | Validated \<Rightarrow> configured opts (process_options p) \<and> pending p = [] \<and> answered p = [] \<and> initialised p = {}
      | Serving s \<Rightarrow> configured opts (process_options p) \<and> started_by lib unmarshal (process_options p) = Started s \<and>
          list_all (\<lambda>(q, a). a = respond s q) (answered p)
      | Ended n \<Rightarrow> n = 1 \<and> isl (Options_Complete (check_ComparatorOptions opts)) \<or>
          (\<exists>opts'. configured opts opts' \<and>
             (n = 1 \<and> (\<exists>err. started_by lib unmarshal opts' = Not_started err) \<or>
              n = 255 \<and> started_by lib unmarshal opts' = Died)))"

lemma Check_Complete_cases:
  "Check_Complete AdmissionServerOptions_Complete opts = (err, opts') \<Longrightarrow>
   (case err of None \<Rightarrow> configured opts opts' | Some _ \<Rightarrow> isl (Options_Complete (check_ComparatorOptions opts)))"
  by (cases "admissionHook opts")
    (auto simp: Check_Complete_def AdmissionServerOptions_Complete_def configured_def split: sum.splits)

text \<open>What \<open>Complete\<close> has accepted, \<open>Validate\<close> does not reject, and the post-start hook does not fail.\<close>

lemma configured_valid: "configured opts opts' \<Longrightarrow> Check_Validate AdmissionServerOptions_Validate opts' args = None"
  by (auto simp: configured_def Check_Validate_def AdmissionServerOptions_Validate_def Options_Complete_eq split: option.splits)

lemma configured_initialises:
  assumes "configured opts opts'" and "started_by lib unmarshal opts' = Started s"
  shows "postStartHooks s = [(init_name, None)] \<or> postStartHooks s = []"
proof -
  have "Hook_Initialize (admissionHook opts') = None"
    using assms(1) by (auto simp: configured_def Hook_Initialize_def)
  with start_server_program(2) [OF assms(2) [unfolded started_by_def]] show ?thesis by simp
qed

lemma process_step_ok:
  assumes "process_step lib unmarshal args p q" and "process_ok lib unmarshal opts p"
  shows "process_ok lib unmarshal opts q"
  using assms
proof (cases rule: process_step_cases)
  case (complete opts')
  with assms(2) have "p = new_process opts" by (simp add: process_ok_def)
  with Check_Complete_cases [OF complete(3)] complete show ?thesis by (simp add: process_ok_def new_process_def)
next
  case (not_complete err opts')
  with assms(2) have "p = new_process opts" by (simp add: process_ok_def)
  with Check_Complete_cases [OF not_complete(3)] not_complete show ?thesis by (simp add: process_ok_def new_process_def)
next
  case (not_valid err)
  with assms(2) configured_valid [of opts "process_options p" args] show ?thesis by (simp add: process_ok_def)
next
  case (not_initialised s name err)
  with assms(2) have "postStartHooks s = [(init_name, None)] \<or> postStartHooks s = []"
    by (intro configured_initialises) (auto simp: process_ok_def)
  with not_initialised(3) show ?thesis by auto
qed (auto simp: process_ok_def)

lemma client_step_ok: "client_step p q \<Longrightarrow> process_ok lib unmarshal opts p \<Longrightarrow> process_ok lib unmarshal opts q"
  by (erule from_client) (simp add: process_ok_def)

lemma reachable_ok: "reachable lib unmarshal args opts p \<Longrightarrow> process_ok lib unmarshal opts p"
proof (induction rule: reachable.induct)
  case init
  show ?case by (simp add: process_ok_def new_process_def)
qed (blast intro: process_step_ok client_step_ok)+

section \<open>The abstract service\<close>

text \<open>
  A service knows the reviews that wait, in no order, and the answers it has given; what it answers
  depends on the review alone.
\<close>

record service =
  waiting :: "post multiset"
  history :: "(post \<times> answer) list"

inductive service_step :: "(post \<Rightarrow> answer) \<Rightarrow> service \<Rightarrow> service \<Rightarrow> bool" for reply where
  accept: "service_step reply v (v\<lparr>waiting := add_mset q (waiting v)\<rparr>)"
| reply: "waiting v = add_mset q m \<Longrightarrow>
    service_step reply v (v\<lparr>waiting := m, history := history v @ [(q, reply q)]\<rparr>)"

definition service_of :: "process \<Rightarrow> service" where
  "service_of p = \<lparr> waiting = mset (pending p), history = answered p \<rparr>"

lemma process_step_refines:
  assumes "process_step lib unmarshal args p q" and "process_ok lib unmarshal opts p" and "phase p = Serving s"
  shows "phase q = Serving s \<and> (service_of q = service_of p \<or> service_step (respond s) (service_of p) (service_of q))"
  using assms(1)
proof (cases rule: process_step_cases)
  case (not_initialised s' name err)
  with assms(2,3) have "postStartHooks s = [(init_name, None)] \<or> postStartHooks s = []"
    by (intro configured_initialises) (auto simp: process_ok_def)
  with not_initialised assms(3) show ?thesis by auto
next
  case (handle s' before post' after)
  have "waiting (service_of p) = add_mset post' (mset (before @ after))"
    by (simp add: service_of_def handle)
  from service_step.reply [OF this, of "respond s"] show ?thesis
    using handle assms(3) by (simp add: service_of_def)
qed (use assms(3) in \<open>simp_all add: service_of_def\<close>)

lemma client_step_refines: "client_step p q \<Longrightarrow> phase q = phase p \<and> service_step reply (service_of p) (service_of q)"
proof (erule from_client)
  fix s post' assume "q = p\<lparr>pending := pending p @ [post']\<rparr>"
  then show "phase q = phase p \<and> service_step reply (service_of p) (service_of q)"
    using service_step.accept [of reply "service_of p" post'] by (simp add: service_of_def)
qed

definition new_service :: service where
  "new_service = \<lparr> waiting = {#}, history = [] \<rparr>"

text \<open>So what a process has done since it serves is a run of the service.\<close>

lemma reachable_refines:
  "reachable lib unmarshal args opts p \<Longrightarrow> phase p = Serving s \<Longrightarrow>
   (service_step (respond s))\<^sup>*\<^sup>* new_service (service_of p)"
proof (induction rule: reachable.induct)
  case init
  then show ?case by (simp add: new_process_def)
next
  case (by_process p q)
  note ok = reachable_ok [OF by_process(1)]
  show ?case
  proof (cases "\<exists>s'. phase p = Serving s'")
    case True
    then obtain s' where s': "phase p = Serving s'" ..
    from process_step_refines [OF by_process(2) ok s'] by_process(4)
    have "s' = s" and step: "service_of q = service_of p \<or> service_step (respond s) (service_of p) (service_of q)"
      by auto
    with by_process(3) s' have "(service_step (respond s))\<^sup>*\<^sup>* new_service (service_of p)" by simp
    with step show ?thesis by (metis rtranclp.rtrancl_into_rtrancl)
  next
    case False
    with by_process(2,4) have "phase p = Validated" "pending q = pending p" "answered q = answered p"
      by (auto elim!: process_step_cases)
    with ok have "service_of q = new_service" by (simp add: process_ok_def service_of_def new_service_def)
    then show ?thesis by simp
  qed
next
  case (by_client p q)
  with client_step_refines [OF by_client(2), of "respond s"] show ?case
    by (metis rtranclp.rtrancl_into_rtrancl)
qed

section \<open>Everything accepted is answered\<close>

text \<open>
  A service that works off what waits: each of its own steps answers one item that waits or does one of
  finitely many chores, and it is never stuck while there is work.
\<close>

locale draining_service =
  fixes step :: "'p \<Rightarrow> 'p \<Rightarrow> bool"
    and serving :: "'p \<Rightarrow> bool"
    and queue :: "'p \<Rightarrow> 'q multiset"
    and record_of :: "'p \<Rightarrow> ('q \<times> 'a) list"
    and reply :: "'q \<Rightarrow> 'a"
    and chores :: "'p \<Rightarrow> nat"
  assumes step_serving: "serving p \<Longrightarrow> step p q \<Longrightarrow> serving q"
    and step_works: "serving p \<Longrightarrow> step p q \<Longrightarrow>
      queue q = queue p \<and> record_of q = record_of p \<and> chores q < chores p \<or>
      (\<exists>x. queue p = add_mset x (queue q) \<and> record_of q = record_of p @ [(x, reply x)] \<and> chores q = chores p)"
    and never_stuck: "serving p \<Longrightarrow> queue p \<noteq> {#} \<or> chores p > 0 \<Longrightarrow> \<exists>q. step p q"
begin

lemma run_serving: "step\<^sup>*\<^sup>* p q \<Longrightarrow> serving p \<Longrightarrow> serving q"
  by (induction rule: rtranclp_induct) (auto intro: step_serving)

lemma step_decreases: "serving p \<Longrightarrow> step p q \<Longrightarrow> size (queue q) + chores q < size (queue p) + chores p"
  using step_works [of p q] by auto

lemma run_bounded: "(step ^^ n) p q \<Longrightarrow> serving p \<Longrightarrow> n + size (queue q) + chores q \<le> size (queue p) + chores p"
proof (induction n arbitrary: q)
  case (Suc n)
  then obtain m where m: "(step ^^ n) p m" "step m q" by auto
  then have "serving m" using run_serving Suc.prems(2) by (blast intro: relpowp_imp_rtranclp)
  from step_decreases [OF this m(2)] Suc.IH [OF m(1) Suc.prems(2)] show ?case by simp
qed simp

lemma run_records:
  "step\<^sup>*\<^sup>* p q \<Longrightarrow> serving p \<Longrightarrow>
   \<exists>new. record_of q = record_of p @ new \<and> queue p = queue q + mset (map fst new) \<and> list_all (\<lambda>(x, a). a = reply x) new"
proof (induction rule: rtranclp_induct)
  case (step y z)
  then obtain new where new: "record_of y = record_of p @ new" "queue p = queue y + mset (map fst new)"
    "list_all (\<lambda>(x, a). a = reply x) new"
    by blast
  from step_works [OF run_serving [OF step(1,4)] step(2)] show ?case
  proof (elim disjE exE conjE)
    fix x assume "queue y = add_mset x (queue z)" "record_of z = record_of y @ [(x, reply x)]"
    with new show ?thesis by (intro exI [of _ "new @ [(x, reply x)]"]) simp
  qed (use new in auto)
qed auto

text \<open>Runs of its own steps end, and where one ends, everything that waited is answered.\<close>

lemma drains:
  assumes "serving p"
  shows "\<exists>n. \<forall>k q. (step ^^ k) p q \<longrightarrow> k \<le> n"
    and "step\<^sup>*\<^sup>* p q \<Longrightarrow> \<not> (\<exists>u. step q u) \<Longrightarrow>
      queue q = {#} \<and> (\<exists>new. record_of q = record_of p @ new \<and> mset (map fst new) = queue p \<and>
        list_all (\<lambda>(x, a). a = reply x) new)"
proof -
  show "\<exists>n. \<forall>k q. (step ^^ k) p q \<longrightarrow> k \<le> n"
    using run_bounded [OF _ assms] by (intro exI [of _ "size (queue p) + chores p"]) fastforce
  assume run: "step\<^sup>*\<^sup>* p q" and ended: "\<not> (\<exists>u. step q u)"
  then have "queue q = {#}" using never_stuck [OF run_serving [OF run assms]] by blast
  with run_records [OF run assms] show "queue q = {#} \<and> (\<exists>new. record_of q = record_of p @ new \<and>
      mset (map fst new) = queue p \<and> list_all (\<lambda>(x, a). a = reply x) new)"
    by auto
qed

lemma comes_to_rest:
  assumes "serving p"
  shows "\<exists>q. step\<^sup>*\<^sup>* p q \<and> \<not> (\<exists>u. step q u)"
  using assms
proof (induction "size (queue p) + chores p" arbitrary: p rule: less_induct)
  case less
  show ?case
  proof (cases "\<exists>u. step p u")
    case True
    then obtain u where u: "step p u" ..
    from less.hyps [OF step_decreases [OF less.prems u] step_serving [OF less.prems u]] u show ?thesis
      by (meson converse_rtranclp_into_rtranclp)
  qed auto
qed

end

definition chores_left :: "AdmissionServer \<Rightarrow> process \<Rightarrow> nat" where
  "chores_left s p = card (fst ` set (postStartHooks s) - initialised p)"

interpretation working: draining_service "process_step lib unmarshal args"
  "\<lambda>p. process_ok lib unmarshal opts p \<and> phase p = Serving s" "\<lambda>p. mset (pending p)" answered "respond s" "chores_left s"
  for lib unmarshal args opts s
proof
  fix p q assume p: "process_ok lib unmarshal opts p \<and> phase p = Serving s" and step: "process_step lib unmarshal args p q"
  then show "process_ok lib unmarshal opts q \<and> phase q = Serving s"
    using process_step_ok process_step_refines by blast
  from step show "mset (pending q) = mset (pending p) \<and> answered q = answered p \<and> chores_left s q < chores_left s p \<or>
      (\<exists>x. mset (pending p) = add_mset x (mset (pending q)) \<and> answered q = answered p @ [(x, respond s x)] \<and>
        chores_left s q = chores_left s p)"
  proof (cases rule: process_step_cases)
    case (initialise s' name)
    then have name: "name \<in> fst ` set (postStartHooks s)" using p by force
    have "chores_left s q < chores_left s p"
      unfolding chores_left_def initialise(1) by (rule psubset_card_mono) (use name initialise(4) in auto)
    with initialise show ?thesis by simp
  next
    case (not_initialised s' name err)
    with p process_step_refines [OF step] show ?thesis by fastforce
  qed (use p in \<open>auto simp: chores_left_def\<close>)
next
  fix p assume p: "process_ok lib unmarshal opts p \<and> phase p = Serving s"
    and work: "mset (pending p) \<noteq> {#} \<or> chores_left s p > 0"
  show "\<exists>q. process_step lib unmarshal args p q"
  proof (cases "pending p")
    case (Cons x xs)
    then have "pending p = [] @ x # xs" by simp
    from by_handling [OF handling.handle [OF conjunct2 [OF p] this]] show ?thesis by blast
  next
    case Nil
    with work have "fst ` set (postStartHooks s) - initialised p \<noteq> {}" by (simp add: chores_left_def card_gt_0_iff)
    then obtain x where x: "x \<in> set (postStartHooks s)" "fst x \<notin> initialised p" by blast
    obtain name err where "x = (name, err)" by (cases x)
    with x have name: "(name, err) \<in> set (postStartHooks s)" "name \<notin> initialised p" by simp_all
    from p have "postStartHooks s = [(init_name, None)] \<or> postStartHooks s = []"
      by (intro configured_initialises) (auto simp: process_ok_def)
    with name have "err = None" by auto
    with by_post_start [OF post_start.initialise [OF conjunct2 [OF p]]] name show ?thesis by blast
  qed
qed

end
