(* ===== verification/Go_Csv.thy ===== *)
theory Go_Csv
  imports Go_Prelude
begin

text \<open>
  One record of \<open>encoding/csv\<close>, read by a \<open>csv.Reader\<close> with its default settings, as
  \<open>readAsCSV\<close> of the flag library does: lines, fields with and without quotes, and the
  ways in which reading fails. The text of a failure, which has the position in the
  input, is a function of the input and the kind of failure, and a parameter.
\<close>

datatype csv_failure = CSV_EOF | ErrBareQuote | ErrQuote

type_synonym csv_texts = "csv_failure \<Rightarrow> string \<Rightarrow> gerror"

abbreviation "newline \<equiv> CHR 10"
abbreviation "carriage_return \<equiv> CHR 13"
abbreviation "quote_char \<equiv> CHR 34"
abbreviation "comma \<equiv> CHR 44"

section \<open>Lines\<close>

text \<open>\<open>readLine\<close>: a line with its line break, and the input that is left; a carriage return before the break or the end is dropped.\<close>

definition drop_return :: "string \<Rightarrow> string" where
  "drop_return line = (if line \<noteq> [] \<and> last line = carriage_return then butlast line else line)"

definition readLine :: "string \<Rightarrow> (string \<times> string) option" where
  "readLine s =
     (if s = [] then None
      else let line = drop_return (takeWhile (\<lambda>c. c \<noteq> newline) s) in
        Some (case dropWhile (\<lambda>c. c \<noteq> newline) s of [] \<Rightarrow> (line, []) | _ # more \<Rightarrow> (line @ [newline], more)))"

definition lengthNL :: "string \<Rightarrow> nat" where
  "lengthNL line = (if line \<noteq> [] \<and> last line = newline then 1 else 0)"

lemma drop_return_length: "length (drop_return line) \<le> length line"
  by (simp add: drop_return_def)

lemma readLine_shorter:
  assumes "readLine s = Some (line, rest)"
  shows "length rest < length s" and "length line + length rest \<le> length s"
proof -
  let ?line = "takeWhile (\<lambda>c. c \<noteq> newline) s" and ?rest = "dropWhile (\<lambda>c. c \<noteq> newline) s"
  have sum: "length ?line + length ?rest = length s"
    by (simp flip: length_append)
  have "s \<noteq> []" and result: "(line, rest) = (case ?rest of [] \<Rightarrow> (drop_return ?line, []) | _ # more \<Rightarrow> (drop_return ?line @ [newline], more))"
    using assms by (simp_all add: readLine_def Let_def split: if_splits)
  have "length rest < length s \<and> length line + length rest \<le> length s"
    using result \<open>s \<noteq> []\<close> sum drop_return_length [of ?line] by (cases ?rest) auto
  then show "length rest < length s" "length line + length rest \<le> length s" by simp_all
qed

text \<open>The first line that is not empty.\<close>

function first_line :: "string \<Rightarrow> (string \<times> string) option" where
  "first_line s = (case readLine s of
     None \<Rightarrow> None
   | Some (line, rest) \<Rightarrow> if length line = lengthNL line then first_line rest else Some (line, rest))"
  by pat_completeness auto
termination by (relation "measure length") (auto dest: readLine_shorter)

declare first_line.simps [simp del]

section \<open>Fields\<close>

text \<open>
  A field that starts with a quote goes on to the next quote that is not doubled, over line
  breaks. \<open>quoted_field\<close> returns the field and, when a comma follows, what comes after it.
\<close>

function quoted_field :: "string \<Rightarrow> string \<Rightarrow> string \<Rightarrow> csv_failure + string \<times> (string \<times> string) option" where
  "quoted_field acc [] rest = (case readLine rest of
     None \<Rightarrow> Inl ErrQuote
   | Some (line, rest) \<Rightarrow> quoted_field acc line rest)"
| "quoted_field acc (c # line) rest =
     (if c \<noteq> quote_char then quoted_field (acc @ [c]) line rest
      else if line \<noteq> [] \<and> hd line = quote_char then quoted_field (acc @ [quote_char]) (tl line) rest
      else if line \<noteq> [] \<and> hd line = comma then Inr (acc, Some (tl line, rest))
      else if length line = lengthNL line then Inr (acc, None)
      else Inl ErrQuote)"
  by pat_completeness auto
termination
proof (relation "measure (\<lambda>(_, line, rest). length line + 2 * length rest)")
  fix acc rest :: string and p and line rest' :: string
  assume "readLine rest = Some p" and "(line, rest') = p"
  then show "((acc, line, rest'), acc, [], rest) \<in> measure (\<lambda>(_, line, rest). length line + 2 * length rest)"
    using readLine_shorter [of rest line rest'] by auto
qed (auto simp: less_Suc_eq_le)

declare quoted_field.simps(1) [simp del]

lemma quoted_field_shorter:
  "quoted_field acc line rest = Inr (fld, Some (line', rest')) \<Longrightarrow>
   length line' + 2 * length rest' < length line + 2 * length rest"
proof (induction acc line rest rule: quoted_field.induct)
  case (1 acc rest)
  from 1(2) obtain l r where line: "readLine rest = Some (l, r)" and "quoted_field acc l r = Inr (fld, Some (line', rest'))"
    by (auto simp: quoted_field.simps(1) split: option.splits)
  with 1(1) readLine_shorter [OF line] show ?case by fastforce
next
  case (2 acc c line rest)
  then show ?case by (cases line) (auto split: if_splits)
qed

text \<open>The loop over the fields of a record.\<close>

function csv_fields :: "string \<Rightarrow> string \<Rightarrow> csv_failure + string list" where
  "csv_fields line rest =
     (if line = [] \<or> hd line \<noteq> quote_char then
        let field = takeWhile (\<lambda>c. c \<noteq> comma) line; more = dropWhile (\<lambda>c. c \<noteq> comma) line;
            text = (if more = [] then take (length field - lengthNL field) field else field) in
        if quote_char \<in> set text then Inl ErrBareQuote
        else if more = [] then Inr [text]
        else map_sum id ((#) text) (csv_fields (tl more) rest)
      else case quoted_field [] (tl line) rest of
        Inl err \<Rightarrow> Inl err
      | Inr (text, None) \<Rightarrow> Inr [text]
      | Inr (text, Some (line, rest)) \<Rightarrow> map_sum id ((#) text) (csv_fields line rest))"
  by pat_completeness auto

termination
proof (relation "measure (\<lambda>(line, rest). length line + 2 * length rest)")
  fix line rest :: string and more
  assume "more = dropWhile (\<lambda>c. c \<noteq> comma) line" and "more \<noteq> []"
  then have "0 < length more" and "length more \<le> length line"
    by (simp, simp only: length_dropWhile_le)
  then show "((tl more, rest), line, rest) \<in> measure (\<lambda>(line, rest). length line + 2 * length rest)"
    by (cases more) auto
next
  fix line rest :: string and r fld o' p and line' rest' :: string
  assume "\<not> (line = [] \<or> hd line \<noteq> quote_char)" and "quoted_field [] (tl line) rest = Inr r"
    and "(fld, o') = r" and "o' = Some p" and "(line', rest') = p"
  then show "((line', rest'), line, rest) \<in> measure (\<lambda>(line, rest). length line + 2 * length rest)"
    using quoted_field_shorter [of "[]" "tl line" rest fld line' rest'] by (cases line) auto
qed simp

declare csv_fields.simps [simp del]

definition csv_Read :: "csv_texts \<Rightarrow> string \<Rightarrow> gerror + string list" where
  "csv_Read texts s = map_sum (\<lambda>failure. texts failure s) id
     (case first_line s of None \<Rightarrow> Inl CSV_EOF | Some (line, rest) \<Rightarrow> csv_fields line rest)"

section \<open>Lists of plain fields\<close>

text \<open>Fields without commas, quotes and line breaks, joined by commas, are read back.\<close>

definition plain_field :: "string \<Rightarrow> bool" where
  "plain_field f \<longleftrightarrow> set f \<inter> {comma, quote_char, newline, carriage_return} = {}"

definition join_commas :: "string list \<Rightarrow> string" where
  "join_commas fs = (case fs of [] \<Rightarrow> [] | f # fs \<Rightarrow> f @ concat (map ((#) comma) fs))"

lemma join_commas_Cons: "fs \<noteq> [] \<Longrightarrow> join_commas (f # fs) = f @ comma # join_commas fs"
  by (cases fs) (simp_all add: join_commas_def)

lemma plain_field_chars: "plain_field f \<Longrightarrow> c \<in> set f \<Longrightarrow> c \<noteq> comma \<and> c \<noteq> quote_char \<and> c \<noteq> newline \<and> c \<noteq> carriage_return"
  unfolding plain_field_def by blast

lemma csv_fields_join:
  assumes "list_all plain_field fs" and "fs \<noteq> []"
  shows "csv_fields (join_commas fs) rest = Inr fs"
  using assms
proof (induction fs)
  case (Cons f fs)
  have plain: "c \<noteq> comma" "c \<noteq> quote_char" "c \<noteq> newline" if "c \<in> set f" for c
    using Cons.prems plain_field_chars that by auto
  have first: "s = [] \<or> hd s \<noteq> quote_char" if "s = f \<or> (\<exists>t. s = f @ comma # t)" for s
    using that plain by (cases f) auto
  have quote: "quote_char \<notin> set f" using plain by blast
  show ?case
  proof (cases "fs = []")
    case True
    have whole: "takeWhile (\<lambda>c. c \<noteq> comma) f = f" "dropWhile (\<lambda>c. c \<noteq> comma) f = []" using plain by auto
    have "lengthNL f = 0"
      using plain(3) by (metis last_in_set lengthNL_def)
    then show ?thesis
      using True quote first [of f]
      by (subst csv_fields.simps) (simp add: join_commas_def whole Let_def del: takeWhile_eq_all_conv dropWhile_eq_Nil_conv)
  next
    case False
    have "takeWhile (\<lambda>c. c \<noteq> comma) (f @ comma # s) = f" "dropWhile (\<lambda>c. c \<noteq> comma) (f @ comma # s) = comma # s" for s
      using plain by (simp_all add: takeWhile_append2 dropWhile_append2)
    then show ?thesis
      using False quote first Cons by (subst csv_fields.simps) (auto simp: join_commas_Cons)
  qed
qed simp

lemma csv_Read_join:
  assumes "list_all plain_field fs" and "join_commas fs \<noteq> []"
  shows "csv_Read texts (join_commas fs) = Inr fs"
proof -
  let ?s = "join_commas fs"
  have "fs \<noteq> []" using assms(2) by (auto simp: join_commas_def)
  have chars: "c \<noteq> newline \<and> c \<noteq> carriage_return" if "c \<in> set ?s" for c
    using assms(1) that by (auto simp: join_commas_def plain_field_def list_all_iff split: list.splits if_splits)
  then have whole: "takeWhile (\<lambda>c. c \<noteq> newline) ?s = ?s" "dropWhile (\<lambda>c. c \<noteq> newline) ?s = []" by auto
  have ends: "drop_return ?s = ?s" "lengthNL ?s = 0"
    using chars last_in_set [of ?s] unfolding drop_return_def lengthNL_def by metis+
  have "first_line ?s = Some (?s, [])"
    using assms(2) by (subst first_line.simps) (simp add: readLine_def Let_def whole ends del: takeWhile_eq_all_conv dropWhile_eq_Nil_conv)
  then show ?thesis
    by (simp add: csv_Read_def csv_fields_join [OF assms(1) \<open>fs \<noteq> []\<close>])
qed

end
