(* ===== verification/Command_Line.thy ===== *)
theory Command_Line
  imports Check_Manifests Admission Default_Comparators Go_Csv
begin

text \<open>
  The program around the two commands: the flags of \<open>AddFlags\<close>
  (\<open>pkg/cmd/options/comparators.go\<close>, \<open>check_manifests.go\<close>, \<open>check_admission.go\<close>), the commands that
  \<open>NewCheckManifestsCommand\<close> and \<open>NewCommandStartAdmissionServer\<close> build, and \<open>newCommand\<close> and
  \<open>main\<close> of \<open>cmd/crd-schema-checker/main.go\<close>. How \<open>cobra\<close> finds the command and splits the
  arguments into flags with their values is a parameter, as are the texts of the CSV errors.
\<close>

section \<open>Flags\<close>

text \<open>
  A flag holds a pointer to a field of the options. A string flag overwrites the field; a slice
  flag overwrites it when it is set for the first time and appends later, so the flag set
  remembers the slice flags that changed.
\<close>

datatype 'opts flag_value =
  String_value "string \<Rightarrow> 'opts \<Rightarrow> 'opts"
| StringSlice_value "'opts \<Rightarrow> string list" "string list \<Rightarrow> 'opts \<Rightarrow> 'opts"

type_synonym 'opts flag_set = "(string \<times> 'opts flag_value) list"
type_synonym settings = "(string \<times> string) list"

text \<open>\<open>(o *ComparatorOptions) AddFlags\<close>, on the options of a command that contain \<open>o\<close>.\<close>

definition Options_AddFlags ::
  "('opts \<Rightarrow> ComparatorOptions) \<Rightarrow> ((ComparatorOptions \<Rightarrow> ComparatorOptions) \<Rightarrow> 'opts \<Rightarrow> 'opts) \<Rightarrow>
   'opts flag_set \<Rightarrow> 'opts flag_set" where
  "Options_AddFlags get upd fs = fs @
     [(''disabled-validators'', StringSlice_value (\<lambda>opts. DisabledComparators (get opts))
         (\<lambda>v. upd (DisabledComparators_update (\<lambda>_. v)))),
      (''enabled-validators'', StringSlice_value (\<lambda>opts. EnabledComparators (get opts))
         (\<lambda>v. upd (EnabledComparators_update (\<lambda>_. v))))]"

definition Manifest_AddFlags :: "CheckManifestOptions flag_set \<Rightarrow> CheckManifestOptions flag_set" where
  "Manifest_AddFlags fs =
     Options_AddFlags manifest_ComparatorOptions manifest_ComparatorOptions_update fs @
     [(''existing-crd-filename'', String_value (\<lambda>v. ExistingCRDFile_update (\<lambda>_. v))),
      (''new-crd-filename'', String_value (\<lambda>v. NewCRDFile_update (\<lambda>_. v)))]"

text \<open>The flags of the generic admission server come first and do not touch the comparator options.\<close>

definition Check_AddFlags ::
  "AdmissionCheckOptions flag_set \<Rightarrow> AdmissionCheckOptions flag_set \<Rightarrow> AdmissionCheckOptions flag_set" where
  "Check_AddFlags server_flags fs =
     Options_AddFlags check_ComparatorOptions check_ComparatorOptions_update (fs @ server_flags)"

text \<open>\<open>readAsCSV\<close>, \<open>Set\<close> of the two kinds of value, and \<open>Set\<close> of the flag set.\<close>

definition readAsCSV :: "csv_texts \<Rightarrow> string \<Rightarrow> gerror + string list" where
  "readAsCSV csv v = (if v = [] then Inr [] else csv_Read csv v)"

lemma readAsCSV_join: "list_all plain_field fs \<Longrightarrow> join_commas fs \<noteq> [] \<Longrightarrow> readAsCSV csv (join_commas fs) = Inr fs"
  by (simp add: readAsCSV_def csv_Read_join)

definition invalid_value :: "string \<Rightarrow> string \<Rightarrow> gerror \<Rightarrow> gerror" where
  "invalid_value name v err =
     ''invalid argument '' @ Quote v @ '' for '' @ Quote (''--'' @ name) @ '' flag: '' @ err"

definition set_flag ::
  "csv_texts \<Rightarrow> 'opts flag_set \<Rightarrow> string \<Rightarrow> string \<Rightarrow> 'opts \<times> string set \<Rightarrow> gerror + 'opts \<times> string set" where
  "set_flag csv fs name v = (\<lambda>(opts, changed).
     case map_of fs name of
       None \<Rightarrow> Inr (opts, changed)
     | Some (String_value put) \<Rightarrow> Inr (put v opts, changed)
     | Some (StringSlice_value get put) \<Rightarrow>
         (case readAsCSV csv v of
            Inl err \<Rightarrow> Inl (invalid_value name v err)
          | Inr vs \<Rightarrow>
              if name \<notin> changed then Inr (put vs opts, insert name changed)
              else Inr (put (get opts @ vs) opts, insert name changed)))"

fun set_flags ::
  "csv_texts \<Rightarrow> 'opts flag_set \<Rightarrow> settings \<Rightarrow> 'opts \<times> string set \<Rightarrow> gerror + 'opts \<times> string set" where
  "set_flags csv fs [] st = Inr st"
| "set_flags csv fs ((name, v) # settings) st =
     (case set_flag csv fs name v st of Inl err \<Rightarrow> Inl err | Inr st' \<Rightarrow> set_flags csv fs settings st')"

section \<open>The commands\<close>

definition NewCheckManifestOptions :: "crdComparatorRegistry \<Rightarrow> CheckManifestOptions" where
  "NewCheckManifestOptions registry =
     \<lparr> ExistingCRDFile = [], NewCRDFile = [], manifest_ComparatorOptions = NewComparatorOptions registry \<rparr>"

text \<open>
  The code of the process, when \<open>cli.Run\<close> returns or a command ends it: \<open>klog.Fatal\<close> exits with
  255. What \<open>klog\<close> logs, the error included, does not go through the \<open>IOStreams\<close>.
\<close>

definition exit_code :: "command_end \<Rightarrow> int" where
  "exit_code e = (case e of Fatal err \<Rightarrow> 255 | Exit n \<Rightarrow> n | Returned \<Rightarrow> 0)"

definition cli_Run :: "gerror option \<Rightarrow> int" where
  "cli_Run err = (case err of Some _ \<Rightarrow> 1 | None \<Rightarrow> 0)"

text \<open>An error before a command runs is printed as it is, to the error stream.\<close>

definition usage_error :: "gerror \<Rightarrow> IOStreams \<Rightarrow> int \<times> IOStreams" where
  "usage_error err io = (cli_Run (Some err), io\<lparr>ErrOut := ErrOut io @ [''Error: '' @ err @ newline_string]\<rparr>)"

definition NewCheckManifestsCommand ::
  "csv_texts \<Rightarrow> file_reader \<Rightarrow> decoder \<Rightarrow> CheckManifestOptions \<Rightarrow> settings \<Rightarrow> IOStreams \<Rightarrow> (int \<times> IOStreams) go" where
  "NewCheckManifestsCommand csv readFile decode opts settings io =
     (case set_flags csv (Manifest_AddFlags []) settings (opts, {}) of
        Inl err \<Rightarrow> Some (usage_error err io)
      | Inr (opts, _) \<Rightarrow> do {
          (end, io) \<leftarrow> check_manifests readFile decode opts io;
          Some (exit_code end, io)
        })"

text \<open>The generic admission server: its flags and its three methods, which see the hook.\<close>

record admission_server_options =
  server_AddFlags :: "AdmissionCheckOptions flag_set"
  server_Complete :: "settings \<Rightarrow> AdmissionHook \<Rightarrow> gerror option"
  server_Validate :: "settings \<Rightarrow> string list \<Rightarrow> gerror option"
  server_Run :: "settings \<Rightarrow> AdmissionHook \<Rightarrow> gerror option"

definition NewCommandStartAdmissionServer ::
  "csv_texts \<Rightarrow> admission_server_options \<Rightarrow> AdmissionCheckOptions \<Rightarrow> settings \<Rightarrow> string list \<Rightarrow> IOStreams \<Rightarrow>
   int \<times> IOStreams" where
  "NewCommandStartAdmissionServer csv server opts settings args io =
     (case set_flags csv (Check_AddFlags (server_AddFlags server) []) settings (opts, {}) of
        Inl err \<Rightarrow> usage_error err io
      | Inr (opts, _) \<Rightarrow>
          (cli_Run (fst (admission_check (server_Complete server settings) (server_Validate server settings)
             (server_Run server settings) opts args)), io))"

section \<open>The program\<close>

record commands =
  manifests_options :: CheckManifestOptions
  admission_options :: AdmissionCheckOptions

definition newCommand :: "('str, 'decl) cel_env \<Rightarrow> commands go" where
  "newCommand env = do {
     manifestsRegistry \<leftarrow> NewDefaultComparators env;
     admissionRegistry \<leftarrow> NewDefaultComparators env;
     Some \<lparr> manifests_options = NewCheckManifestOptions manifestsRegistry,
            admission_options = NewAdmissionCheckOptions admissionRegistry \<rparr>
   }"

text \<open>
  What \<open>cobra\<close> makes of the arguments: it answers by itself, with help or with an error about them,
  and prints something; or it runs one of the three commands with the flags it found, by their
  normalised names. Among them may be the logging flags, which set nothing of the options.
\<close>

datatype dispatch =
  Answered "string list" "string list" "gerror option"
| Run_root
| Run_check_manifests settings
| Run_admission_check settings "string list"

definition main ::
  "('str, 'decl) cel_env \<Rightarrow> (string list \<Rightarrow> dispatch) \<Rightarrow> csv_texts \<Rightarrow> file_reader \<Rightarrow> decoder \<Rightarrow>
   admission_server_options \<Rightarrow> string \<Rightarrow> string list \<Rightarrow> IOStreams \<Rightarrow> (int \<times> IOStreams) go" where
  "main env cobra csv readFile decode server help args io = do {
     command \<leftarrow> newCommand env;
     case cobra args of
       Answered outs errs err \<Rightarrow>
         let io' = io\<lparr>Out := Out io @ outs, ErrOut := ErrOut io @ errs\<rparr> in
         Some (case err of None \<Rightarrow> (cli_Run None, io') | Some e \<Rightarrow> usage_error e io')
     | Run_root \<Rightarrow> Some (1, io\<lparr>Out := Out io @ [help]\<rparr>)
     | Run_check_manifests settings \<Rightarrow>
         NewCheckManifestsCommand csv readFile decode (manifests_options command) settings io
     | Run_admission_check settings rest \<Rightarrow>
         Some (NewCommandStartAdmissionServer csv server (admission_options command) settings rest io)
   }"

section \<open>What the flags amount to\<close>

lemma set_flags_snoc:
  "set_flags csv fs (settings @ [(name, v)]) st =
     (case set_flags csv fs settings st of Inl err \<Rightarrow> Inl err | Inr st' \<Rightarrow> set_flag csv fs name v st')"
proof (induction settings arbitrary: st)
  case Nil
  show ?case by (simp split: sum.split)
next
  case (Cons p settings)
  obtain n w where "p = (n, w)" by (cases p)
  with Cons show ?case by (simp split: sum.split)
qed

text \<open>The last value given for a string flag, and all values given for a slice flag, in order.\<close>

definition given_string :: "string \<Rightarrow> settings \<Rightarrow> string" where
  "given_string name settings = last ([] # map snd (filter (\<lambda>s. fst s = name) settings))"

definition given_list :: "csv_texts \<Rightarrow> string \<Rightarrow> settings \<Rightarrow> string list" where
  "given_list csv name settings =
     concat (map (\<lambda>s. case readAsCSV csv (snd s) of Inl err \<Rightarrow> [] | Inr vs \<Rightarrow> vs) (filter (\<lambda>s. fst s = name) settings))"

definition slice_flags :: "string set" where
  "slice_flags = {''disabled-validators'', ''enabled-validators''}"

definition lists_readable :: "csv_texts \<Rightarrow> settings \<Rightarrow> bool" where
  "lists_readable csv settings \<longleftrightarrow>
     list_all (\<lambda>(name, v). name \<in> slice_flags \<longrightarrow> \<not> isl (readAsCSV csv v)) settings"

definition given_options :: "crdComparatorRegistry \<Rightarrow> csv_texts \<Rightarrow> settings \<Rightarrow> ComparatorOptions" where
  "given_options r csv settings =
     options_with r (given_list csv ''enabled-validators'' settings) (given_list csv ''disabled-validators'' settings)"

lemma given_simps [simp]:
  "given_string name [] = []"
  "given_string name (settings @ [s]) = (if fst s = name then snd s else given_string name settings)"
  "given_list csv name [] = []"
  "given_list csv name (settings @ [s]) = given_list csv name settings @
     (if fst s = name then (case readAsCSV csv (snd s) of Inl err \<Rightarrow> [] | Inr vs \<Rightarrow> vs) else [])"
  by (simp_all add: given_string_def given_list_def)

lemma given_list_not_given: "name \<notin> fst ` set settings \<Longrightarrow> given_list csv name settings = []"
  by (induction settings) (auto simp: given_list_def)

lemma one_of_four:
  "(x = a \<Longrightarrow> P) \<Longrightarrow> (x = b \<Longrightarrow> P) \<Longrightarrow> (x = c \<Longrightarrow> P) \<Longrightarrow> (x = d \<Longrightarrow> P) \<Longrightarrow> (x \<notin> {a, b, c, d} \<Longrightarrow> P) \<Longrightarrow> P"
  by blast

lemma manifest_flag_lookup:
  "map_of (Manifest_AddFlags []) ''disabled-validators'' = Some (StringSlice_value
     (\<lambda>opts. DisabledComparators (manifest_ComparatorOptions opts))
     (\<lambda>v. manifest_ComparatorOptions_update (DisabledComparators_update (\<lambda>_. v))))"
  "map_of (Manifest_AddFlags []) ''enabled-validators'' = Some (StringSlice_value
     (\<lambda>opts. EnabledComparators (manifest_ComparatorOptions opts))
     (\<lambda>v. manifest_ComparatorOptions_update (EnabledComparators_update (\<lambda>_. v))))"
  "map_of (Manifest_AddFlags []) ''existing-crd-filename'' = Some (String_value (\<lambda>v. ExistingCRDFile_update (\<lambda>_. v)))"
  "map_of (Manifest_AddFlags []) ''new-crd-filename'' = Some (String_value (\<lambda>v. NewCRDFile_update (\<lambda>_. v)))"
  "name \<notin> {''disabled-validators'', ''enabled-validators'', ''existing-crd-filename'', ''new-crd-filename''} \<Longrightarrow>
   map_of (Manifest_AddFlags []) name = None"
  by (simp_all add: Manifest_AddFlags_def Options_AddFlags_def)

text \<open>So the flags of \<open>check-manifests\<close> set the options to what was given, in any order and number.\<close>

lemma manifest_flags:
  assumes "lists_readable csv settings"
  shows "set_flags csv (Manifest_AddFlags []) settings (NewCheckManifestOptions r, {}) =
    Inr (\<lparr> ExistingCRDFile = given_string ''existing-crd-filename'' settings,
           NewCRDFile = given_string ''new-crd-filename'' settings,
           manifest_ComparatorOptions = given_options r csv settings \<rparr>,
         fst ` set settings \<inter> slice_flags)"
  using assms
proof (induction settings rule: rev_induct)
  case Nil
  show ?case by (simp add: NewCheckManifestOptions_def given_options_def options_with_def NewComparatorOptions_def)
next
  case (snoc s settings)
  obtain name v where s: "s = (name, v)" by (cases s)
  have readable: "lists_readable csv settings" "name \<in> slice_flags \<Longrightarrow> \<not> isl (readAsCSV csv v)"
    using snoc.prems by (simp_all add: lists_readable_def s)
  have given: "\<exists>vs. readAsCSV csv v = Inr vs" if "name \<in> slice_flags"
    using readable(2) [OF that] by (cases "readAsCSV csv v") simp_all
  note IH = snoc.IH [OF readable(1)]
  note set = set_flags_snoc IH set_flag_def manifest_flag_lookup given_options_def options_with_def slice_flags_def
  consider "name = ''disabled-validators''" | "name = ''enabled-validators''" | "name = ''existing-crd-filename''"
    | "name = ''new-crd-filename''"
    | "name \<notin> {''disabled-validators'', ''enabled-validators'', ''existing-crd-filename'', ''new-crd-filename''}"
    by (rule one_of_four)
  then show ?case
  proof cases
    case 1
    with given obtain vs where "readAsCSV csv v = Inr vs" by (auto simp: slice_flags_def)
    with 1 show ?thesis by (auto simp: s set given_list_not_given)
  next
    case 2
    with given obtain vs where "readAsCSV csv v = Inr vs" by (auto simp: slice_flags_def)
    with 2 show ?thesis by (auto simp: s set given_list_not_given)
  qed (auto simp: s set)
qed

text \<open>With those flags the program is the command on these options.\<close>

definition given_manifest_options :: "crdComparatorRegistry \<Rightarrow> csv_texts \<Rightarrow> settings \<Rightarrow> CheckManifestOptions" where
  "given_manifest_options r csv settings =
     \<lparr> ExistingCRDFile = given_string ''existing-crd-filename'' settings,
       NewCRDFile = given_string ''new-crd-filename'' settings,
       manifest_ComparatorOptions = given_options r csv settings \<rparr>"

lemma main_check_manifests:
  assumes "NewDefaultComparators env = Some r" and "cobra args = Run_check_manifests settings"
    and "lists_readable csv settings"
  shows "main env cobra csv readFile decode server help args io =
    map_option (\<lambda>(e, io). (exit_code e, io))
      (check_manifests readFile decode (given_manifest_options r csv settings) io)"
  using assms
  by (simp add: main_def newCommand_def NewCheckManifestsCommand_def manifest_flags given_manifest_options_def
      map_conv_bind_option comp_def case_prod_unfold)

text \<open>A list that is not readable ends the program with 1 and the error about the flag.\<close>

lemma set_flags_fails_iff:
  "isl (set_flags csv (Manifest_AddFlags []) settings st) \<longleftrightarrow> \<not> lists_readable csv settings"
proof (induction settings arbitrary: st)
  case Nil
  show ?case by (simp add: lists_readable_def)
next
  case (Cons s settings)
  obtain name v where s: "s = (name, v)" by (cases s)
  obtain opts changed where st: "st = (opts, changed)" by (cases st)
  have more: "lists_readable csv (s # settings) \<longleftrightarrow>
      (name \<in> slice_flags \<longrightarrow> \<not> isl (readAsCSV csv v)) \<and> lists_readable csv settings"
    by (simp add: lists_readable_def s)
  show ?case
  proof (cases "name \<in> slice_flags")
    case True
    then have "name = ''disabled-validators'' \<or> name = ''enabled-validators''" by (simp add: slice_flags_def)
    then have "\<exists>get put. map_of (Manifest_AddFlags []) name = Some (StringSlice_value get put)"
      by (elim disjE) (hypsubst, intro exI, rule manifest_flag_lookup(1), hypsubst, intro exI, rule manifest_flag_lookup(2))
    then obtain get put where "map_of (Manifest_AddFlags []) name = Some (StringSlice_value get put)" by blast
    then show ?thesis unfolding more using True Cons.IH
      by (cases "readAsCSV csv v") (simp_all add: s st set_flag_def)
  next
    case False
    have "\<exists>st'. set_flag csv (Manifest_AddFlags []) name v st = Inr st'"
    proof (cases "name = ''existing-crd-filename'' \<or> name = ''new-crd-filename''")
      case True
      then have "\<exists>put. map_of (Manifest_AddFlags []) name = Some (String_value put)"
        by (elim disjE) (hypsubst, intro exI, rule manifest_flag_lookup(3), hypsubst, intro exI, rule manifest_flag_lookup(4))
      then show ?thesis by (auto simp: set_flag_def st)
    next
      case other: False
      then have "map_of (Manifest_AddFlags []) name = None"
        using False by (intro manifest_flag_lookup(5)) (simp add: slice_flags_def)
      then show ?thesis by (simp add: set_flag_def st)
    qed
    then show ?thesis unfolding more using False Cons.IH by (auto simp: s)
  qed
qed

lemma main_unreadable_list:
  assumes "NewDefaultComparators env = Some r" and "cobra args = Run_check_manifests settings"
    and "\<not> lists_readable csv settings"
  shows "\<exists>err. main env cobra csv readFile decode server help args io = Some (usage_error err io)"
proof -
  from assms(3) obtain err where
    "set_flags csv (Manifest_AddFlags []) settings (NewCheckManifestOptions r, {}) = Inl err"
    unfolding set_flags_fails_iff [symmetric, of _ _ "(NewCheckManifestOptions r, {})"] by (auto simp: isl_def)
  with assms(1,2) show ?thesis
    by (auto simp: main_def newCommand_def NewCheckManifestsCommand_def)
qed

lemma run_exit_code:
  "\<exists>out. map_option (\<lambda>(e, io). (exit_code e, io)) (do { (rs, failed, agg, io) \<leftarrow> x; Some (if failed then Exit 1 else Returned, io) }) = None \<or>
   map_option (\<lambda>(e, io). (exit_code e, io)) (do { (rs, failed, agg, io) \<leftarrow> x; Some (if failed then Exit 1 else Returned, io) }) = Some (0, out) \<or>
   map_option (\<lambda>(e, io). (exit_code e, io)) (do { (rs, failed, agg, io) \<leftarrow> x; Some (if failed then Exit 1 else Returned, io) }) = Some (1, out)"
  by (cases x) (auto simp: exit_code_def split: if_splits)

lemma main_fatal_iff:
  assumes "NewDefaultComparators env = Some r" and "cobra args = Run_check_manifests settings"
    and "lists_readable csv settings"
  shows "main env cobra csv readFile decode server help args io = Some (255, io) \<longleftrightarrow>
    Manifest_Validate (given_manifest_options r csv settings) \<noteq> None \<or>
    (\<exists>err. Manifest_Complete readFile decode (given_manifest_options r csv settings) = Some (Inl err))"
    (is "?main \<longleftrightarrow> Manifest_Validate ?opts \<noteq> None \<or> _")
proof -
  note runs = main_check_manifests [where env = env and r = r and cobra = cobra and args = args, OF assms, of readFile decode server "help" io]
  show ?thesis
  proof (cases "Manifest_Validate ?opts")
    case None
    show ?thesis
    proof (cases "Manifest_Complete readFile decode ?opts")
      case (Some c)
      show ?thesis
      proof (cases c)
        case (Inr cfg)
        show ?thesis
          unfolding runs check_manifests_def None option.case Some Inr bind.bind_lunit sum.case
          using run_exit_code [of "Run cfg io"] by auto
      qed (use Some None in \<open>simp add: runs check_manifests_def exit_code_def\<close>)
    qed (use None in \<open>simp add: runs check_manifests_def\<close>)
  qed (simp add: runs check_manifests_def exit_code_def)
qed

section \<open>Properties\<close>

text \<open>
  C39. The program gives up on \<open>check-manifests\<close> before any comparison, with exit code 255 and nothing
  written to its \<open>IOStreams\<close>, exactly when no new file is given, a flag names an unknown comparator, the
  existing file is given and cannot be read or decoded, or the new file cannot. A file is the
  last one that was given, and a list all that was given for it.
\<close>

theorem program_refuses_iff:
  assumes "NewDefaultComparators env = Some r" and "cobra args = Run_check_manifests settings"
    and "lists_readable csv settings"
  shows "main env cobra csv readFile decode server help args io = Some (255, io) \<longleftrightarrow>
    given_string ''new-crd-filename'' settings = [] \<or>
    \<not> set (given_list csv ''enabled-validators'' settings) \<union> set (given_list csv ''disabled-validators'' settings)
      \<subseteq> set default_names \<or>
    given_string ''existing-crd-filename'' settings \<noteq> [] \<and>
      unreadable readFile decode (given_string ''existing-crd-filename'' settings) \<or>
    (given_string ''existing-crd-filename'' settings = [] \<or>
       (\<exists>c. holds_crd readFile decode (given_string ''existing-crd-filename'' settings) c)) \<and>
      unreadable readFile decode (given_string ''new-crd-filename'' settings)"
proof -
  let ?opts = "given_manifest_options r csv settings"
  have known: "set (KnownComparators r) = set default_names"
    using NewDefaultComparators_registry [of env] assms(1) by auto
  have valid: "Options_Validate (given_options r csv settings) = None \<longleftrightarrow>
      set (given_list csv ''enabled-validators'' settings) \<union> set (given_list csv ''disabled-validators'' settings) \<subseteq> set default_names"
    unfolding Options_Validate_iff options_known_def given_options_def options_with_simps known by blast
  have opts: "ExistingCRDFile ?opts = given_string ''existing-crd-filename'' settings"
    "NewCRDFile ?opts = given_string ''new-crd-filename'' settings"
    "manifest_ComparatorOptions ?opts = given_options r csv settings"
    by (simp_all add: given_manifest_options_def)
  note refuses = main_fatal_iff [where env = env and r = r and cobra = cobra and args = args, OF assms, of readFile decode server "help" io]
  have invalid: "Manifest_Validate ?opts \<noteq> None \<longleftrightarrow>
      given_string ''new-crd-filename'' settings = [] \<or> Options_Validate (given_options r csv settings) \<noteq> None"
    by (simp add: Manifest_Validate_def opts split: option.split)
  show ?thesis
  proof (cases "Options_Validate (given_options r csv settings) = None")
    case True
    then have complete: "\<exists>cfg. Options_Complete (manifest_ComparatorOptions ?opts) = Inr cfg"
      by (simp add: opts Options_Complete_eq)
    show ?thesis
      unfolding refuses invalid Manifest_Complete_Inl_iff [OF complete] opts using True valid by blast
  next
    case False
    then show ?thesis unfolding refuses invalid valid by (simp only: simp_thms)
  qed
qed

definition idle_server :: admission_server_options where
  "idle_server = \<lparr> server_AddFlags = [], server_Complete = \<lambda>_ _. None, server_Validate = \<lambda>_ _. None,
     server_Run = \<lambda>_ _. None \<rparr>"

theorem program_refuses_iff_witness:
  "main (flat_env 1 0) (\<lambda>args. Run_check_manifests [(''disabled-validators'', hd args)]) (\<lambda>_ _. []) Inr Inl
     idle_server ''help'' [''NoMaps,NoUints''] \<lparr> Out = [], ErrOut = [] \<rparr> = Some (255, \<lparr> Out = [], ErrOut = [] \<rparr>)"
proof -
  obtain r where r: "NewDefaultComparators (flat_env 1 0) = Some r"
    using NewDefaultComparators_registry [of "flat_env 1 0"] by blast
  have "lists_readable (\<lambda>_ _. []) [(''disabled-validators'', ''NoMaps,NoUints'')]"
    using readAsCSV_join [of "[''NoMaps'', ''NoUints'']" "\<lambda>_ _. []"]
    by (simp add: lists_readable_def join_commas_def plain_field_def)
  moreover have "given_string ''new-crd-filename'' [(''disabled-validators'', ''NoMaps,NoUints'')] = []"
    by (simp add: given_string_def)
  ultimately show ?thesis
    by (subst program_refuses_iff [OF r, where settings = "[(''disabled-validators'', ''NoMaps,NoUints'')]"]) simp_all
qed

end
