(* ===== verification/Map_Order.thy ===== *)
theory Map_Order
  imports Simple_Validators Removal_Comparators New_Required_Fields
begin

text \<open>
  Go ranges over a map in an order that changes from loop to loop. In the model the order is that
  of an association list, so two runs on the same CRD are runs on two CRDs that are equal up to
  the order of their maps. This theory defines that relation, shows that the walk then visits
  the same nodes up to order, and that ten comparators give the same messages, two of them only
  when the nodes that share a path or a location agree.
\<close>

section \<open>Lists up to order\<close>

definition permuted :: "('a \<Rightarrow> 'b \<Rightarrow> bool) \<Rightarrow> 'a list \<Rightarrow> 'b list \<Rightarrow> bool" where
  "permuted R xs ys \<longleftrightarrow> (\<exists>zs. mset zs = mset ys \<and> list_all2 R xs zs)"

lemma permuted_mono [mono]:
  "(\<And>x y. R x y \<longrightarrow> S x y) \<Longrightarrow> permuted R xs ys \<longrightarrow> permuted S xs ys"
  by (auto simp: permuted_def intro: list_all2_mono)

lemma permuted_same_order: "list_all2 R xs ys \<Longrightarrow> permuted R xs ys"
  by (auto simp: permuted_def)

lemma permuted_Nil [simp]: "permuted R [] ys \<longleftrightarrow> ys = []"
  by (auto simp: permuted_def)

lemma permuted_append:
  assumes "permuted R xs ys" and "permuted R us vs"
  shows "permuted R (xs @ us) (ys @ vs)"
proof -
  obtain zs ws where "mset zs = mset ys" "list_all2 R xs zs" "mset ws = mset vs" "list_all2 R us ws"
    using assms by (auto simp: permuted_def)
  then show ?thesis
    unfolding permuted_def by (intro exI [of _ "zs @ ws"]) (simp add: list_all2_appendI)
qed

lemma permuted_concat_map:
  assumes "permuted R xs ys" and "\<And>x y. R x y \<Longrightarrow> permuted S (f x) (g y)"
  shows "permuted S (concat (map f xs)) (concat (map g ys))"
proof -
  obtain zs where zs: "mset zs = mset ys" "list_all2 R xs zs" using assms(1) by (auto simp: permuted_def)
  from zs(2) have "permuted S (concat (map f xs)) (concat (map g zs))"
    by (induction rule: list_all2_induct) (simp_all add: permuted_append assms(2))
  moreover have "mset (concat (map g zs)) = mset (concat (map g ys))"
    using zs(1) by (metis mset_concat mset_map sum_mset_sum_list)
  ultimately show ?thesis by (simp add: permuted_def)
qed

lemma permuted_map:
  assumes "permuted R xs ys" and "\<And>x y. R x y \<Longrightarrow> S (f x) (g y)"
  shows "permuted S (map f xs) (map g ys)"
proof -
  obtain zs where zs: "mset zs = mset ys" "list_all2 R xs zs" using assms(1) by (auto simp: permuted_def)
  then have "list_all2 S (map f xs) (map g zs)" "mset (map g zs) = mset (map g ys)"
    using assms(2) by (auto simp: list_all2_map1 list_all2_map2 elim: list_all2_mono)
  then show ?thesis unfolding permuted_def by blast
qed

text \<open>What is observed of the elements alike is the same multiset.\<close>

lemma permuted_mset:
  assumes "permuted R xs ys" and "\<And>x y. R x y \<Longrightarrow> f x = g y"
  shows "mset (map f xs) = mset (map g ys)"
proof -
  obtain zs where zs: "mset zs = mset ys" "list_all2 R xs zs" using assms(1) by (auto simp: permuted_def)
  from zs(2) have "map f xs = map g zs" by (induction rule: list_all2_induct) (simp_all add: assms(2))
  with zs(1) show ?thesis by simp
qed

lemma permuted_set: "permuted R xs ys \<Longrightarrow> (\<And>x y. R x y \<Longrightarrow> f x = g y) \<Longrightarrow> f ` set xs = g ` set ys"
  using permuted_mset [of R xs ys f g] by (metis list.set_map mset_eq_setD)

lemma concat_map_keep: "concat (map (\<lambda>x. if p x then [x] else []) xs) = filter p xs"
  by (induction xs) auto

lemma permuted_filter_mset:
  assumes "permuted R xs ys" and "\<And>x y. R x y \<Longrightarrow> f x = g y" and "\<And>x y. R x y \<Longrightarrow> p x = q y"
  shows "mset (map f (filter p xs)) = mset (map g (filter q ys))"
proof -
  have "permuted R (concat (map (\<lambda>x. if p x then [x] else []) xs)) (concat (map (\<lambda>x. if q x then [x] else []) ys))"
    by (rule permuted_concat_map [OF assms(1)]) (auto simp: assms(3) intro: permuted_same_order)
  then have "permuted R (filter p xs) (filter q ys)" by (simp only: concat_map_keep)
  then show ?thesis by (rule permuted_mset) (rule assms(2))
qed

lemma mset_concat_map_alike:
  assumes "list_all2 R xs ys" and "\<And>x y. R x y \<Longrightarrow> mset (f x) = mset (g y)"
  shows "mset (concat (map f xs)) = mset (concat (map g ys))"
  using assms(1) by (induction rule: list_all2_induct) (simp_all add: assms(2))

text \<open>
  A map that is written once for each element of a list. When equal keys come with equal values,
  only the pairs count and not their order.
\<close>

lemma written_last:
  "fold (\<lambda>x r. r(k x := f x)) xs r p = r p \<and> p \<notin> k ` set xs \<or>
   (p, fold (\<lambda>x r. r(k x := f x)) xs r p) \<in> (\<lambda>x. (k x, f x)) ` set xs"
  by (induction xs arbitrary: r rule: rev_induct) auto

lemma written_alike:
  assumes pairs: "(\<lambda>x. (k x, f x)) ` set xs = (\<lambda>x. (k x, f x)) ` set ys"
    and "single_valued ((\<lambda>x. (k x, f x)) ` set xs)"
  shows "fold (\<lambda>x r. r(k x := f x)) xs r = fold (\<lambda>x r. r(k x := f x)) ys r"
proof
  fix p
  have keys: "k ` set xs = k ` set ys" using pairs by (metis (no_types, lifting) fst_conv image_cong image_image)
  show "fold (\<lambda>x r. r(k x := f x)) xs r p = fold (\<lambda>x r. r(k x := f x)) ys r p"
  proof (cases "p \<in> k ` set xs")
    case True
    then have "(p, fold (\<lambda>x r. r(k x := f x)) xs r p) \<in> (\<lambda>x. (k x, f x)) ` set xs"
      and "(p, fold (\<lambda>x r. r(k x := f x)) ys r p) \<in> (\<lambda>x. (k x, f x)) ` set ys"
      using written_last [of k f xs r p] written_last [of k f ys r p] keys by blast+
    then show ?thesis unfolding pairs [symmetric] by (rule single_valuedD [OF assms(2)])
  next
    case False
    then show ?thesis using written_last [of k f xs r p] written_last [of k f ys r p] keys by auto
  qed
qed

lemma single_valued_image:
  "single_valued ((\<lambda>x. (k x, f x)) ` A) \<longleftrightarrow> (\<forall>x\<in>A. \<forall>y\<in>A. k x = k y \<longrightarrow> f x = f y)"
  by (auto simp: single_valued_def image_iff)

section \<open>Schemas up to the order of their maps\<close>

definition reordered_node ::
  "(JSONSchemaProps \<Rightarrow> JSONSchemaProps \<Rightarrow> bool) \<Rightarrow> JSONSchemaProps \<Rightarrow> JSONSchemaProps \<Rightarrow> bool" where
  "reordered_node R s t \<longleftrightarrow>
     attrs s = attrs t \<and>
     rel_option (rel_PropsOrArray R) (Items s) (Items t) \<and>
     list_all2 R (AllOf s) (AllOf t) \<and> list_all2 R (OneOf s) (OneOf t) \<and> list_all2 R (AnyOf s) (AnyOf t) \<and>
     rel_option R (Not s) (Not t) \<and>
     permuted (rel_prod (=) R) (Properties s) (Properties t) \<and>
     rel_option (rel_PropsOrBool R) (AdditionalProperties s) (AdditionalProperties t) \<and>
     permuted (rel_prod (=) R) (PatternProperties s) (PatternProperties t) \<and>
     permuted (rel_prod (=) (rel_PropsOrStringArray R)) (Dependencies s) (Dependencies t) \<and>
     rel_option (rel_PropsOrBool R) (AdditionalItems s) (AdditionalItems t) \<and>
     permuted (rel_prod (=) R) (Definitions s) (Definitions t)"

lemma reordered_node_mono [mono]:
  assumes "\<And>x y. R x y \<longrightarrow> S x y"
  shows "reordered_node R s t \<longrightarrow> reordered_node S s t"
  unfolding reordered_node_def using assms
  by (auto elim!: option.rel_mono_strong list_all2_mono PropsOrArray.rel_mono_strong PropsOrBool.rel_mono_strong
     PropsOrStringArray.rel_mono_strong
     intro: permuted_mono [rule_format, rotated] simp: rel_prod_conv split: prod.splits)

inductive reordered :: "JSONSchemaProps \<Rightarrow> JSONSchemaProps \<Rightarrow> bool" where
  "reordered_node reordered s t \<Longrightarrow> reordered s t"

lemma reordered_attrs: "reordered s t \<Longrightarrow> attrs s = attrs t"
  by (erule reordered.cases) (simp add: reordered_node_def)

text \<open>An edge and a visit alike: the same paths, and nodes and ancestors equal up to order.\<close>

definition edge_like :: "(JSONSchemaProps \<Rightarrow> JSONSchemaProps \<Rightarrow> bool) \<Rightarrow> edge \<Rightarrow> edge \<Rightarrow> bool" where
  "edge_like R = rel_prod R (=)"

definition visit_like :: "visit \<Rightarrow> visit \<Rightarrow> bool" where
  "visit_like v w \<longleftrightarrow> reordered (visit_schema v) (visit_schema w) \<and> visit_fld v = visit_fld w \<and>
     visit_loc v = visit_loc w \<and> list_all2 reordered (visit_anc v) (visit_anc w)"

lemma ptr_edge_like:
  "rel_option R s t \<Longrightarrow> permuted (edge_like R) (ptr_edge s fld loc) (ptr_edge t fld loc)"
  by (auto simp: ptr_edge_def edge_like_def intro: permuted_same_order split: option.splits)

lemma slice_edges_like:
  assumes "list_all2 R ss ts"
  shows "permuted (edge_like R) (slice_edges ss fld loc) (slice_edges ts fld loc)"
proof (rule permuted_same_order)
  have "list_all2 (edge_like R) (map (\<lambda>(i, c). (c, fld i, loc i)) (enumerate n ss))
      (map (\<lambda>(i, c). (c, fld i, loc i)) (enumerate n ts))" for n
    using assms by (induction arbitrary: n rule: list_all2_induct) (simp_all add: edge_like_def)
  then show "list_all2 (edge_like R) (slice_edges ss fld loc) (slice_edges ts fld loc)"
    by (simp add: slice_edges_def)
qed

lemma map_edges_like:
  "permuted (rel_prod (=) R) m m' \<Longrightarrow> permuted (edge_like R) (map_edges m fld loc) (map_edges m' fld loc)"
  unfolding map_edges_def by (erule permuted_map) (auto simp: edge_like_def)

lemma dependency_edges_like:
  "permuted (rel_prod (=) (rel_PropsOrStringArray R)) m m' \<Longrightarrow>
   permuted (edge_like R) (concat (map (\<lambda>(k, d). ptr_edge (deps_Schema d) (fld k) loc) m))
     (concat (map (\<lambda>(k, d). ptr_edge (deps_Schema d) (fld k) loc) m'))"
  by (erule permuted_concat_map)
    (auto simp: PropsOrStringArray.rel_sel intro!: ptr_edge_like)

lemma items_edges_like:
  assumes "rel_PropsOrArray R x y"
  shows "permuted (edge_like R)
    (ptr_edge (items_Schema x) f1 l1 @ slice_edges (JSONSchemas x) f2 l2)
    (ptr_edge (items_Schema y) f1 l1 @ slice_edges (JSONSchemas y) f2 l2)"
  using assms by (intro permuted_append ptr_edge_like slice_edges_like) (simp_all add: PropsOrArray.rel_sel)

lemma bool_edges_like:
  "rel_PropsOrBool R x y \<Longrightarrow> permuted (edge_like R) (ptr_edge (bool_Schema x) fld loc) (ptr_edge (bool_Schema y) fld loc)"
  by (rule ptr_edge_like) (simp add: PropsOrBool.rel_sel)

lemma option_edges_like:
  assumes "rel_option Q x y" and "\<And>a b. Q a b \<Longrightarrow> permuted R (f a) (g b)"
  shows "permuted R (case x of None \<Rightarrow> [] | Some a \<Rightarrow> f a) (case y of None \<Rightarrow> [] | Some b \<Rightarrow> g b)"
  using assms by (cases x; cases y) auto

lemma schema_children_like:
  assumes "reordered_node R s t"
  shows "permuted (edge_like R) (schema_children s f l) (schema_children t f l)"
  using assms unfolding schema_children_def reordered_node_def
  by (elim conjE) (intro permuted_append option_edges_like slice_edges_like map_edges_like ptr_edge_like
      dependency_edges_like items_edges_like bool_edges_like; assumption)

lemma schema_visits_like:
  assumes "reordered s t" and "list_all2 reordered a b"
  shows "permuted visit_like (schema_visits s f l a) (schema_visits t f l b)"
  using assms
proof (induction arbitrary: f l a b)
  case (1 s t)
  let ?P = "\<lambda>s t. \<forall>f l a b. list_all2 reordered a b \<longrightarrow> permuted visit_like (schema_visits s f l a) (schema_visits t f l b)"
  have both: "reordered s t"
    using 1(1) reordered_node_mono [of "\<lambda>s t. reordered s t \<and> ?P s t" reordered] by (auto intro: reordered.intros)
  have anc: "list_all2 reordered (a @ [s]) (b @ [t])" using 1(2) both by (simp add: list_all2_appendI)
  have "permuted visit_like (concat (map (\<lambda>(c, f, l). schema_visits c f l (a @ [s])) (schema_children s f l)))
      (concat (map (\<lambda>(c, f, l). schema_visits c f l (b @ [t])) (schema_children t f l)))"
    by (rule permuted_concat_map [OF schema_children_like [OF 1(1)]]) (auto simp: edge_like_def anc)
  then show ?case
    using permuted_append [OF permuted_same_order [of visit_like "[_]" "[_]"]] both 1(2)
    by (subst (1 2) schema_visits.simps) (simp add: visit_like_def)
qed

section \<open>CRDs and results up to order\<close>

definition reordered_version :: "CRDVersion \<Rightarrow> CRDVersion \<Rightarrow> bool" where
  "reordered_version v w \<longleftrightarrow> version_Name v = version_Name w \<and> Subresources v = Subresources w \<and>
     rel_option (\<lambda>x y. rel_option reordered (OpenAPIV3Schema x) (OpenAPIV3Schema y)) (Schema v) (Schema w)"

definition reordered_crd :: "CRD \<Rightarrow> CRD \<Rightarrow> bool" where
  "reordered_crd c d \<longleftrightarrow> crd_Name c = crd_Name d \<and> list_all2 reordered_version (Versions c) (Versions d)"

definition same_results :: "ComparisonResults \<Rightarrow> ComparisonResults \<Rightarrow> bool" where
  "same_results r r' \<longleftrightarrow> Name r = Name r' \<and> WhyItMatters r = WhyItMatters r' \<and>
     mset (Errors r) = mset (Errors r') \<and> mset (Warnings r) = mset (Warnings r') \<and> mset (Infos r) = mset (Infos r')"

definition same_outcome :: "outcome \<Rightarrow> outcome \<Rightarrow> bool" where
  "same_outcome = rel_option (rel_sum (=) same_results)"

lemma reordered_name: "reordered_version v w \<Longrightarrow> version_Name v = version_Name w"
  by (simp add: reordered_version_def)

lemma reordered_has_schema: "reordered_version v w \<Longrightarrow> has_schema v = has_schema w"
  by (cases "Schema v"; cases "Schema w") (auto simp: reordered_version_def has_schema_def)

lemma reordered_status: "reordered_version v w \<Longrightarrow> has_status_subresource v = has_status_subresource w"
  by (simp add: reordered_version_def has_status_subresource_def)

lemma reordered_nodes: "reordered_version v w \<Longrightarrow> permuted visit_like (version_nodes v) (version_nodes w)"
  by (cases "Schema v"; cases "Schema w")
    (auto simp: reordered_version_def version_nodes_def node_list_def option.rel_sel
       intro!: schema_visits_like split: option.splits)

lemma reordered_crd_ok: "reordered_crd c d \<Longrightarrow> crd_ok c = crd_ok d"
proof -
  have "list_all2 reordered_version vs ws \<Longrightarrow> list_all has_schema vs = list_all has_schema ws" for vs ws
    by (induction rule: list_all2_induct) (simp_all add: reordered_has_schema)
  then show "reordered_crd c d \<Longrightarrow> crd_ok c = crd_ok d" by (simp add: reordered_crd_def crd_ok_def)
qed

lemma visit_like_loc: "visit_like v w \<Longrightarrow> loc_string v = loc_string w"
  by (simp add: visit_like_def loc_string_def)

lemma visit_like_attrs: "visit_like v w \<Longrightarrow> attrs (visit_schema v) = attrs (visit_schema w)"
  by (simp add: visit_like_def reordered_attrs)

lemma reordered_maps: "reordered s t \<Longrightarrow> (AdditionalProperties s = None) = (AdditionalProperties t = None)"
  by (cases "AdditionalProperties s"; cases "AdditionalProperties t") (auto elim: reordered.cases simp: reordered_node_def)

lemma visit_like_maps:
  "visit_like v w \<Longrightarrow> (AdditionalProperties (visit_schema v) = None) = (AdditionalProperties (visit_schema w) = None)"
  by (simp add: visit_like_def reordered_maps)

lemmas visit_likes = visit_like_loc visit_like_attrs visit_like_maps

section \<open>Comparators that do not see the order\<close>

locale order_free_validator =
  fixes validate :: validate_fun
    and ok :: "CRD \<Rightarrow> bool"
  assumes validate_alike: "reordered_crd c d \<Longrightarrow> ok c \<Longrightarrow> same_outcome (validate c) (validate d)"

locale order_free_comparator =
  fixes compare_crds :: compare_fun
    and ok :: "CRD \<Rightarrow> bool"
  assumes compare_alike: "rel_option reordered_crd e e' \<Longrightarrow> reordered_crd n n' \<Longrightarrow> pred_option ok e \<Longrightarrow> ok n \<Longrightarrow>
    same_outcome (compare_crds e n) (compare_crds e' n')"

lemma same_filter:
  "mset ys = mset ys' \<Longrightarrow> filter_mset (\<lambda>m. m \<notin> set ys) M = filter_mset (\<lambda>m. m \<notin> set ys') M"
  by (metis mset_eq_setD)

lemma ratchet_alike:
  assumes "\<And>c d. reordered_crd c d \<Longrightarrow> ok c \<Longrightarrow> same_outcome (validate c) (validate d)"
    and "rel_option reordered_crd e e'" and "reordered_crd n n'" and "pred_option ok e" and "ok n"
  shows "same_outcome (RatchetCompare validate e n) (RatchetCompare validate e' n')"
proof -
  have "same_outcome (case e of None \<Rightarrow> Some (Inr zero_results) | Some c \<Rightarrow> validate c)
      (case e' of None \<Rightarrow> Some (Inr zero_results) | Some c \<Rightarrow> validate c)"
    using assms(1,2,4) by (cases e; cases e') (auto simp: same_outcome_def same_results_def)
  then show ?thesis
    using assms(1) [OF assms(3,5)] unfolding RatchetCompare_def same_outcome_def
    by (cases rule: option.rel_cases)
      (auto simp: same_results_def stringDiff_filter rel_sum.simps
         split: option.split sum.split elim!: option.rel_cases intro!: same_filter)
qed

sublocale order_free_validator \<subseteq> ratchet: order_free_comparator "RatchetCompare validate" ok
  by unfold_locales (rule ratchet_alike [OF validate_alike])

text \<open>Validators of single fields.\<close>

lemma field_complaints_alike:
  assumes "reordered_crd c d" and "\<And>v w. visit_like v w \<Longrightarrow> offends v = offends w"
  shows "mset (field_complaints offends complaint c) = mset (field_complaints offends complaint d)"
proof -
  have vs: "list_all2 reordered_version (Versions c) (Versions d)" and name: "crd_Name c = crd_Name d"
    using assms(1) by (simp_all add: reordered_crd_def)
  show ?thesis
    unfolding field_complaints_def name
  proof (rule mset_concat_map_alike [OF vs])
    fix v w
    assume "reordered_version v w"
    then show "mset (map (\<lambda>n. complaint (crd_Name d) (version_Name v) (loc_string n)) (filter offends (version_nodes v))) =
        mset (map (\<lambda>n. complaint (crd_Name d) (version_Name w) (loc_string n)) (filter offends (version_nodes w)))"
      using permuted_filter_mset [OF reordered_nodes, of v w "\<lambda>n. complaint (crd_Name d) (version_Name w) (loc_string n)"
          "\<lambda>n. complaint (crd_Name d) (version_Name w) (loc_string n)" offends offends]
      by (simp only: reordered_name visit_like_loc assms(2) simp_thms)
  qed
qed

lemma field_validator_alike:
  assumes "field_validator validate cname why offends complaint"
    and "\<And>v w. visit_like v w \<Longrightarrow> offends v = offends w"
  shows "order_free_validator validate (\<lambda>_. True)"
proof
  show "same_outcome (validate c) (validate d)" if "reordered_crd c d" for c d
    using field_complaints_alike [OF that assms(2)] reordered_crd_ok [OF that]
    by (simp add: field_validator.validate_eq [OF assms(1)] same_outcome_def same_results_def)
qed

interpretation free_noBools: order_free_validator noBools_Validate "\<lambda>_. True"
  by (rule field_validator_alike [OF noBools.field_validator_axioms]) (simp add: noBools_offends_def visit_likes)

interpretation free_noFloats: order_free_validator noFloats_Validate "\<lambda>_. True"
  by (rule field_validator_alike [OF noFloats.field_validator_axioms]) (simp add: noFloats_offends_def visit_likes)

interpretation free_noUints: order_free_validator noUints_Validate "\<lambda>_. True"
  by (rule field_validator_alike [OF noUints.field_validator_axioms]) (simp add: noUints_offends_def visit_likes)

interpretation free_noMaps: order_free_validator noMaps_Validate "\<lambda>_. True"
  by (rule field_validator_alike [OF noMaps.field_validator_axioms]) (simp add: noMaps_offends_def visit_likes)

interpretation free_lists: order_free_validator listsMustHaveSSATags_Validate "\<lambda>_. True"
  by (rule field_validator_alike [OF listsMustHaveSSATags.field_validator_axioms])
    (simp add: listsMustHaveSSATags_offends_def visit_likes)

lemma status_alike:
  assumes "reordered_version v w"
  shows "status_missing v = status_missing w"
proof -
  have "loc_string ` set (version_nodes v) = loc_string ` set (version_nodes w)"
    by (rule permuted_set [OF reordered_nodes [OF assms]]) (rule visit_like_loc)
  then have "(\<exists>n\<in>set (version_nodes v). at_status n) = (\<exists>n\<in>set (version_nodes w). at_status n)"
    unfolding at_status_def by (metis imageE imageI)
  then show ?thesis using reordered_status [OF assms] by (simp add: status_missing_def)
qed

interpretation free_status: order_free_validator mustHaveStatus_Validate "\<lambda>_. True"
proof
  fix c d :: CRD
  assume cd: "reordered_crd c d"
  then have vs: "list_all2 reordered_version (Versions c) (Versions d)" and name: "crd_Name c = crd_Name d"
    by (simp_all add: reordered_crd_def)
  from vs have "status_ok c = status_ok d" unfolding status_ok_def
    by (induction rule: list_all2_induct) (auto simp: reordered_status reordered_has_schema)
  moreover from vs have "map (\<lambda>v. mustHaveStatus_complaint k (version_Name v)) (filter status_missing (Versions c)) =
      map (\<lambda>v. mustHaveStatus_complaint k (version_Name v)) (filter status_missing (Versions d))" for k
    by (induction rule: list_all2_induct) (simp_all add: status_alike reordered_name)
  ultimately show "same_outcome (mustHaveStatus_Validate c) (mustHaveStatus_Validate d)"
    by (simp add: mustHaveStatus_Validate_eq same_outcome_def same_results_def name)
qed

text \<open>
  Comparators of versions. The pairs that are compared are alike, so it is enough that the checks
  of one pair report the same.
\<close>

definition versions_ok :: "(CRDVersion \<Rightarrow> bool) \<Rightarrow> CRD \<Rightarrow> bool" where
  "versions_ok okv c \<longleftrightarrow> crd_ok c \<and> list_all okv (Versions c)"

definition pair_alike :: "(CRDVersion \<Rightarrow> bool) \<Rightarrow> CRDVersion \<times> CRDVersion \<Rightarrow> CRDVersion \<times> CRDVersion \<Rightarrow> bool" where
  "pair_alike okv p q \<longleftrightarrow> rel_prod reordered_version reordered_version p q \<and>
     okv (fst p) \<and> okv (snd p) \<and> has_schema (fst p) \<and> has_schema (snd p)"

lemma find_version_alike:
  "list_all2 reordered_version vs ws \<Longrightarrow> rel_option reordered_version (find_version vs k) (find_version ws k)"
  by (induction rule: list_all2_induct) (simp_all add: reordered_name)

lemma version_pairs_alike:
  assumes "reordered_crd e e'" and "reordered_crd n n'" and "versions_ok okv e" and "versions_ok okv n"
  shows "list_all2 (pair_alike okv) (version_pairs e n) (version_pairs e' n')"
proof -
  let ?pairs = "\<lambda>e vs. concat (map (\<lambda>v. case find_version (Versions e) (version_Name v) of None \<Rightarrow> [] | Some u \<Rightarrow> [(u, v)]) vs)"
  have found: "okv u \<and> has_schema u" if "find_version (Versions e) k = Some u" for k u
    using that assms(3) GetVersionByName_Some [of e k u]
    by (auto simp: versions_ok_def crd_ok_def list_all_iff GetVersionByName_def)
  have "list_all2 (pair_alike okv) (?pairs e vs) (?pairs e' ws)"
    if "list_all2 reordered_version vs ws" "list_all (\<lambda>v. okv v \<and> has_schema v) vs" for vs ws
    using that
  proof (induction rule: list_all2_induct)
    case (Cons v vs w ws)
    have "rel_option reordered_version (find_version (Versions e) (version_Name v)) (find_version (Versions e') (version_Name w))"
      using assms(1) Cons.hyps(1) by (simp add: find_version_alike reordered_crd_def reordered_name)
    then show ?case
      using Cons by (cases rule: option.rel_cases) (auto simp: pair_alike_def dest: found)
  qed simp
  moreover have "list_all2 reordered_version (Versions n) (Versions n')" "list_all (\<lambda>v. okv v \<and> has_schema v) (Versions n)"
    using assms(2,4) by (auto simp: reordered_crd_def versions_ok_def crd_ok_def list_all_iff)
  ultimately show ?thesis by (simp add: version_pairs_def GetVersionByName_def)
qed

definition same_messages :: "string list go \<Rightarrow> string list go \<Rightarrow> bool" where
  "same_messages x y \<longleftrightarrow> rel_option (\<lambda>xs ys. mset xs = mset ys) x y"

lemma version_comparator_alike:
  assumes "version_comparator compare_crds cname why check settled"
    and "\<And>k u v u' v'. pair_alike okv (u, v) (u', v') \<Longrightarrow> same_messages (check k u v) (check k u' v')"
  shows "order_free_comparator compare_crds (versions_ok okv)"
proof
  fix e e' :: "CRD option" and n n' :: CRD
  assume alike: "rel_option reordered_crd e e'" "reordered_crd n n'"
    and ok: "pred_option (versions_ok okv) e" "versions_ok okv n"
  note vc = version_comparator.compare_eq [OF assms(1)] version_comparator.compare_some [OF assms(1)]
  from alike(1) show "same_outcome (compare_crds e n) (compare_crds e' n')"
  proof (cases rule: option.rel_cases)
    case None
    then show ?thesis by (simp add: vc(1) same_outcome_def same_results_def)
  next
    case (Some c d)
    have name: "crd_Name n = crd_Name n'" using alike(2) by (simp add: reordered_crd_def)
    have oks: "crd_ok c" "crd_ok n" "crd_ok d" "crd_ok n'"
      using ok Some alike(2) by (simp_all add: versions_ok_def flip: reordered_crd_ok)
    have "mset (check_messages check c n) = mset (check_messages check d n')"
      unfolding check_messages_def name
    proof (rule mset_concat_map_alike)
      show "list_all2 (pair_alike okv) (version_pairs c n) (version_pairs d n')"
        using version_pairs_alike [OF Some(3) alike(2)] ok Some by simp
      show "mset (case p of (u, v) \<Rightarrow> case check (crd_Name n') u v of None \<Rightarrow> [] | Some errs \<Rightarrow> errs) =
          mset (case q of (u, v) \<Rightarrow> case check (crd_Name n') u v of None \<Rightarrow> [] | Some errs \<Rightarrow> errs)"
        if "pair_alike okv p q" for p q
        using assms(2) [of "fst p" "snd p" "fst q" "snd q" "crd_Name n'"] that
        by (auto simp: same_messages_def case_prod_unfold option.rel_sel split: option.split)
    qed
    then show ?thesis
      by (simp add: Some(1,2) vc(2) oks same_outcome_def same_results_def)
  qed
qed

lemma reordered_locations:
  assumes "reordered_version v w"
  shows "locations (version_nodes v) = locations (version_nodes w)"
  unfolding locations_def by (rule permuted_set [OF reordered_nodes [OF assms]]) (rule visit_like_loc)

interpretation free_noFieldRemoval: order_free_comparator noFieldRemoval_Compare "versions_ok (\<lambda>_. True)"
proof (rule version_comparator_alike [OF noFieldRemoval.version_comparator_axioms])
  show "same_messages (noFieldRemoval_version k u v) (noFieldRemoval_version k u' v')"
    if "pair_alike (\<lambda>_. True) (u, v) (u', v')" for k u v u' v'
    using that by (auto simp: pair_alike_def same_messages_def noFieldRemoval_version_eq reordered_has_schema
        reordered_locations reordered_name)
qed

lemma reordered_enums:
  assumes "reordered_version v w"
  shows "enums_at (version_nodes v) = enums_at (version_nodes w)"
proof -
  have "(\<lambda>n. (loc_string n, Enum (attrs (visit_schema n)))) ` set (version_nodes v) =
      (\<lambda>n. (loc_string n, Enum (attrs (visit_schema n)))) ` set (version_nodes w)"
    by (rule permuted_set [OF reordered_nodes [OF assms]]) (simp add: visit_likes)
  moreover have "enums_at vs = (\<lambda>loc. \<Union>(l, es)\<in>(\<lambda>n. (loc_string n, Enum (attrs (visit_schema n)))) ` set vs.
      if l = loc then Raw ` set es else {})" for vs
    by (auto simp: enums_at_def fun_eq_iff split: if_splits)
  ultimately show ?thesis by (simp only:)
qed

text \<open>Two tables with different keys and the same entries list the same messages.\<close>

lemma mset_tables:
  assumes "distinct (map fst m)" and "distinct (map fst n)" and "map_of m = map_of n"
  shows "mset m = mset n"
proof -
  have "set m = set n" using assms by (metis map_of_inject_set)
  then show ?thesis using assms(1,2) by (metis distinct_map set_eq_iff_mset_eq_distinct)
qed

interpretation free_noEnumRemoval: order_free_comparator noEnumRemoval_Compare "versions_ok (\<lambda>_. True)"
proof (rule version_comparator_alike [OF noEnumRemoval.version_comparator_axioms])
  fix k u v u' v'
  assume "pair_alike (\<lambda>_. True) (u, v) (u', v')"
  then have alike: "reordered_version u u'" "reordered_version v v'"
    and schema: "has_schema u" "has_schema v" "has_schema u'" "has_schema v'"
    by (auto simp: pair_alike_def reordered_has_schema)
  obtain em nm em' nm' where tables:
    "getEnums u = Some em" "enum_table (version_nodes u) em" "getEnums v = Some nm" "enum_table (version_nodes v) nm"
    "getEnums u' = Some em'" "enum_table (version_nodes u') em'" "getEnums v' = Some nm'" "enum_table (version_nodes v') nm'"
    using getEnums_Some [OF schema(1)] getEnums_Some [OF schema(2)] getEnums_Some [OF schema(3)]
      getEnums_Some [OF schema(4)] by blast
  have "mset em = mset em'"
    using tables(2,6) reordered_enums [OF alike(1)] by (intro mset_tables) (auto simp: enum_table_def)
  then have "mset (concat (map f em)) = mset (concat (map f em'))" for f :: "string \<times> strset \<Rightarrow> string list"
    by (metis mset_concat mset_map sum_mset_sum_list)
  moreover have "map_of nm = map_of nm'"
    using tables(4,8) reordered_enums [OF alike(2)] by (auto simp: enum_table_def)
  ultimately show "same_messages (noEnumRemoval_version k u v) (noEnumRemoval_version k u' v')"
    unfolding noEnumRemoval_version_def reordered_name [OF alike(2)]
    by (simp add: same_messages_def tables(1,3,5,7))
qed

text \<open>
  \<open>NoDataTypeChange\<close> records the type of the node it visits last at a location, so it needs the
  nodes of a location to have one type.
\<close>

definition one_type_each :: "CRDVersion \<Rightarrow> bool" where
  "one_type_each v \<longleftrightarrow> (\<forall>n\<in>set (version_nodes v). \<forall>m\<in>set (version_nodes v).
     loc_string n = loc_string m \<longrightarrow> Type (attrs (visit_schema n)) = Type (attrs (visit_schema m)))"

lemma recorded_type_written:
  "recorded_type vs = fold (\<lambda>n r. r(loc_string n := Some (Type (attrs (visit_schema n))))) vs Map.empty"
  by (induction vs rule: rev_induct) simp_all

lemma reordered_recorded_type:
  assumes "reordered_version v w" and "one_type_each v"
  shows "recorded_type (version_nodes v) = recorded_type (version_nodes w)"
  unfolding recorded_type_written
proof (rule written_alike)
  show "(\<lambda>n. (loc_string n, Some (Type (attrs (visit_schema n))))) ` set (version_nodes v) =
      (\<lambda>n. (loc_string n, Some (Type (attrs (visit_schema n))))) ` set (version_nodes w)"
    by (rule permuted_set [OF reordered_nodes [OF assms(1)]]) (simp add: visit_likes)
  show "single_valued ((\<lambda>n. (loc_string n, Some (Type (attrs (visit_schema n))))) ` set (version_nodes v))"
    unfolding single_valued_image option.inject by (rule assms(2) [unfolded one_type_each_def])
qed

interpretation free_noDataTypeChange: order_free_comparator noDataTypeChange_Compare "versions_ok one_type_each"
proof (rule version_comparator_alike [OF noDataTypeChange.version_comparator_axioms])
  fix k u v u' v'
  assume "pair_alike one_type_each (u, v) (u', v')"
  then have alike: "reordered_version u u'" "reordered_version v v'" and one: "one_type_each u" "one_type_each v"
    and schema: "has_schema u" "has_schema v" "has_schema u'" "has_schema v'"
    by (auto simp: pair_alike_def reordered_has_schema)
  obtain em nm em' nm' where tables:
    "getFieldsAndTypes u = Some em" "type_table (version_nodes u) em" "getFieldsAndTypes v = Some nm"
    "type_table (version_nodes v) nm" "getFieldsAndTypes u' = Some em'" "type_table (version_nodes u') em'"
    "getFieldsAndTypes v' = Some nm'" "type_table (version_nodes v') nm'"
    using getFieldsAndTypes_Some [OF schema(1)] getFieldsAndTypes_Some [OF schema(2)]
      getFieldsAndTypes_Some [OF schema(3)] getFieldsAndTypes_Some [OF schema(4)] by blast
  have "map_of em = map_of em'" "map_of nm = map_of nm'"
    using tables(2,4,6,8) reordered_recorded_type [OF alike(1) one(1)] reordered_recorded_type [OF alike(2) one(2)]
    by (auto simp: type_table_def)
  then have "mset (getChangedTypes em nm) = mset (getChangedTypes em' nm')"
    using tables(2,6) getChangedTypes_spec [of em nm] getChangedTypes_spec [of em' nm']
    by (intro mset_tables) (simp_all add: type_table_def)
  then show "same_messages (noDataTypeChange_version k u v) (noDataTypeChange_version k u' v')"
    by (simp add: same_messages_def noDataTypeChange_version_def tables(1,3,5,7) reordered_name [OF alike(2)])
qed

text \<open>
  \<open>NoNewRequiredFields\<close> keeps the requirements and the location of the node visited last at a
  field path, so it needs the nodes of a path to agree on both.
\<close>

definition trail_like :: "trail_visit \<Rightarrow> trail_visit \<Rightarrow> bool" where
  "trail_like t t' \<longleftrightarrow> reordered (at_schema t) (at_schema t') \<and> at_fld t = at_fld t' \<and> at_loc t = at_loc t' \<and>
     list_all2 (rel_prod reordered (=)) (at_trail t) (at_trail t')"

lemma trail_visits_like:
  assumes "reordered s t" and "list_all2 (rel_prod reordered (=)) a b"
  shows "permuted trail_like (trail_visits s f l a) (trail_visits t f l b)"
  using assms
proof (induction arbitrary: f l a b)
  case (1 s t)
  let ?P = "\<lambda>s t. \<forall>f l a b. list_all2 (rel_prod reordered (=)) a b \<longrightarrow> permuted trail_like (trail_visits s f l a) (trail_visits t f l b)"
  have both: "reordered s t"
    using 1(1) reordered_node_mono [of "\<lambda>s t. reordered s t \<and> ?P s t" reordered] by (auto intro: reordered.intros)
  have anc: "list_all2 (rel_prod reordered (=)) (a @ [(s, f)]) (b @ [(t, f)])"
    using 1(2) both by (simp add: list_all2_appendI)
  have "permuted trail_like (concat (map (\<lambda>(c, f', l). trail_visits c f' l (a @ [(s, f)])) (schema_children s f l)))
      (concat (map (\<lambda>(c, f', l). trail_visits c f' l (b @ [(t, f)])) (schema_children t f l)))"
    by (rule permuted_concat_map [OF schema_children_like [OF 1(1)]]) (auto simp: edge_like_def anc)
  then show ?case
    using permuted_append [OF permuted_same_order [of trail_like "[_]" "[_]"]] both 1(2)
    by (subst (1 2) trail_visits.simps) (simp add: trail_like_def)
qed

lemma reordered_trails: "reordered_version v w \<Longrightarrow> permuted trail_like (version_trails v) (version_trails w)"
  by (cases "Schema v"; cases "Schema w")
    (auto simp: reordered_version_def version_trails_def trail_nodes_def option.rel_sel
       intro!: trail_visits_like split: option.splits)

lemma trail_like_paths: "trail_like t t' \<Longrightarrow> path_String (at_fld t) = path_String (at_fld t')"
  "trail_like t t' \<Longrightarrow> path_String (at_loc t) = path_String (at_loc t')"
  "trail_like t t' \<Longrightarrow> attrs (at_schema t) = attrs (at_schema t')"
  by (simp_all add: trail_like_def reordered_attrs)

lemma new_optional_alike:
  assumes "list_all2 (rel_prod reordered (=)) tr tr'"
  shows "new_optional_ancestor tr existing req = new_optional_ancestor tr' existing req"
proof -
  have len: "length tr = length tr'" using assms by (rule list_all2_lengthD)
  have nth: "snd (tr ! i) = snd (tr' ! i)" "attrs (fst (tr ! i)) = attrs (fst (tr' ! i))" if "i < length tr" for i
    using list_all2_nthD [OF assms that] by (auto simp: rel_prod_sel reordered_attrs)
  have opt: "field_optional (fst (tr ! i)) (take i tr) (snd (tr ! i)) req =
      field_optional (fst (tr' ! i)) (take i tr') (snd (tr' ! i)) req" if "i < length tr" for i
    using nth [OF that] nth [of "i - 1"] that len
    by (cases i) (auto simp: field_optional_def optional_array_def take_Suc_conv_app_nth)
  have "new_optional_at tr existing req i = new_optional_at tr' existing req i" if "i < length tr" for i
  proof -
    have "i - 1 < length tr" using that by simp
    note parent = nth [OF this]
    show ?thesis unfolding new_optional_at_def opt [OF that] by (simp only: nth [OF that] parent)
  qed
  then show ?thesis by (auto simp: new_optional_ancestor_def len)
qed

lemma required_at_alike:
  assumes "trail_like t t'"
  shows "required_at old_req existing req simple t = required_at old_req existing req simple t'"
proof -
  have tr: "list_all2 (rel_prod reordered (=)) (at_trail t) (at_trail t')" using assms by (simp add: trail_like_def)
  have "at_trail t = [] \<longleftrightarrow> at_trail t' = []" using tr by auto
  moreover have "snd (last (at_trail t)) = snd (last (at_trail t'))" if "at_trail t' \<noteq> []"
    using tr that by (induction rule: list_all2_induct) (auto simp: rel_prod_sel)
  ultimately have "field_optional (at_schema t) (at_trail t) (at_fld t) req =
      field_optional (at_schema t') (at_trail t') (at_fld t') req"
    by (auto simp: field_optional_def optional_array_def trail_like_paths [OF assms])
  then show ?thesis
    unfolding required_at_def Let_def trail_like_paths [OF assms] new_optional_alike [OF tr] optional_array_def
    by simp
qed

definition paths_settled :: "CRDVersion \<Rightarrow> bool" where
  "paths_settled v \<longleftrightarrow> (\<forall>t\<in>set (version_trails v). \<forall>t'\<in>set (version_trails v).
     path_String (at_fld t) = path_String (at_fld t') \<longrightarrow>
     set (Required (attrs (at_schema t))) = set (Required (attrs (at_schema t'))) \<and>
     path_String (at_loc t) = path_String (at_loc t'))"

lemma reordered_tables:
  assumes "reordered_version v w" and "paths_settled v"
  shows "required_table (version_trails v) = required_table (version_trails w)"
    and "location_table (version_trails v) r = location_table (version_trails w) r"
    and "visited_paths (version_trails v) = visited_paths (version_trails w)"
proof -
  note same = permuted_set [OF reordered_trails [OF assms(1)]]
  have agree: "set (Required (attrs (at_schema t))) = set (Required (attrs (at_schema t')))"
    "path_String (at_loc t) = path_String (at_loc t')"
    if "t \<in> set (version_trails v)" "t' \<in> set (version_trails v)" "path_String (at_fld t) = path_String (at_fld t')" for t t'
    using assms(2) [unfolded paths_settled_def, rule_format, OF that] by simp_all
  show "required_table (version_trails v) = required_table (version_trails w)"
    unfolding required_table_def
    by (rule written_alike) (rule same, simp add: trail_like_paths, simp only: single_valued_image, intro ballI impI agree)
  show "location_table (version_trails v) r = location_table (version_trails w) r"
    unfolding location_table_def
    by (rule written_alike) (rule same, simp add: trail_like_paths, simp only: single_valued_image, intro ballI impI agree)
  show "visited_paths (version_trails v) = visited_paths (version_trails w)"
    unfolding visited_paths_def by (rule same) (simp add: trail_like_paths)
qed

interpretation free_noNewRequiredFields: order_free_comparator noNewRequiredFields_Compare "versions_ok paths_settled"
proof (rule version_comparator_alike [OF noNewRequiredFields.version_comparator_axioms])
  fix k u v u' v'
  assume "pair_alike paths_settled (u, v) (u', v')"
  then have alike: "reordered_version u u'" "reordered_version v v'" and settled: "paths_settled u" "paths_settled v"
    and schema: "has_schema u" "has_schema v" "has_schema u'" "has_schema v'"
    by (auto simp: pair_alike_def reordered_has_schema)
  have "required_fields (version_trails u) (version_trails v) = required_fields (version_trails u') (version_trails v')"
    unfolding required_fields_def reordered_tables [OF alike(1) settled(1)] reordered_tables [OF alike(2) settled(2)]
    by (intro arg_cong [where f = Union] permuted_set [OF reordered_trails [OF alike(2)]] required_at_alike)
  then show "same_messages (noNewRequiredFields_check k u v) (noNewRequiredFields_check k u' v')"
    by (simp add: same_messages_def noNewRequiredFields_check_trails schema reordered_name [OF alike(2)])
qed

section \<open>Examples of reordering\<close>

lemma reordered_refl [simp]: "reordered s s"
proof (induction s)
  case (JSONSchemaProps a items allOf oneOf anyOf nt props ap pp deps ai defs)
  note below = option.rel_refl_strong PropsOrArray.rel_refl_strong PropsOrBool.rel_refl_strong
    PropsOrStringArray.rel_refl_strong list.rel_refl_strong
  show ?case
    by (rule reordered.intros, unfold reordered_node_def JSONSchemaProps.sel, intro conjI below permuted_same_order)
      (auto simp: rel_prod_sel prod_set_defs intro!: below intro: JSONSchemaProps)
qed

lemma reordered_object:
  assumes "mset ps = mset qs"
  shows "reordered (object_schema a ps) (object_schema a qs)"
proof -
  have "permuted (rel_prod (=) reordered) ps qs"
    unfolding permuted_def using assms by (intro exI [of _ ps]) (simp add: list.rel_refl_strong rel_prod_sel)
  then show ?thesis
    by (intro reordered.intros) (simp add: reordered_node_def object_schema_def)
qed

lemma reordered_widgets: "reordered s t \<Longrightarrow> reordered_crd (widgets s) (widgets t)"
  by (simp add: reordered_crd_def widgets_def widget_version_def reordered_version_def)

lemma reordered_crd_refl: "reordered_crd c c"
  by (auto simp: reordered_crd_def reordered_version_def intro!: list.rel_refl_strong option.rel_refl_strong)

definition turned_widgets :: CRD where
  "turned_widgets = widgets (widget_object [(''on'', boolean_field), (''name'', string_field)])"

lemma reordered_switch: "reordered_crd switch_widgets turned_widgets"
  unfolding switch_widgets_def turned_widgets_def widget_object_def
  by (rule reordered_widgets [OF reordered_object]) simp

text \<open>An object whose properties may match one of two patterns, at the location of the object itself.\<close>

definition patterned_widgets :: "(string \<times> JSONSchemaProps) list \<Rightarrow> CRD" where
  "patterned_widgets patterns = widgets
     (JSONSchemaProps zero_attrs None [] [] [] None [] None patterns [] None [])"

lemma reordered_patterned:
  "mset ps = mset qs \<Longrightarrow> reordered_crd (patterned_widgets ps) (patterned_widgets qs)"
proof -
  assume "mset ps = mset qs"
  then have "permuted (rel_prod (=) reordered) ps qs"
    unfolding permuted_def by (intro exI [of _ ps]) (simp add: list.rel_refl_strong rel_prod_sel)
  then show ?thesis
    unfolding patterned_widgets_def by (intro reordered_widgets reordered.intros) (simp add: reordered_node_def)
qed

section \<open>Properties\<close>

text \<open>
  The order in which Go ranges over the maps of a schema does not matter to eight comparators:
  two comparisons of the same CRDs, in any two orders, give the same messages of each severity the
  same number of times.
\<close>

theorem answers_do_not_depend_on_map_order:
  assumes "rel_option reordered_crd existing existing'" and "reordered_crd new new'"
    and "pred_option crd_ok existing" and "crd_ok new"
  shows "same_outcome (noBools_Compare existing new) (noBools_Compare existing' new') \<and>
    same_outcome (noFloats_Compare existing new) (noFloats_Compare existing' new') \<and>
    same_outcome (noUints_Compare existing new) (noUints_Compare existing' new') \<and>
    same_outcome (noMaps_Compare existing new) (noMaps_Compare existing' new') \<and>
    same_outcome (listsMustHaveSSATags_Compare existing new) (listsMustHaveSSATags_Compare existing' new') \<and>
    same_outcome (mustHaveStatus_Compare existing new) (mustHaveStatus_Compare existing' new') \<and>
    same_outcome (noFieldRemoval_Compare existing new) (noFieldRemoval_Compare existing' new') \<and>
    same_outcome (noEnumRemoval_Compare existing new) (noEnumRemoval_Compare existing' new')"
proof -
  have "pred_option (versions_ok (\<lambda>_. True)) existing" "versions_ok (\<lambda>_. True) new"
    using assms(3,4) by (cases existing; simp add: versions_ok_def list_all_iff)+
  note removals = free_noFieldRemoval.compare_alike [OF assms(1,2) this] free_noEnumRemoval.compare_alike [OF assms(1,2) this]
  have "pred_option (\<lambda>_. True) existing" by (cases existing) simp_all
  note ratchets = free_noBools.ratchet.compare_alike [OF assms(1,2) this TrueI]
    free_noFloats.ratchet.compare_alike [OF assms(1,2) this TrueI]
    free_noUints.ratchet.compare_alike [OF assms(1,2) this TrueI]
    free_noMaps.ratchet.compare_alike [OF assms(1,2) this TrueI]
    free_lists.ratchet.compare_alike [OF assms(1,2) this TrueI]
    free_status.ratchet.compare_alike [OF assms(1,2) this TrueI]
  show ?thesis
    unfolding noBools_Compare_def noFloats_Compare_def noUints_Compare_def noMaps_Compare_def
      listsMustHaveSSATags_Compare_def mustHaveStatus_Compare_def
    by (intro conjI ratchets removals)
qed

text \<open>
  Nor does it matter to \<open>NoDataTypeChange\<close> and \<open>NoNewRequiredFields\<close> when the nodes at one
  location have one type, and the nodes at one path have one location and the same requirements.
\<close>

theorem tables_do_not_depend_on_map_order:
  assumes "rel_option reordered_crd existing existing'" and "reordered_crd new new'"
    and "pred_option (versions_ok (\<lambda>v. one_type_each v \<and> paths_settled v)) existing"
    and "versions_ok (\<lambda>v. one_type_each v \<and> paths_settled v) new"
  shows "same_outcome (noDataTypeChange_Compare existing new) (noDataTypeChange_Compare existing' new') \<and>
    same_outcome (noNewRequiredFields_Compare existing new) (noNewRequiredFields_Compare existing' new')"
proof -
  have "versions_ok one_type_each c \<and> versions_ok paths_settled c"
    if "versions_ok (\<lambda>v. one_type_each v \<and> paths_settled v) c" for c
    using that by (auto simp: versions_ok_def list_all_iff)
  with assms(3,4) have "pred_option (versions_ok one_type_each) existing" "pred_option (versions_ok paths_settled) existing"
    "versions_ok one_type_each new" "versions_ok paths_settled new"
    by (cases existing; simp)+
  then show ?thesis
    using free_noDataTypeChange.compare_alike [OF assms(1,2)] free_noNewRequiredFields.compare_alike [OF assms(1,2)]
    by simp
qed

text \<open>
  Without such agreement the order decides. The subschemas of two pattern properties are visited
  at the location of the object, so a CRD that has two of different types passes
  \<open>NoDataTypeChange\<close> against itself when both walks range over the patterns in the same order, and
  is reported against itself when they do not.
\<close>

theorem map_order_decides_type_change:
  "reordered_crd (patterned_widgets [(''^a'', string_field), (''^b'', boolean_field)])
     (patterned_widgets [(''^b'', boolean_field), (''^a'', string_field)]) \<and>
   noDataTypeChange_Compare (Some (patterned_widgets [(''^a'', string_field), (''^b'', boolean_field)]))
     (patterned_widgets [(''^a'', string_field), (''^b'', boolean_field)]) =
     Some (Inr \<lparr> Name = noDataTypeChange_Name, WhyItMatters = noDataTypeChange_WhyItMatters,
       Errors = [], Warnings = [], Infos = [] \<rparr>) \<and>
   noDataTypeChange_Compare (Some (patterned_widgets [(''^a'', string_field), (''^b'', boolean_field)]))
     (patterned_widgets [(''^b'', boolean_field), (''^a'', string_field)]) =
     Some (Inr \<lparr> Name = noDataTypeChange_Name, WhyItMatters = noDataTypeChange_WhyItMatters,
       Errors = [''crd/widgets version/v1 data type of field/^ may not be changed from boolean to string''],
       Warnings = [], Infos = [] \<rparr>)"
proof (intro conjI)
  show "reordered_crd (patterned_widgets [(''^a'', string_field), (''^b'', boolean_field)])
     (patterned_widgets [(''^b'', boolean_field), (''^a'', string_field)])"
    by (rule reordered_patterned) simp
qed code_simp+

end
