(* ===== verification/Map_Order_Program.thy ===== *)
theory Map_Order_Program
  imports Map_Order Command_Line
begin

text \<open>
  The other two comparators that range over maps, \<open>ConditionsMustHaveProperSSATags\<close> and
  \<open>MustNotExceedCostBudget\<close>, do not depend on the order of the maps either, and so neither do a
  comparison with the registry of the program and the exit code of \<open>check-manifests\<close>.
\<close>

section \<open>Lists up to order, again\<close>







section \<open>Conditions\<close>








section \<open>Costs\<close>


























section \<open>The registry and the program\<close>






















section \<open>Properties\<close>








end
