(* ===== verification/Served_Hook.thy ===== *)
theory Served_Hook
  imports Admission_Process Command_Line Map_Order_Program
begin

text \<open>
  The hook as the program serves it: the process of \<open>Admission_Process\<close>, started with the options that
  the flags of \<open>admission-check\<close> give it and with the registry of the default comparators. Here its
  answers are described by the comparators alone, and the ways in which it can end by its flags and the
  library.
\<close>

section \<open>The flags of the command\<close>

text \<open>The flags of the generic server write into its own options and have names of their own.\<close>

definition separate_flags :: "AdmissionCheckOptions flag_set \<Rightarrow> bool" where
  "separate_flags fs \<longleftrightarrow>
     (\<forall>(name, f)\<in>set fs. name \<notin> slice_flags \<and>
        (case f of String_value put \<Rightarrow> (\<forall>v opts. put v opts = opts)
         | StringSlice_value get put \<Rightarrow> (\<forall>v opts. put v opts = opts)))"

lemma check_flag_lookup:
  assumes "separate_flags server_flags"
  shows "map_of (Check_AddFlags server_flags []) ''disabled-validators'' = Some (StringSlice_value
       (\<lambda>opts. DisabledComparators (check_ComparatorOptions opts))
       (\<lambda>v. check_ComparatorOptions_update (DisabledComparators_update (\<lambda>_. v))))"
    and "map_of (Check_AddFlags server_flags []) ''enabled-validators'' = Some (StringSlice_value
       (\<lambda>opts. EnabledComparators (check_ComparatorOptions opts))
       (\<lambda>v. check_ComparatorOptions_update (EnabledComparators_update (\<lambda>_. v))))"
    and "name \<notin> slice_flags \<Longrightarrow> map_of (Check_AddFlags server_flags []) name = map_of server_flags name"
proof -
  have "map_of server_flags name = None" if "name \<in> slice_flags" for name
    using assms that unfolding separate_flags_def map_of_eq_None_iff by fastforce
  then show "map_of (Check_AddFlags server_flags []) ''disabled-validators'' = Some (StringSlice_value
       (\<lambda>opts. DisabledComparators (check_ComparatorOptions opts))
       (\<lambda>v. check_ComparatorOptions_update (DisabledComparators_update (\<lambda>_. v))))"
    "map_of (Check_AddFlags server_flags []) ''enabled-validators'' = Some (StringSlice_value
       (\<lambda>opts. EnabledComparators (check_ComparatorOptions opts))
       (\<lambda>v. check_ComparatorOptions_update (EnabledComparators_update (\<lambda>_. v))))"
    by (simp_all add: Check_AddFlags_def Options_AddFlags_def slice_flags_def map_add_def)
  show "map_of (Check_AddFlags server_flags []) name = map_of server_flags name" if "name \<notin> slice_flags"
    using that by (simp add: Check_AddFlags_def Options_AddFlags_def slice_flags_def map_add_def split: option.split)
qed

definition given_check_options :: "crdComparatorRegistry \<Rightarrow> csv_texts \<Rightarrow> settings \<Rightarrow> AdmissionCheckOptions" where
  "given_check_options r csv settings =
     \<lparr> check_ComparatorOptions = given_options r csv settings,
       admissionHook = \<lparr> hook_ComparatorConfig = None \<rparr> \<rparr>"

text \<open>Flags that are accepted give the command the same comparator options as \<open>check-manifests\<close>.\<close>

lemma check_flags:
  assumes "separate_flags server_flags"
    and "set_flags csv (Check_AddFlags server_flags []) settings (NewAdmissionCheckOptions r, {}) = Inr (opts, changed)"
  shows "opts = given_check_options r csv settings \<and> changed \<inter> slice_flags = fst ` set settings \<inter> slice_flags"
  using assms(2)
proof (induction settings arbitrary: opts changed rule: rev_induct)
  case Nil
  then show ?case
    by (auto simp: NewAdmissionCheckOptions_def given_check_options_def given_options_def options_with_def NewComparatorOptions_def)
next
  case (snoc s settings)
  obtain name v where s: "s = (name, v)" by (cases s)
  from snoc.prems obtain opts0 changed0 where
    before: "set_flags csv (Check_AddFlags server_flags []) settings (NewAdmissionCheckOptions r, {}) = Inr (opts0, changed0)"
    and last: "set_flag csv (Check_AddFlags server_flags []) name v (opts0, changed0) = Inr (opts, changed)"
    by (auto simp: s set_flags_snoc split: sum.splits)
  note IH = snoc.IH [OF before]
  have new: "name \<in> changed0 \<longleftrightarrow> name \<in> fst ` set settings" if "name \<in> slice_flags" using IH that by blast
  show ?case
  proof (cases "name \<in> slice_flags")
    case True
    then obtain vs where vs: "readAsCSV csv v = Inr vs"
      using last check_flag_lookup(1,2) [OF assms(1)]
      by (cases "readAsCSV csv v") (auto simp: slice_flags_def set_flag_def)
    from True consider "name = ''disabled-validators''" | "name = ''enabled-validators''" by (auto simp: slice_flags_def)
    then show ?thesis
    proof cases
      case 1
      have changed: "changed = insert name changed0"
        and opts: "opts = check_ComparatorOptions_update (DisabledComparators_update (\<lambda>_.
          (if name \<notin> changed0 then vs else DisabledComparators (check_ComparatorOptions opts0) @ vs))) opts0"
        using last unfolding set_flag_def prod.case 1 check_flag_lookup(1) [OF assms(1)] option.case flag_value.case vs sum.case
        by (simp_all split: if_splits)
      show ?thesis
      proof (cases "name \<in> fst ` set settings")
        case True
        then show ?thesis using new \<open>name \<in> slice_flags\<close> IH unfolding opts changed
          by (simp add: s 1 given_check_options_def given_options_def options_with_def vs)
      next
        case False
        then show ?thesis using new \<open>name \<in> slice_flags\<close> IH unfolding opts changed
          by (simp add: s 1 given_check_options_def given_options_def options_with_def vs given_list_not_given)
      qed
    next
      case 2
      have changed: "changed = insert name changed0"
        and opts: "opts = check_ComparatorOptions_update (EnabledComparators_update (\<lambda>_.
          (if name \<notin> changed0 then vs else EnabledComparators (check_ComparatorOptions opts0) @ vs))) opts0"
        using last unfolding set_flag_def prod.case 2 check_flag_lookup(2) [OF assms(1)] option.case flag_value.case vs sum.case
        by (simp_all split: if_splits)
      show ?thesis
      proof (cases "name \<in> fst ` set settings")
        case True
        then show ?thesis using new \<open>name \<in> slice_flags\<close> IH unfolding opts changed
          by (simp add: s 2 given_check_options_def given_options_def options_with_def vs)
      next
        case False
        then show ?thesis using new \<open>name \<in> slice_flags\<close> IH unfolding opts changed
          by (simp add: s 2 given_check_options_def given_options_def options_with_def vs given_list_not_given)
      qed
    qed
  next
    case False
    have own: "put v opts0 = opts0" if "map_of server_flags name = Some (String_value put)" for put
      using assms(1) map_of_SomeD [OF that] by (auto simp: separate_flags_def)
    have own': "put vs opts0 = opts0" if "map_of server_flags name = Some (StringSlice_value get put)" for get put vs
      using assms(1) map_of_SomeD [OF that] by (auto simp: separate_flags_def)
    have "opts = opts0 \<and> changed \<inter> slice_flags = changed0 \<inter> slice_flags"
      using last False own own'
      by (auto simp: set_flag_def check_flag_lookup(3) [OF assms(1) False]
          split: option.splits flag_value.splits sum.splits if_splits)
    moreover have "given_check_options r csv (settings @ [s]) = given_check_options r csv settings"
      using False by (simp add: s given_check_options_def given_options_def slice_flags_def)
    ultimately show ?thesis using IH False by (auto simp: s)
  qed
qed

section \<open>The comparators that the flags select\<close>

text \<open>A default comparator may panic, but it never fails, and its result has its name.\<close>

lemma default_comparator_answers:
  assumes "d \<in> set (default_comparators env)"
  shows "Compare d existing new \<noteq> Some (Inl err)"
    and "Compare d existing new = Some (Inr x) \<Longrightarrow> Name x = comparator_Name d"
proof -
  note no_errors = noBools.ratchet.compare_no_error noFloats.ratchet.compare_no_error noUints.ratchet.compare_no_error
    noMaps.ratchet.compare_no_error listsMustHaveSSATags.ratchet.compare_no_error
    mustHaveStatus.ratchet.compare_no_error conditions.ratchet.compare_no_error
    mustNotExceedCostBudget.ratchet.compare_no_error noFieldRemoval.versioned.compare_no_error
    noEnumRemoval.versioned.compare_no_error noDataTypeChange.versioned.compare_no_error
    noNewRequiredFields.versioned.compare_no_error
  show "Compare d existing new \<noteq> Some (Inl err)"
    using assms by (auto simp: default_comparators_def comparator_records validator_compares no_errors)
  note named = noBools.ratchet.compare_named noFloats.ratchet.compare_named noUints.ratchet.compare_named
    noMaps.ratchet.compare_named listsMustHaveSSATags.ratchet.compare_named
    mustHaveStatus.ratchet.compare_named conditions.ratchet.compare_named
    mustNotExceedCostBudget.ratchet.compare_named noFieldRemoval.versioned.compare_named
    noEnumRemoval.versioned.compare_named noDataTypeChange.versioned.compare_named
    noNewRequiredFields.versioned.compare_named
  show "Compare d existing new = Some (Inr x) \<Longrightarrow> Name x = comparator_Name d"
    using assms by (auto simp: default_comparators_def comparator_records validator_compares dest: named)
qed

text \<open>By name, those that are not disabled, or all of them when that leaves none.\<close>

definition chosen_comparators :: "('str, 'decl) cel_env \<Rightarrow> string list \<Rightarrow> CRDComparator list" where
  "chosen_comparators env disabled =
     (let enabled = filter (\<lambda>c. comparator_Name c \<notin> set disabled) (default_comparators env)
      in sort_key comparator_Name (if enabled = [] then default_comparators env else enabled))"

lemma chosen_subset: "set (chosen_comparators env disabled) \<subseteq> set (default_comparators env)"
  by (auto simp: chosen_comparators_def Let_def)

lemma distinct_default_comparators: "distinct (map comparator_Name (default_comparators env))"
  by (simp add: default_comparators_names default_names_distinct)

lemma chosen_names:
  "map comparator_Name (chosen_comparators env disabled) =
     (if set default_names \<subseteq> set disabled then sort default_names else sets_List (set default_names - set disabled))"
proof -
  let ?enabled = "filter (\<lambda>c. comparator_Name c \<notin> set disabled) (default_comparators env)"
  have names: "set default_names = comparator_Name ` set (default_comparators env)"
    by (metis default_comparators_names list.set_map)
  have none: "?enabled = [] \<longleftrightarrow> set default_names \<subseteq> set disabled"
    unfolding names by (auto simp: filter_empty_conv)
  have sorted_names: "map comparator_Name (sort_key comparator_Name cs) = sets_List (comparator_Name ` set cs)"
    if "distinct (map comparator_Name cs)" for cs :: "CRDComparator list"
    using that by (intro sorted_distinct_set_unique) (simp_all add: sets_List_def distinct_map)
  have "distinct (map comparator_Name ?enabled)"
    using distinct_default_comparators [of env] by (rule distinct_map_filter)
  moreover have "comparator_Name ` set ?enabled = set default_names - set disabled" unfolding names by auto
  moreover have "sort default_names = sets_List (set default_names)"
    using default_names_distinct by (intro sorted_distinct_set_unique) (simp_all add: sets_List_def)
  ultimately show ?thesis
    unfolding chosen_comparators_def Let_def
    using none sorted_names [of ?enabled] sorted_names [OF distinct_default_comparators [of env]] names
    by (simp split: if_splits)
qed

lemma selected_chosen:
  assumes "NewDefaultComparators env = Some r"
  shows "selected r (sets_List (set default_names - set disabled)) = chosen_comparators env disabled"
proof -
  let ?names = "sets_List (set default_names - set disabled)"
  have r: "registry_ok r" "KnownComparators r = sort default_names"
    using NewDefaultComparators_registry [of env] assms by auto
  have "set ?names \<subseteq> set (KnownComparators r)" by (auto simp: sets_List_def r(2) simp del: set_KnownComparators)
  from selected_names [OF r(1) this]
  have "map comparator_Name (selected r ?names) = (if ?names = [] then sort default_names else ?names)" by (simp only: r(2))
  also have "\<dots> = map comparator_Name (chosen_comparators env disabled)"
    unfolding chosen_names by (simp add: sets_List_def)
  finally have same: "map comparator_Name (selected r ?names) = map comparator_Name (chosen_comparators env disabled)" .
  have "inj_on comparator_Name (set (default_comparators env))"
    using distinct_default_comparators [of env] by (simp add: distinct_map)
  then have "inj_on comparator_Name (set (selected r ?names) \<union> set (chosen_comparators env disabled))"
    using selected_default [OF assms, of ?names] chosen_subset [of env disabled] by (meson Un_least inj_on_subset)
  with same show ?thesis by (rule map_inj_on)
qed

text \<open>So a comparison with that selection is the list of what those comparators return.\<close>

definition chosen_results :: "('str, 'decl) cel_env \<Rightarrow> string list \<Rightarrow> CRD option \<Rightarrow> CRD \<Rightarrow> ComparisonResults list" where
  "chosen_results env disabled existing new =
     concat (map (\<lambda>c. result_of (Compare c existing new)) (chosen_comparators env disabled))"

definition chosen_panics :: "('str, 'decl) cel_env \<Rightarrow> string list \<Rightarrow> CRD option \<Rightarrow> CRD \<Rightarrow> bool" where
  "chosen_panics env disabled existing new \<longleftrightarrow>
     (\<exists>c\<in>set (chosen_comparators env disabled). Compare c existing new = None)"

lemma Registry_Compare_chosen:
  assumes "NewDefaultComparators env = Some r"
  shows "Registry_Compare r existing new (sets_List (set default_names - set disabled)) =
    (if chosen_panics env disabled existing new then None else Some (chosen_results env disabled existing new, []))"
proof -
  have "KnownComparators r = sort default_names" using NewDefaultComparators_registry [of env] assms by auto
  then have "set (sets_List (set default_names - set disabled)) \<subseteq> set (KnownComparators r)"
    by (auto simp: sets_List_def simp del: set_KnownComparators)
  moreover have "error_of (Compare c existing new) = []" if "c \<in> set (chosen_comparators env disabled)" for c
    using default_comparator_answers(1) [OF subsetD [OF chosen_subset that]]
    by (simp add: error_of_def split: option.split sum.split)
  ultimately show ?thesis
    by (simp add: Registry_Compare_eq selected_chosen [OF assms] run_comparators_eq chosen_panics_def chosen_results_def)
qed

section \<open>The answers of the process\<close>

text \<open>
  What the service answers to one review, by the comparators alone: there is no registry, no
  configuration and no empty CRD that stands for a missing one.
\<close>

definition refused :: "string \<Rightarrow> AdmissionResponse" where
  "refused message = \<lparr> Allowed = False, Result = Some (bad_request message None), response_Warnings = [] \<rparr>"

definition old_object :: "unmarshaller \<Rightarrow> AdmissionRequest \<Rightarrow> gerror + CRD option" where
  "old_object unmarshal req =
     (if OldObject_Raw req = [] then Inr None else map_sum id Some (unmarshal (OldObject_Raw req)))"

definition spec_response ::
  "('str, 'decl) cel_env \<Rightarrow> unmarshaller \<Rightarrow> string list \<Rightarrow> AdmissionRequest \<Rightarrow> AdmissionResponse go" where
  "spec_response env unmarshal disabled req =
     (if \<not> in_scope req then Some allowed_response
      else case unmarshal (Object_Raw req) of
        Inl err \<Rightarrow> Some (refused (''failed to unmarshal newCRD: '' @ err))
      | Inr new \<Rightarrow>
          (case old_object unmarshal req of
             Inl err \<Rightarrow> Some (refused (''failed to unmarshal oldCRD: '' @ err))
           | Inr existing \<Rightarrow>
               if chosen_panics env disabled existing new then None
               else Some (compared_response (chosen_results env disabled existing new, []))))"

definition spec_answer :: "('str, 'decl) cel_env \<Rightarrow> unmarshaller \<Rightarrow> string list \<Rightarrow> post \<Rightarrow> answer" where
  "spec_answer env unmarshal disabled = (\<lambda>(path, review).
     if path \<noteq> hook_path then NotFound
     else case Request review of
       None \<Rightarrow> Aborted
     | Some (uid, req) \<Rightarrow>
         (case spec_response env unmarshal disabled req of
            None \<Rightarrow> Aborted
          | Some response \<Rightarrow> Reviewed (review\<lparr>Response := Some (uid, response)\<rparr>)))"

lemma Hook_Validate_spec:
  assumes "NewDefaultComparators env = Some r"
    and "hook_ComparatorConfig a =
      Some \<lparr> config_ComparatorRegistry = r, ComparatorNames = sets_List (set default_names - set disabled) \<rparr>"
  shows "Hook_Validate unmarshal a req = spec_response env unmarshal disabled req"
proof (cases "in_scope req")
  case False
  then show ?thesis by (simp add: Hook_Validate_out_of_scope spec_response_def)
next
  case scope: True
  show ?thesis
  proof (cases "unmarshal (Object_Raw req)")
    case (Inl err)
    then show ?thesis
      by (simp add: Hook_Validate_unreadable [where unmarshal = unmarshal, OF scope Inl] spec_response_def scope refused_def zero_response_def)
  next
    case new: (Inr new)
    show ?thesis
    proof (cases "old_object unmarshal req")
      case (Inl err)
      then have "read_old unmarshal req = Inl err"
        by (cases "unmarshal (OldObject_Raw req)") (auto simp: old_object_def read_old_def split: if_splits)
      from Hook_Validate_unreadable_old [where unmarshal = unmarshal, OF scope new this] new Inl show ?thesis
        by (simp add: spec_response_def scope refused_def zero_response_def)
    next
      case old: (Inr existing)
      obtain e where e: "read_old unmarshal req = Inr e"
        "Registry_Compare r (Some e) new names = Registry_Compare r existing new names" for names
      proof (cases "OldObject_Raw req = []")
        case True
        with old that [of empty_crd] default_Compare_created [OF assms(1)] show ?thesis
          by (simp add: old_object_def read_old_def)
      next
        case False
        with old that show ?thesis
          by (cases "unmarshal (OldObject_Raw req)") (auto simp: old_object_def read_old_def)
      qed
      have "Registry_Compare r (Some e) new (sets_List (set default_names - set disabled)) =
          (if chosen_panics env disabled existing new then None else Some (chosen_results env disabled existing new, []))"
        unfolding e(2) by (rule Registry_Compare_chosen [OF assms(1)])
      with Hook_Validate_in_scope [where unmarshal = unmarshal, OF scope new e(1) assms(2)] show ?thesis
        by (simp add: spec_response_def scope new old)
    qed
  qed
qed

text \<open>The options that the flags give a process select what they name.\<close>

lemma configured_given:
  assumes "NewDefaultComparators env = Some r"
  shows "configured (given_check_options r csv settings) opts' \<longleftrightarrow>
    set (given_list csv ''enabled-validators'' settings) \<union> set (given_list csv ''disabled-validators'' settings)
      \<subseteq> set default_names \<and>
    opts' = (given_check_options r csv settings)\<lparr>admissionHook := \<lparr> hook_ComparatorConfig =
      Some \<lparr> config_ComparatorRegistry = r,
        ComparatorNames = sets_List (set default_names - set (given_list csv ''disabled-validators'' settings)) \<rparr> \<rparr>\<rparr>"
proof -
  have known: "set (KnownComparators r) = set default_names"
    using NewDefaultComparators_registry [of env] assms by auto
  let ?es = "given_list csv ''enabled-validators'' settings" and ?ds = "given_list csv ''disabled-validators'' settings"
  let ?known = "set ?es \<union> set ?ds \<subseteq> set default_names"
  have options: "check_ComparatorOptions (given_check_options r csv settings) = options_with r ?es ?ds"
    by (simp add: given_check_options_def given_options_def)
  show ?thesis
  proof (cases ?known)
    case True
    have "Options_Complete (options_with r ?es ?ds) =
        Inr \<lparr> config_ComparatorRegistry = r, ComparatorNames = sets_List (set default_names - set ?ds) \<rparr>"
      using Options_Complete_with [of ?es ?ds r] True by (simp only: known)
    then show ?thesis unfolding configured_def options by (simp only: True sum.inject ex_simps simp_thms)
  next
    case False
    then have "\<not> set ?es \<union> set ?ds \<subseteq> set (KnownComparators r)" by (simp only: known not_False_eq_True)
    then have "\<nexists>cfg. Options_Complete (options_with r ?es ?ds) = Inr cfg" using Options_Complete_names(5) by blast
    then show ?thesis unfolding configured_def options using False by (simp only: simp_thms) blast
  qed
qed

lemma isl_given:
  assumes "NewDefaultComparators env = Some r"
  shows "isl (Options_Complete (given_options r csv settings)) \<longleftrightarrow>
    \<not> set (given_list csv ''enabled-validators'' settings) \<union> set (given_list csv ''disabled-validators'' settings)
      \<subseteq> set default_names"
proof -
  have "(\<exists>cfg. Options_Complete (given_options r csv settings) = Inr cfg) \<longleftrightarrow>
      (\<exists>opts'. configured (given_check_options r csv settings) opts')"
    by (simp add: configured_def given_check_options_def)
  then show ?thesis unfolding configured_given [OF assms] by (cases "Options_Complete (given_options r csv settings)") auto
qed

lemma respond_spec:
  assumes "NewDefaultComparators env = Some r"
    and "configured (given_check_options r csv settings) opts'"
    and "started_by lib unmarshal opts' = Started s"
  shows "respond s = spec_answer env unmarshal (given_list csv ''disabled-validators'' settings)"
proof
  fix q :: post
  obtain path review where q: "q = (path, review)" by (cases q)
  have "hook_ComparatorConfig (admissionHook opts') = Some \<lparr> config_ComparatorRegistry = r,
      ComparatorNames = sets_List (set default_names - set (given_list csv ''disabled-validators'' settings)) \<rparr>"
    using assms(2) unfolding configured_given [OF assms(1)] by simp
  note answers = Hook_Validate_spec [OF assms(1) this]
  show "respond s q = spec_answer env unmarshal (given_list csv ''disabled-validators'' settings) q"
    unfolding q respond_program [OF assms(3) [unfolded started_by_def]] spec_answer_def reviewed_def answers by simp
qed

section \<open>From the flags to the process\<close>

text \<open>The options with which \<open>RunE\<close> begins, if the flags are accepted.\<close>

definition launch_options ::
  "('str, 'decl) cel_env \<Rightarrow> csv_texts \<Rightarrow> AdmissionCheckOptions flag_set \<Rightarrow> settings \<Rightarrow> AdmissionCheckOptions option" where
  "launch_options env csv server_flags settings = do {
     command \<leftarrow> newCommand env;
     (case set_flags csv (Check_AddFlags server_flags []) settings (admission_options command, {}) of
        Inl err \<Rightarrow> None
      | Inr (opts, _) \<Rightarrow> Some opts)
   }"

lemma launched:
  assumes "separate_flags server_flags" and "launch_options env csv server_flags settings = Some opts"
  shows "\<exists>r. NewDefaultComparators env = Some r \<and> opts = given_check_options r csv settings"
proof -
  obtain r where r: "NewDefaultComparators env = Some r" using NewDefaultComparators_registry [of env] by blast
  with assms(2) obtain changed where
    "set_flags csv (Check_AddFlags server_flags []) settings (NewAdmissionCheckOptions r, {}) = Inr (opts, changed)"
    by (auto simp: launch_options_def newCommand_def split: sum.splits)
  from check_flags [OF assms(1) this] r show ?thesis by blast
qed

lemma main_admission_check:
  assumes "cobra args = Run_admission_check settings rest"
    and "launch_options env csv (server_AddFlags server) settings = Some opts"
  shows "main env cobra csv readFile decode server help args io =
    Some (cli_Run (fst (admission_check (server_Complete server settings) (server_Validate server settings)
      (server_Run server settings) opts rest)), io)"
  using assms
  by (auto simp: launch_options_def main_def NewCommandStartAdmissionServer_def bind_eq_Some_conv split: sum.splits)

text \<open>The runs that get as far as starting the server.\<close>

lemma reach_validated:
  assumes "configured opts opts'"
  shows "reachable lib unmarshal args opts ((new_process opts)\<lparr>process_options := opts', phase := Validated\<rparr>)"
proof -
  let ?p = "new_process opts"
  have "Check_Complete AdmissionServerOptions_Complete (process_options ?p) = (None, opts')"
    using assms by (cases "admissionHook opts")
      (auto simp: configured_def Check_Complete_def AdmissionServerOptions_Complete_def new_process_def)
  then have "process_step lib unmarshal args ?p (?p\<lparr>process_options := opts', phase := Completed\<rparr>)"
    by (intro by_RunE RunE_step.complete) (simp_all add: new_process_def)
  then have completed: "reachable lib unmarshal args opts (?p\<lparr>process_options := opts', phase := Completed\<rparr>)"
    using reachable.init by (rule reachable.by_process [rotated])
  have "process_step lib unmarshal args (?p\<lparr>process_options := opts', phase := Completed\<rparr>)
      ((?p\<lparr>process_options := opts', phase := Completed\<rparr>)\<lparr>phase := Validated\<rparr>)"
    by (intro by_RunE RunE_step.validate) (simp_all add: configured_valid [OF assms])
  from reachable.by_process [OF completed this] show ?thesis by simp
qed

lemma reach_serving:
  assumes "configured opts opts'" and "started_by lib unmarshal opts' = Started s"
  shows "reachable lib unmarshal args opts ((new_process opts)\<lparr>process_options := opts', phase := Serving s\<rparr>)"
  using reachable.by_process [OF reach_validated [OF assms(1)] by_RunE [OF RunE_step.start [where s = s]]] assms(2) by simp

text \<open>The exit codes of the process.\<close>

lemma reach_end_iff:
  "(\<exists>p. reachable lib unmarshal args opts p \<and> phase p = Ended n) \<longleftrightarrow>
   n = 1 \<and> (isl (Options_Complete (check_ComparatorOptions opts)) \<or>
     (\<exists>opts' err. configured opts opts' \<and> started_by lib unmarshal opts' = Not_started err)) \<or>
   n = 255 \<and> (\<exists>opts'. configured opts opts' \<and> started_by lib unmarshal opts' = Died)"
  (is "?reached \<longleftrightarrow> ?ends")
proof
  assume ?reached
  then obtain p where "reachable lib unmarshal args opts p" "phase p = Ended n" by blast
  with reachable_ok [of lib unmarshal args opts p] show ?ends by (auto simp: process_ok_def)
next
  assume ?ends
  then consider (options) "n = 1" "isl (Options_Complete (check_ComparatorOptions opts))"
    | (not_started) opts' err where "n = 1" "configured opts opts'" "started_by lib unmarshal opts' = Not_started err"
    | (died) opts' where "n = 255" "configured opts opts'" "started_by lib unmarshal opts' = Died"
    by blast
  then show ?reached
  proof cases
    case options
    then obtain err where err: "Options_Complete (check_ComparatorOptions opts) = Inl err" by (auto simp: isl_def)
    have "process_step lib unmarshal args (new_process opts) ((new_process opts)\<lparr>process_options := opts, phase := Ended 1\<rparr>)"
      by (intro by_RunE RunE_step.not_complete [where err = err]) (simp_all add: new_process_def Check_Complete_def err)
    from reachable.by_process [OF reachable.init this] options(1) show ?thesis by fastforce
  next
    case not_started
    from reachable.by_process [OF reach_validated [OF not_started(2)] by_RunE [OF RunE_step.not_started [where err = err]]]
      not_started(1,3) show ?thesis by fastforce
  next
    case died
    from reachable.by_process [OF reach_validated [OF died(2)] by_RunE [OF RunE_step.died]] died(1,3) show ?thesis by fastforce
  qed
qed

section \<open>What a response looks like\<close>

text \<open>
  The shape of the responses to reviews when the comparators of these names are selected: an
  allowed one is bare; a status is the failure of a bad request with a message, and its details, if
  any, have causes, each named by a comparator; a warning starts with the quoted name of one.
\<close>

definition well_formed_status :: "string list \<Rightarrow> MetaStatus \<Rightarrow> bool" where
  "well_formed_status names status \<longleftrightarrow>
     meta_Status status = ''Failure'' \<and> Code status = 400 \<and> Reason status = ''BadRequest'' \<and> Message status \<noteq> [] \<and>
     pred_option (\<lambda>causes. causes \<noteq> [] \<and> list_all (\<lambda>cause. cause_Type cause \<in> set names) causes) (Details status)"

definition well_formed_response :: "string list \<Rightarrow> AdmissionResponse \<Rightarrow> bool" where
  "well_formed_response names response \<longleftrightarrow>
     (Allowed response \<longrightarrow> Result response = None \<and> response_Warnings response = []) \<and>
     pred_option (well_formed_status names) (Result response) \<and>
     list_all (\<lambda>w. list_ex (\<lambda>n. prefix (Quote n @ '': '') w \<or> prefix (''fyi: '' @ Quote n @ '': '') w) names)
       (response_Warnings response)"

text \<open>The answer to a post: a review comes back with its request, and a response under its UID.\<close>

definition well_formed_answer :: "string list \<Rightarrow> post \<Rightarrow> answer \<Rightarrow> bool" where
  "well_formed_answer names q a \<longleftrightarrow>
     (case a of
        NotFound \<Rightarrow> fst q \<noteq> hook_path
      | Aborted \<Rightarrow> fst q = hook_path
      | Reviewed review \<Rightarrow> fst q = hook_path \<and> Request review = Request (snd q) \<and>
          (case (Request review, Response review) of
             (Some (uid, req), Some (uid', response)) \<Rightarrow> uid' = uid \<and> well_formed_response names response
           | _ \<Rightarrow> False))"

lemma chosen_results_named:
  assumes "x \<in> set (chosen_results env disabled existing new)"
  shows "Name x \<in> set (map comparator_Name (chosen_comparators env disabled))"
proof -
  from assms obtain c where c: "c \<in> set (chosen_comparators env disabled)" "x \<in> set (result_of (Compare c existing new))"
    by (auto simp: chosen_results_def)
  from c(2) have "Compare c existing new = Some (Inr x)" by (auto simp: result_of_def split: option.splits sum.splits)
  with default_comparator_answers(2) [OF subsetD [OF chosen_subset c(1)]] c(1) show ?thesis by auto
qed

lemma compared_response_well_formed:
  assumes "\<And>x. x \<in> set rs \<Longrightarrow> Name x \<in> set names"
  shows "well_formed_response names (compared_response (rs, []))"
proof -
  have "list_all (\<lambda>cause. cause_Type cause \<in> set names) (error_causes rs)"
    using assms by (auto simp: error_causes_def list_all_iff)
  moreover have "list_all (\<lambda>w. list_ex (\<lambda>n. prefix (Quote n @ '': '') w \<or> prefix (''fyi: '' @ Quote n @ '': '') w) names)
      (warning_texts rs @ info_texts rs)"
    unfolding list_all_iff list_ex_iff
  proof
    fix w assume "w \<in> set (warning_texts rs @ info_texts rs)"
    then obtain x msg where "x \<in> set rs" "w = Quote (Name x) @ '': '' @ msg \<or> w = ''fyi: '' @ Quote (Name x) @ '': '' @ msg"
      by (auto simp: warning_texts_def info_texts_def)
    then show "\<exists>n\<in>set names. prefix (Quote n @ '': '') w \<or> prefix (''fyi: '' @ Quote n @ '': '') w"
      using assms by (intro bexI [of _ "Name x"]) (auto simp: prefix_def)
  qed
  ultimately show ?thesis
    by (simp add: well_formed_response_def compared_response_def well_formed_status_def bad_request_def)
qed

lemma spec_answer_well_formed:
  "well_formed_answer (map comparator_Name (chosen_comparators env disabled)) q (spec_answer env unmarshal disabled q)"
proof -
  have refusal: "well_formed_response names (refused message)" if "message \<noteq> []" for names message
    using that by (simp add: well_formed_response_def refused_def well_formed_status_def bad_request_def)
  have allowed: "well_formed_response names allowed_response" for names
    by (simp add: well_formed_response_def allowed_response_def zero_response_def)
  have "well_formed_response (map comparator_Name (chosen_comparators env disabled)) response"
    if "spec_response env unmarshal disabled req = Some response" for req response
    using that compared_response_well_formed [OF chosen_results_named]
    by (auto simp: spec_response_def allowed refusal split: if_splits sum.splits)
  then show ?thesis
    by (auto simp: well_formed_answer_def spec_answer_def split: prod.split option.split)
qed

section \<open>The order of the maps\<close>







section \<open>Properties of the process\<close>

text \<open>
  C21. How the process \<open>admission-check\<close> can end, started with flags that are accepted, those of the
  generic server having names and options of their own. It can end with
  code 1 exactly when a flag names an unknown comparator, or a stage of starting the server fails
  before the hooks are added (making certificates, applying the options, the client configuration,
  making the generic server, installing the group), or its hook is added and the server fails to
  listen; and with 255 exactly when the flags are known, none of those stages fails and the name of
  its post-start hook is taken and not disabled. Its own post-start hook never fails, since
  \<open>Complete\<close> sets the configuration before the server starts, and nothing else ends it.
\<close>

theorem process_exit_codes:
  fixes csv settings
  defines "unknown \<equiv> \<not> set (given_list csv ''enabled-validators'' settings) \<union>
      set (given_list csv ''disabled-validators'' settings) \<subseteq> set default_names"
    and "served \<equiv> \<lambda>r. \<lparr> hook_ComparatorConfig = Some \<lparr> config_ComparatorRegistry = r,
      ComparatorNames = sets_List (set default_names - set (given_list csv ''disabled-validators'' settings)) \<rparr> \<rparr>"
  assumes "separate_flags server_flags" and "launch_options env csv server_flags settings = Some opts"
    and "NewDefaultComparators env = Some r"
  shows "(\<exists>p. reachable lib unmarshal args opts p \<and> phase p = Ended n) \<longleftrightarrow>
    n = 1 \<and> (unknown \<or> stage_fails lib (program_group unmarshal (served r)) \<or>
      \<not> init_name_taken lib \<and> PrepareRun_Run lib \<noteq> None) \<or>
    n = 255 \<and> \<not> unknown \<and> \<not> stage_fails lib (program_group unmarshal (served r)) \<and> init_name_taken lib"
proof -
  have opts: "opts = given_check_options r csv settings" using launched [OF assms(3,4)] assms(5) by auto
  have options: "isl (Options_Complete (check_ComparatorOptions opts)) \<longleftrightarrow> unknown"
    using isl_given [OF assms(5)] by (simp add: opts given_check_options_def unknown_def)
  have "configured opts opts' \<longleftrightarrow> \<not> unknown \<and> opts' = opts\<lparr>admissionHook := served r\<rparr>" for opts'
    unfolding opts configured_given [OF assms(5)] unknown_def served_def by simp
  then show ?thesis
    unfolding reach_end_iff options started_by_def
    using start_server_program_fails [of lib unmarshal "served r"] by auto
qed

text \<open>A library in which nothing fails.\<close>

definition plain_library :: server_library where
  "plain_library =
     \<lparr> certificates = None, ApplyTo = None, CoreAPIKubeconfigPath = [], ClientConfig = None, InClusterConfig = None,
       generic_New = Inr ([], []), InstallAPIGroup = \<lambda>_. None, PrepareRun_Run = None \<rparr>"

lemma plain_library_starts: "\<exists>s. started_by plain_library unmarshal opts = Started s"
proof -
  obtain g versionMap where g: "admissionHooksByGroupThenVersion [program_hook unmarshal (admissionHook opts)] = [(g, versionMap)]"
    using program_hook_installed(2) by blast
  show ?thesis
    by (simp add: started_by_def start_server_def New_def plain_library_def Config_def getClientConfig_def g Let_def)
qed

lemma separate_no_flags: "separate_flags []"
  by (simp add: separate_flags_def)

lemma launch_no_flags:
  assumes "NewDefaultComparators env = Some r"
  shows "launch_options env csv [] [] = Some (given_check_options r csv [])"
  using assms by (simp add: launch_options_def newCommand_def NewAdmissionCheckOptions_def given_check_options_def
      given_options_def options_with_def NewComparatorOptions_def)

theorem process_exit_codes_witness:
  "\<exists>r. NewDefaultComparators (flat_env 1 0) = Some r \<and>
     (\<exists>p. reachable (plain_library\<lparr>PrepareRun_Run := Some ''port in use''\<rparr>) (\<lambda>_. Inr switch_widgets) []
        (given_check_options r (\<lambda>_ _. []) []) p \<and> phase p = Ended 1) \<and>
     (\<exists>p. reachable (plain_library\<lparr>generic_New := Inr ([init_name], [])\<rparr>) (\<lambda>_. Inr switch_widgets) []
        (given_check_options r (\<lambda>_ _. []) []) p \<and> phase p = Ended 255)"
proof -
  obtain r where r: "NewDefaultComparators (flat_env 1 0) = Some r"
    using NewDefaultComparators_registry [of "flat_env 1 0"] by blast
  note ends = process_exit_codes [OF separate_no_flags launch_no_flags [OF r] r, where unmarshal = "\<lambda>_. Inr switch_widgets" and args = "[]"]
  show ?thesis
    by (rule exI [of _ r], intro conjI r)
      (simp_all add: ends stage_fails_def init_name_taken_def plain_library_def getClientConfig_def)
qed

text \<open>What a process that serves answers, whenever and in whatever order it is asked.\<close>

lemma serving_answers:
  assumes "separate_flags server_flags" and "launch_options env csv server_flags settings = Some opts"
    and "reachable lib unmarshal args opts p" and "phase p = Serving s"
  shows "respond s = spec_answer env unmarshal (given_list csv ''disabled-validators'' settings)"
proof -
  obtain r where r: "NewDefaultComparators env = Some r" "opts = given_check_options r csv settings"
    using launched [OF assms(1,2)] by blast
  from reachable_ok [OF assms(3)] assms(4)
  have "configured opts (process_options p)" "started_by lib unmarshal (process_options p) = Started s"
    by (simp_all add: process_ok_def)
  with respond_spec [OF r(1)] r(2) show ?thesis by blast
qed

text \<open>
  C4. The process refines the service that answers a review by the comparators alone: what it did
  since it serves is a run of that service. The registry, the selection by names, the configuration of
  the hook, the empty CRD for a creation and the order in which reviews are handled do not show.
\<close>

theorem process_refines_service:
  assumes "separate_flags server_flags" and "launch_options env csv server_flags settings = Some opts"
    and "reachable lib unmarshal args opts p" and "phase p = Serving s"
  shows "(service_step (spec_answer env unmarshal (given_list csv ''disabled-validators'' settings)))\<^sup>*\<^sup>*
    new_service (service_of p)"
  using reachable_refines [OF assms(3,4)] unfolding serving_answers [OF assms] .

text \<open>
  C5. Every review that the process accepted is answered: its own steps cannot go on for ever, and where
  they end without a new review, the process still serves, nothing waits, and each review that waited
  has been answered once, as the comparators say.
\<close>

theorem accepted_reviews_are_answered:
  assumes "separate_flags server_flags" and "launch_options env csv server_flags settings = Some opts"
    and "reachable lib unmarshal args opts p" and "phase p = Serving s"
  shows "(\<exists>n. \<forall>k q. (process_step lib unmarshal args ^^ k) p q \<longrightarrow> k \<le> n) \<and>
    (\<forall>q. (process_step lib unmarshal args)\<^sup>*\<^sup>* p q \<and> \<not> (\<exists>u. process_step lib unmarshal args q u) \<longrightarrow>
       phase q = Serving s \<and> pending q = [] \<and>
       (\<exists>new. answered q = answered p @ new \<and> mset (map fst new) = mset (pending p) \<and>
          list_all (\<lambda>(x, a). a = spec_answer env unmarshal (given_list csv ''disabled-validators'' settings) x) new))"
proof -
  have p: "process_ok lib unmarshal opts p \<and> phase p = Serving s" using reachable_ok [OF assms(3)] assms(4) by blast
  note drains = working.drains [OF p, of args]
  have "phase q = Serving s" if "(process_step lib unmarshal args)\<^sup>*\<^sup>* p q" for q
    using working.run_serving [OF that p] by blast
  with drains show ?thesis unfolding serving_answers [OF assms] mset_zero_iff by blast
qed

text \<open>
  C6. Every answer in the history of a process is well formed: the review comes back from the path of the
  hook with its own request and a response with the UID of the request; an allowed response is bare, a
  status is the failure of a bad request, its causes are named by comparators that are selected, never
  \<open>EvaluationError\<close>, and every warning starts with the quoted name of one.
\<close>

theorem answers_are_well_formed:
  assumes "separate_flags server_flags" and "launch_options env csv server_flags settings = Some opts"
    and "reachable lib unmarshal args opts p" and "phase p = Serving s" and "(q, a) \<in> set (answered p)"
  shows "well_formed_answer (if set default_names \<subseteq> set (given_list csv ''disabled-validators'' settings)
      then sort default_names
      else sets_List (set default_names - set (given_list csv ''disabled-validators'' settings))) q a"
proof -
  have "list_all (\<lambda>(q, a). a = respond s q) (answered p)"
    using reachable_ok [OF assms(3)] assms(4) by (simp add: process_ok_def)
  with assms(5) have "a = spec_answer env unmarshal (given_list csv ''disabled-validators'' settings) q"
    unfolding serving_answers [OF assms(1-4)] by (auto simp: list_all_iff)
  then show ?thesis
    using spec_answer_well_formed [of env "given_list csv ''disabled-validators'' settings" q unmarshal]
    unfolding chosen_names by simp
qed

text \<open>A process that has been asked about the creation of \<open>switch_widgets\<close>.\<close>

definition asked :: "post" where
  "asked = (hook_path, \<lparr> Request = Some (''7'', create_request), Response = None \<rparr>)"

lemma example_asked:
  assumes "NewDefaultComparators env = Some r"
  shows "\<exists>p s. reachable plain_library unmarshal args (given_check_options r csv []) p \<and> phase p = Serving s \<and>
    pending p = [asked] \<and> answered p = []"
proof -
  let ?opts = "given_check_options r csv []"
  obtain opts' where opts': "configured ?opts opts'" unfolding configured_given [OF assms] by simp
  obtain s where "started_by plain_library unmarshal opts' = Started s" using plain_library_starts by blast
  from reach_serving [OF opts' this]
  have serving: "reachable plain_library unmarshal args ?opts ((new_process ?opts)\<lparr>process_options := opts', phase := Serving s\<rparr>)" .
  let ?p = "(new_process ?opts)\<lparr>process_options := opts', phase := Serving s\<rparr>"
  have "phase ?p = Serving s" by simp
  from reachable.by_client [OF serving client_step.post [OF this, of asked]] show ?thesis
    by (intro exI conjI) (assumption, simp_all add: new_process_def)
qed

lemma example_answered:
  assumes "NewDefaultComparators env = Some r"
  shows "\<exists>p s a. reachable plain_library unmarshal args (given_check_options r csv []) p \<and> phase p = Serving s \<and>
    pending p = [] \<and> answered p = [(asked, a)]"
proof -
  obtain p s where p: "reachable plain_library unmarshal args (given_check_options r csv []) p" "phase p = Serving s"
    "pending p = [asked]" "answered p = []"
    using example_asked [OF assms] by blast
  then have "pending p = [] @ asked # []" by simp
  from reachable.by_process [OF p(1) by_handling [OF handling.handle [OF p(2) this]]] p(2,4) show ?thesis
    by (intro exI conjI) (assumption, simp_all)
qed

theorem process_refines_service_witness:
  "\<exists>r p. NewDefaultComparators (flat_env 1 0) = Some r \<and>
     reachable plain_library (\<lambda>_. Inr switch_widgets) [] (given_check_options r (\<lambda>_ _. []) []) p \<and>
     answered p \<noteq> [] \<and>
     (service_step (spec_answer (flat_env 1 0) (\<lambda>_. Inr switch_widgets) []))\<^sup>*\<^sup>* new_service (service_of p)"
proof -
  obtain r where r: "NewDefaultComparators (flat_env 1 0) = Some r"
    using NewDefaultComparators_registry [of "flat_env 1 0"] by blast
  obtain p s a where p: "reachable plain_library (\<lambda>_. Inr switch_widgets) [] (given_check_options r (\<lambda>_ _. []) []) p"
    "phase p = Serving s" "answered p = [(asked, a)]"
    using example_answered [OF r] by blast
  from process_refines_service [OF separate_no_flags launch_no_flags [OF r] p(1,2)] r p show ?thesis by auto
qed

theorem accepted_reviews_are_answered_witness:
  "\<exists>r p q. NewDefaultComparators (flat_env 1 0) = Some r \<and>
     reachable plain_library (\<lambda>_. Inr switch_widgets) [] (given_check_options r (\<lambda>_ _. []) []) p \<and>
     pending p = [asked] \<and> pending (q :: process) = [] \<and>
     answered q = answered p @ [(asked, spec_answer (flat_env 1 0) (\<lambda>_. Inr switch_widgets) [] asked)]"
proof -
  let ?step = "process_step plain_library (\<lambda>_. Inr switch_widgets) []"
  obtain r where r: "NewDefaultComparators (flat_env 1 0) = Some r"
    using NewDefaultComparators_registry [of "flat_env 1 0"] by blast
  obtain p s where p: "reachable plain_library (\<lambda>_. Inr switch_widgets) [] (given_check_options r (\<lambda>_ _. []) []) p"
    "phase p = Serving s" "pending p = [asked]"
    using example_asked [OF r] by blast
  note answers = accepted_reviews_are_answered [OF separate_no_flags launch_no_flags [OF r] p(1,2)]
  have "process_ok plain_library (\<lambda>_. Inr switch_widgets) (given_check_options r (\<lambda>_ _. []) []) p \<and> phase p = Serving s"
    using reachable_ok [OF p(1)] p(2) by blast
  from working.comes_to_rest [OF this, of "[]"]
  obtain q where "?step\<^sup>*\<^sup>* p q" "\<not> (\<exists>u. ?step q u)" by blast
  with answers obtain new where new: "pending q = []" "answered q = answered p @ new" "mset (map fst new) = {#asked#}"
    "list_all (\<lambda>(x, a). a = spec_answer (flat_env 1 0) (\<lambda>_. Inr switch_widgets) (given_list (\<lambda>_ _. []) ''disabled-validators'' []) x) new"
    unfolding p(3) by auto
  from new(3) have "map fst new = [asked]" by (metis mset_single_iff_right)
  then obtain a where "new = [(asked, a)]" by (cases new) auto
  show ?thesis
    by (rule exI [of _ r], rule exI [of _ p], rule exI [of _ q]) (use new r p \<open>new = [(asked, a)]\<close> in simp)
qed

theorem answers_are_well_formed_witness:
  "\<exists>r p a. NewDefaultComparators (flat_env 1 0) = Some r \<and>
     reachable plain_library (\<lambda>_. Inr switch_widgets) [] (given_check_options r (\<lambda>_ _. []) []) p \<and>
     answered p = [(asked, a)] \<and> well_formed_answer (sets_List (set default_names)) asked a"
proof -
  obtain r where r: "NewDefaultComparators (flat_env 1 0) = Some r"
    using NewDefaultComparators_registry [of "flat_env 1 0"] by blast
  obtain p s a where p: "reachable plain_library (\<lambda>_. Inr switch_widgets) [] (given_check_options r (\<lambda>_ _. []) []) p"
    "phase p = Serving s" "answered p = [(asked, a)]"
    using example_answered [OF r] by blast
  then have "(asked, a) \<in> set (answered p)" by simp
  from answers_are_well_formed [OF separate_no_flags launch_no_flags [OF r] p(1,2) this] r p show ?thesis
    by (auto simp: default_names_def)
qed



end
