(* ===== verification/Spec2Isabelle.thy ===== *)
theory Spec2Isabelle
  imports Transmission Served_Hook
begin

text \<open>
  A verification library for \<open>crd-schema-checker\<close>, a program that compares the schemas of two
  versions of a Kubernetes CustomResourceDefinition (CRD) and reports changes that break the
  clients of the API, or that the API conventions forbid. All paths below are relative to the
  root of the repository.

  \<^bold>\<open>The program.\<close> A \<^emph>\<open>comparator\<close> (\<open>pkg/manifestcomparators/comp_*.go\<close>) takes an existing CRD, which
  may be missing, and a new one, and returns errors, warnings and infos, or fails. Most of them hand
  a predicate to the recursive walker \<open>SchemaHas\<close> (\<open>helpers.go\<close>), which calls it on every node of
  a schema with two field paths and the ancestors of the node. Seven comparators are
  \<^emph>\<open>validators\<close> of one CRD, which the ratchet (\<open>racheting_validator.go\<close>) turns into comparators:
  only messages that the existing CRD does not get are kept. The registry (\<open>registry.go\<close>) keeps
  the comparators by name and runs a selection of them; \<open>pkg/defaultcomparators\<close> fills it. There
  are two front ends. The command \<open>check-manifests\<close> reads two files, prints the results and
  exits with 1 when there is an error. The command \<open>admission-check\<close> serves an admission
  webhook (\<open>pkg/admissionevaluator\<close>), which compares the old and the new object of a request.
  Both select comparators by the flags of \<open>pkg/cmd/options\<close>. Two test drivers run a directory
  of tests, one against the registry (\<open>simple_tester.go\<close>), one against a served hook
  (\<open>admission_tester.go\<close>).

  \<^bold>\<open>The theories\<close>, in the order of their imports:

    \<^item> \<open>Go_Prelude\<close>, \<open>Go_Format\<close>, \<open>Go_Float\<close>, \<open>Go_Csv\<close>: what Go itself contributes: panics, the two shapes
      of a \<open>range\<close> loop, string sets, decimal printing, \<open>%q\<close>, splitting and trimming, \<open>float64\<close>, and
      reading one record of comma-separated values.
    \<^item> \<open>Field_Path\<close>, \<open>CRD_Types\<close>, \<open>Examples\<close>: the field paths and the CRD types of the Kubernetes
      libraries, as far as the program reads them, and small CRDs for the witnesses.
    \<^item> \<open>Schema_Walker\<close> (\<open>SchemaHas\<close> over values), \<open>Schema_Pool\<close> (the same walk over the pointers that
      \<open>schemaHasRecurse\<close> draws from its \<open>sync.Pool\<close>), \<open>Map_Order\<close> (the walk and, under
      conditions on the nodes that share a path or a location, ten comparators do not depend on the
      order in which Go ranges over a map).
    \<^item> \<open>Comparators\<close> (\<open>interfaces.go\<close>, \<open>racheting_validator.go\<close>), \<open>Version_Comparators\<close> (the loop over
      the versions of the same name that four comparators share).
    \<^item> \<open>Simple_Validators\<close> (\<open>comp_no_bools.go\<close>, \<open>comp_no_floats.go\<close>, \<open>comp_no_uints.go\<close>,
      \<open>comp_no_maps.go\<close>, \<open>comp_lists_must_have_ssa_tags.go\<close>, \<open>comp_must_have_status.go\<close>),
      \<open>Conditions_Validator\<close> (\<open>comp_conditions_must_have_proper_ssa_tags.go\<close>),
      \<open>Removal_Comparators\<close> (\<open>comp_no_field_removal.go\<close>, \<open>comp_no_enum_removal.go\<close>,
      \<open>comp_no_data_type_change.go\<close>), \<open>New_Required_Fields\<close> (\<open>comp_no_new_required_fields.go\<close>),
      \<open>CEL_Context\<close> and \<open>Cost_Budget\<close> (\<open>comp_must_not_exceed_cost_budget.go\<close> and the bookkeeping
      of the Kubernetes library that it calls).
    \<^item> \<open>Registry\<close> (\<open>registry.go\<close>), \<open>Default_Comparators\<close> (\<open>pkg/defaultcomparators/interfaces.go\<close>),
      \<open>Comparator_Options\<close> (\<open>pkg/cmd/options/comparators.go\<close>).
    \<^item> \<open>Check_Manifests\<close> (\<open>pkg/cmd/checkmanifests\<close>, \<open>pkg/resourceread\<close>), \<open>Admission\<close>
      (\<open>pkg/admissionevaluator\<close>, \<open>pkg/cmd/checkadmission/check_admission.go\<close>), \<open>Command_Line\<close> (the flags
      of \<open>AddFlags\<close>, the two commands around them, \<open>cmd/crd-schema-checker/main.go\<close>).
    \<^item> \<open>Results_Tester\<close> (\<open>simple_tester.go\<close>), \<open>Admission_Tester\<close> (\<open>admission_tester.go\<close>),
      \<open>Transmission\<close> (the default comparators only write results that survive a response).
    \<^item> \<open>Map_Order_Program\<close>: the other two comparators, the registry, and the program from its files to its
      exit code do not depend on that order either, under these conditions.
    \<^item> \<open>Admission_Server\<close> (the vendored generic admission server: how hooks are grouped and installed,
      post-start hooks, reviews), \<open>Admission_Process\<close> (the process \<open>admission-check\<close> as steps, from its
      options to the answers it gives, with the abstract service that it refines), \<open>Served_Hook\<close>
      (that process with the flags and the default comparators of the program).
    \<^item> This theory: the properties of the registry with the default comparators, of the two
      commands run on it, of the program from its flags to its exit code, of the two front ends and
      of the two test drivers set against each other.

  \<^bold>\<open>How the model reads the code.\<close> A function keeps its name; a method has the name of its
  receiver in front (\<open>noBools_Validate\<close>). A call that may dereference a nil pointer or call
  \<open>panic\<close> has the type \<open>'a go\<close>, with \<open>None\<close> for the panic; an \<open>error\<close> result is the left side of a
  sum. A struct is a record; a nil slice and an empty one are the same list, since the code only
  takes their length and ranges over them. A Go map is an association list with different keys
  whose order is the order in which a run ranges over the map; where the code looks a key up, the model
  does. This is an idealisation: Go picks an order for each \<open>range\<close> statement, the model one for each
  map in a run. A property of one run on any lists holds whichever order the run picks. A property
  that relates two runs, or the two sides of a comparison, takes two CRDs, one the other with its maps
  reordered (\<open>reordered_crd\<close>), and the conditions under which the order does not matter
  (\<open>order_settled\<close>, \<open>order_blind\<close>); without them even the verdict may differ
  (\<open>map_order_decides_type_change\<close>). \<open>sets.String\<close> is a set.
  A predicate that updates captured variables takes and returns them. \<open>uint64\<close> and \<open>int64\<close> are words
  of 64 bits, so overflow wraps where it wraps in Go, and a \<open>float64\<close> is the exact fraction it
  stands for, rounded after each operation. Every recursion is structural or has a measure (the
  size of the schema, the length of a path); there is no fuel, and every function of the model
  returns. In \<open>Schema_Pool\<close> and \<open>New_Required_Fields\<close> pointers are explicit: a schema that the
  walker copies into a pooled struct has an address, a predicate that keeps the address sees what the
  struct holds later, and the choice of the pool (which free struct it hands out, or a new one) is
  a parameter.

  \<^bold>\<open>Contracts.\<close> Interfaces are locales, each interpreted on the definitions that implement it:
  \<open>folding_walker\<close>, \<open>collecting_walker\<close> and \<open>testing_walker\<close> for the predicates of a walk,
  \<open>schema_pool\<close>, \<open>pointer_predicate\<close> and \<open>pooled_walk\<close> for the walk over pointers,
  \<open>crd_comparator\<close> (a comparator returns on the CRDs it accepts, under its name, and has no error
  about an unchanged CRD it is settled on), \<open>crd_validator\<close> and \<open>field_validator\<close> for what the ratchet
  turns into comparators, \<open>version_comparator\<close> for those that pair versions, \<open>comparator_registry\<close> for
  the registry, \<open>order_free_validator\<close> and \<open>order_free_comparator\<close> for those that do not depend on the
  order of a map, \<open>tidy_comparator\<close> and \<open>tidy_validator\<close> for results that can be transmitted,
  \<open>draining_service\<close> for a service that works off what waits and is never stuck.

  \<^bold>\<open>The served hook.\<close> A process is a record of its options, its phase, the post-start hooks that ran, the
  reviews that wait and the answers it gave. \<open>process_step\<close> is a step of \<open>RunE\<close> (\<open>RunE_step\<close>, one rule for
  each outcome of a stage), of a post-start hook (\<open>post_start\<close>), or the answer to any review that waits
  (\<open>handling\<close>); \<open>client_step\<close> posts a review to a server that listens, which may be before its post-start
  hook ran. \<open>next_processes\<close> computes the steps. A panic in a handler ends that request (\<open>Aborted\<close>), as \<open>net/http\<close> recovers it. \<open>launch_options\<close> is
  what the flags give the process to start with.

  \<^bold>\<open>What is shown.\<close> The walk visits exactly the nodes reachable from its start, is the loop over
  them, and ends. Each comparator has a description of what it reports, or of what it accepts,
  without reference to the traversal, and a description of the inputs on which it panics. The pooled
  pointers of \<open>NoNewRequiredFields\<close> do not influence its result. The costs of CEL rules are
  products that saturate. A comparison returns one result for each selected comparator; the two
  front ends turn results into an exit code and into a response as described. A process that serves
  refines a service that answers each review by the comparators alone, answers every review that it
  accepted, and only gives well formed answers; it ends with 1 or 255 exactly when a flag names an
  unknown comparator, a stage of starting the server fails, or the name of its post-start hook is
  taken. From the flags of the command line to the exit code, \<open>check-manifests\<close> ends with 0, 1 or 255 as
  described. On CRDs in which the order of the maps does not matter, the comparison, the program and the
  hook do not depend on it, a CRD passes against itself, the two front ends agree on exit code,
  errors and panics, and a test passes against a served hook exactly when it passes against the
  registry, each side in an order of its own.

  \<^bold>\<open>Parameters\<close>, for code outside the repository's own packages: reading a file, decoding YAML
  or JSON, encoding a result or a CRD, the directory tree of the tests, the Kubernetes API server under
  the generic admission server (\<open>server_library\<close>: the errors of each stage of starting it and the names of
  its own post-start hooks), how \<open>cobra\<close> splits the arguments into a command and its flags, the texts of the
  CSV errors, and for \<open>MustNotExceedCostBudget\<close> a record \<open>cel_env\<close> of what the CEL compiler,
  the structural schemas and the declaration types of the Kubernetes libraries return.

  \<^bold>\<open>Not modelled.\<close> The parsing of arguments and the texts of help, which are \<open>cobra\<close>'s; what
  \<open>klog\<close> logs; the routing, authentication and wire format of the Kubernetes API server, its own post-start
  hooks, and its shutdown, which this program never asks for; the registration of the CRD types with the decoder (\<open>pkg/resourceread\<close>); the contexts for items and map values of the
  library's \<open>CELSchemaContext\<close>, which the program never creates; the rest of \<open>vendor\<close>.
\<close>

section \<open>The registry of the program\<close>

text \<open>
  \<open>NewDefaultComparators\<close> does not panic: its twelve comparators have different names, these are
  the known names, and each name finds its comparator.
\<close>

theorem default_registry:
  "\<exists>r. NewDefaultComparators env = Some r \<and> registry_ok r \<and>
     KnownComparators r = [''ConditionsMustHaveProperSSATags'', ''ListsMustHaveSSATags'', ''MustHaveStatus'',
       ''MustNotExceedCostBudget'', ''NoBools'', ''NoDataTypeChange'', ''NoEnumRemoval'', ''NoFieldRemoval'',
       ''NoFloats'', ''NoMaps'', ''NoNewRequiredFields'', ''NoUints''] \<and>
     set (map snd (comparators r)) = set (default_comparators env)"
proof -
  have "sort default_names = [''ConditionsMustHaveProperSSATags'', ''ListsMustHaveSSATags'', ''MustHaveStatus'',
       ''MustNotExceedCostBudget'', ''NoBools'', ''NoDataTypeChange'', ''NoEnumRemoval'', ''NoFieldRemoval'',
       ''NoFloats'', ''NoMaps'', ''NoNewRequiredFields'', ''NoUints'']"
    by code_simp
  with NewDefaultComparators_registry [of env] show ?thesis by auto
qed

text \<open>
  C1. A comparison of two CRDs on which no comparator panics returns one result for each comparator
  asked for, under its name and in the order of the names (of all known names when none is given),
  the result is what that comparator returns, and there is no error.
\<close>

theorem comparison_answers_for_all:
  assumes "NewDefaultComparators env = Some r" and "set names \<subseteq> set default_names"
    and "pred_option (comparable env) existing" and "comparable env new"
  shows "\<exists>rs. Registry_Compare r existing new names = Some (rs, []) \<and>
    map Name rs = (if names = [] then sort default_names else names) \<and>
    list_all2 (\<lambda>c x. Compare c existing new = Some (Inr x)) (selected r names) rs"
  using assms by (rule default_Compare)

lemma comparable_examples:
  "comparable (flat_env 1 0) plain_widgets" "comparable (flat_env 1 0) switch_widgets"
  by code_simp+

theorem comparison_answers_for_all_witness:
  "\<exists>r rs. NewDefaultComparators (flat_env 1 0) = Some r \<and>
     Registry_Compare r (Some plain_widgets) switch_widgets [''NoMaps'', ''NoBools''] = Some (rs, []) \<and>
     map Name rs = [''NoMaps'', ''NoBools'']"
proof -
  obtain r where r: "NewDefaultComparators (flat_env 1 0) = Some r"
    using NewDefaultComparators_registry [of "flat_env 1 0"] by blast
  have "set [''NoMaps'', ''NoBools''] \<subseteq> set default_names" by (simp add: default_names_def)
  from comparison_answers_for_all [OF r this, of "Some plain_widgets" switch_widgets] r comparable_examples
  show ?thesis by auto
qed



text \<open>
  The two commands agree on new CRDs: the comparison with the empty CRD, which the hook makes for a
  creation, is the comparison without an existing CRD, which \<open>check-manifests\<close> makes when no file is
  named, whichever comparators are selected and also where one panics.
\<close>

theorem creation_compares_like_no_file:
  assumes "NewDefaultComparators env = Some r"
  shows "Registry_Compare r (Some empty_crd) new names = Registry_Compare r None new names"
  using assms by (rule default_Compare_created)

section \<open>The command check-manifests\<close>

text \<open>The command on any CRDs, in terms of the comparators that the flags select.\<close>

lemma main_chosen:
  fixes csv settings
  defines "disabled \<equiv> given_list csv ''disabled-validators'' settings"
    and "newFile \<equiv> given_string ''new-crd-filename'' settings"
    and "existingFile \<equiv> given_string ''existing-crd-filename'' settings"
  assumes "NewDefaultComparators env = Some r"
    and "cobra args = Run_check_manifests settings" and "lists_readable csv settings"
    and "set (given_list csv ''enabled-validators'' settings) \<union> set disabled \<subseteq> set default_names"
    and "newFile \<noteq> []" and "holds_crd readFile decode newFile new"
    and "if existingFile = [] then existing = None
         else \<exists>e. existing = Some e \<and> holds_crd readFile decode existingFile e"
  shows "main env cobra csv readFile decode server help args io =
    (if chosen_panics env disabled existing new then None
     else Some (if error_causes (chosen_results env disabled existing new) = [] then 0 else 1,
       run_prints (chosen_results env disabled existing new) [] io))"
proof -
  let ?names = "sets_List (set default_names - set disabled)"
  let ?opts = "given_manifest_options r csv settings"
  let ?cfg = "\<lparr> ExistingCRD = existing, NewCRD = new, manifest_ComparatorConfig =
        \<lparr> config_ComparatorRegistry = r, ComparatorNames = ?names \<rparr> \<rparr>"
  have known: "set (KnownComparators r) = set default_names"
    using NewDefaultComparators_registry [of env] assms(4) by auto
  have options: "Options_Complete (given_options r csv settings) = Inr \<lparr> config_ComparatorRegistry = r, ComparatorNames = ?names \<rparr>"
    unfolding given_options_def disabled_def
    using Options_Complete_with [of "given_list csv ''enabled-validators'' settings" disabled r] assms(7)
    by (simp only: known disabled_def)
  then have "Options_Validate (given_options r csv settings) = None" by (simp add: Options_Complete_eq split: option.splits)
  then have valid: "Manifest_Validate ?opts = None"
    using assms(8) by (simp add: Manifest_Validate_def given_manifest_options_def newFile_def)
  have "Manifest_Complete readFile decode ?opts = Some (Inr ?cfg)"
    unfolding Manifest_Complete_Inr_iff read_existing_Inr_iff
    using assms(9,10) [unfolded newFile_def existingFile_def] options by (simp add: given_manifest_options_def)
  note ends = check_manifests_completed [OF valid this]
  have "run_failed rs [] \<longleftrightarrow> error_causes rs \<noteq> []" for rs
    by (auto simp: run_failed_def error_causes_def)
  then show ?thesis
    unfolding main_check_manifests [where cobra = cobra and args = args, OF assms(4-6)] ends
    by (simp add: Registry_Compare_chosen [OF assms(4)] exit_code_def)
qed

text \<open>The comparators that run: those that are not disabled, or all of them when all are.\<close>

lemma chosen_running:
  "d \<in> set (chosen_comparators env disabled) \<longleftrightarrow>
   d \<in> set (default_comparators env) \<and> (comparator_Name d \<notin> set disabled \<or> set default_names \<subseteq> set disabled)"
proof -
  have "set default_names = comparator_Name ` set (default_comparators env)"
    by (metis default_comparators_names list.set_map)
  then show ?thesis by (auto simp: chosen_comparators_def Let_def filter_empty_conv)
qed

lemma chosen_causes:
  "error_causes (chosen_results env disabled existing new) \<noteq> [] \<longleftrightarrow>
   (\<exists>d x. d \<in> set (chosen_comparators env disabled) \<and> Compare d existing new = Some (Inr x) \<and> Errors x \<noteq> [])"
proof -
  have "(\<exists>x\<in>set (result_of (Compare d existing new)). Errors x \<noteq> []) \<longleftrightarrow>
      (\<exists>x. Compare d existing new = Some (Inr x) \<and> Errors x \<noteq> [])" for d
    by (cases "Compare d existing new") (auto simp: result_of_def split: sum.split)
  moreover have "error_causes (chosen_results env disabled existing new) \<noteq> [] \<longleftrightarrow>
      (\<exists>d\<in>set (chosen_comparators env disabled). \<exists>x\<in>set (result_of (Compare d existing new)). Errors x \<noteq> [])"
    by (simp add: error_causes_def chosen_results_def)
  ultimately show ?thesis by blast
qed

text \<open>
  C2. The exit code of the program, run as \<open>check-manifests\<close> with lists in its flags that can be read and
  name known comparators, a new file, and files that hold CRDs. The comparators that run are those
  that are not disabled, or all of them when every one is disabled. The program panics exactly when one
  of them panics on the two CRDs; otherwise it exits with 1 when one of them reports an error, and
  with 0 when none does.
\<close>

theorem program_exit_code:
  fixes env csv settings
  defines "disabled \<equiv> given_list csv ''disabled-validators'' settings"
    and "newFile \<equiv> given_string ''new-crd-filename'' settings"
    and "existingFile \<equiv> given_string ''existing-crd-filename'' settings"
  defines "running \<equiv> \<lambda>d. d \<in> set (default_comparators env) \<and>
      (comparator_Name d \<notin> set disabled \<or> set default_names \<subseteq> set disabled)"
  assumes "NewDefaultComparators env = Some r"
    and "cobra args = Run_check_manifests settings" and "lists_readable csv settings"
    and "set (given_list csv ''enabled-validators'' settings) \<union> set disabled \<subseteq> set default_names"
    and "newFile \<noteq> []" and "holds_crd readFile decode newFile new"
    and "if existingFile = [] then existing = None
         else \<exists>e. existing = Some e \<and> holds_crd readFile decode existingFile e"
  shows "\<exists>out. main env cobra csv readFile decode server help args io =
    (if \<exists>d. running d \<and> Compare d existing new = None then None
     else Some (if \<exists>d x. running d \<and> Compare d existing new = Some (Inr x) \<and> Errors x \<noteq> [] then 1 else 0, out))"
proof -
  have panics: "chosen_panics env disabled existing new \<longleftrightarrow> (\<exists>d. running d \<and> Compare d existing new = None)"
    unfolding chosen_panics_def running_def using chosen_running [of _ env disabled] by blast
  have fails: "error_causes (chosen_results env disabled existing new) = [] \<longleftrightarrow>
      \<not> (\<exists>d x. running d \<and> Compare d existing new = Some (Inr x) \<and> Errors x \<noteq> [])"
    unfolding running_def chosen_running [symmetric] using chosen_causes [of env disabled existing new] by blast
  note runs = main_chosen [where cobra = cobra and args = args, OF assms(5-7) assms(8-11) [unfolded disabled_def newFile_def existingFile_def],
      of server "help" io, folded disabled_def, unfolded panics fails]
  show ?thesis unfolding runs by auto
qed

definition example_files :: file_reader where
  "example_files file = Inr file"

definition example_decoder :: decoder where
  "example_decoder content = Inr (CRD_object (if content = ''old.yaml'' then plain_widgets else switch_widgets))"

definition example_settings :: settings where
  "example_settings = [(''existing-crd-filename'', ''old.yaml''), (''disabled-validators'', ''NoMaps,NoUints''),
     (''new-crd-filename'', ''new.yaml'')]"

lemma example_disabled: "readAsCSV csv ''NoMaps,NoUints'' = Inr [''NoMaps'', ''NoUints'']"
  using readAsCSV_join [of "[''NoMaps'', ''NoUints'']" csv] by (simp add: join_commas_def plain_field_def)

lemma example_given:
  "given_string ''new-crd-filename'' example_settings = ''new.yaml''"
  "given_string ''existing-crd-filename'' example_settings = ''old.yaml''"
  "given_list csv ''disabled-validators'' example_settings = [''NoMaps'', ''NoUints'']"
  "given_list csv ''enabled-validators'' example_settings = []"
  "lists_readable csv example_settings"
  by (simp_all add: given_string_def given_list_def example_settings_def example_disabled lists_readable_def slice_flags_def)

theorem program_exit_code_witness:
  "\<exists>out. main (flat_env 1 0) (\<lambda>_. Run_check_manifests example_settings) (\<lambda>_ _. []) example_files
     example_decoder idle_server ''help'' [] \<lparr> Out = [], ErrOut = [] \<rparr> = Some (1, out)"
proof -
  obtain r where r: "NewDefaultComparators (flat_env 1 0) = Some r"
    using NewDefaultComparators_registry [of "flat_env 1 0"] by blast
  have files: "holds_crd example_files example_decoder ''new.yaml'' switch_widgets"
    "if ''old.yaml'' = [] then Some plain_widgets = None
     else \<exists>e. Some plain_widgets = Some e \<and> holds_crd example_files example_decoder ''old.yaml'' e"
    by (simp_all add: holds_crd_def example_files_def example_decoder_def)
  have names: "set [] \<union> set [''NoMaps'', ''NoUints''] \<subseteq> set default_names" by (simp add: default_names_def)
  have "Compare NoBools (Some plain_widgets) switch_widgets =
      Some (Inr \<lparr> Name = noBools_Name, WhyItMatters = noBools_WhyItMatters,
        Errors = [''crd/widgets version/v1 field/^.on may not be a boolean''], Warnings = [], Infos = [] \<rparr>)"
    by code_simp
  then obtain x where "Compare NoBools (Some plain_widgets) switch_widgets = Some (Inr x)" "Errors x \<noteq> []"
    by auto
  moreover have "NoBools \<in> set (default_comparators (flat_env 1 0))" "comparator_Name NoBools \<notin> set [''NoMaps'', ''NoUints'']"
    by (simp_all add: default_comparators_def NoBools_def noBools_Name_def)
  ultimately have failing: "\<exists>d x. (d \<in> set (default_comparators (flat_env 1 0)) \<and>
        (comparator_Name d \<notin> set [''NoMaps'', ''NoUints''] \<or> set default_names \<subseteq> set [''NoMaps'', ''NoUints''])) \<and>
      Compare d (Some plain_widgets) switch_widgets = Some (Inr x) \<and> Errors x \<noteq> []"
    by blast
  have running: "\<not> (\<exists>d. (d \<in> set (default_comparators (flat_env 1 0)) \<and>
        (comparator_Name d \<notin> set [''NoMaps'', ''NoUints''] \<or> set default_names \<subseteq> set [''NoMaps'', ''NoUints''])) \<and>
      Compare d (Some plain_widgets) switch_widgets = None)"
    using default_comparators_contract [of "flat_env 1 0" "Some plain_widgets" switch_widgets] comparable_examples
    by (fastforce simp: keeps_contract_def)
  note runs = program_exit_code [where csv = "\<lambda>_ _. []" and settings = example_settings and
      cobra = "\<lambda>_. Run_check_manifests example_settings" and args = "[]" and existing = "Some plain_widgets" and
      new = switch_widgets and readFile = example_files and decode = example_decoder, OF r refl,
      unfolded example_given(1-4), OF example_given(5) names _ files]
  have "''new.yaml'' \<noteq> []" by simp
  from runs [OF this] show ?thesis unfolding if_not_P [OF running] if_P [OF failing] .
qed

section \<open>The two front ends\<close>






text \<open>
  Disabling every comparator runs every comparator: the selection is then empty, and a comparison
  without names is a comparison with all of them.
\<close>

theorem disabling_all_runs_all:
  assumes "NewDefaultComparators env = Some r"
  shows "\<exists>cfg. Options_Complete (options_with r [] default_names) = Inr cfg \<and> ComparatorNames cfg = [] \<and>
    Registry_Compare (config_ComparatorRegistry cfg) existing new (ComparatorNames cfg) =
      Registry_Compare r existing new (sort default_names)"
proof -
  have r: "KnownComparators r = sort default_names"
    using NewDefaultComparators_registry [of env] assms by auto
  have "Options_Complete (options_with r [] default_names) =
      Inr \<lparr> config_ComparatorRegistry = r, ComparatorNames = sets_List (set (KnownComparators r) - set default_names) \<rparr>"
    by (rule Options_Complete_with) (simp add: r del: set_KnownComparators)
  moreover have "sets_List (set (KnownComparators r) - set default_names) = []"
    by (simp add: r del: set_KnownComparators)
  moreover have "Registry_Compare r existing new [] = Registry_Compare r existing new (sort default_names)"
    by (simp only: Registry_Compare_known [OF assms])
  ultimately show ?thesis by (simp del: set_KnownComparators)
qed

section \<open>The two ways to run a test\<close>







end
